(* ===== verification/Netrpc_Prelude.thy ===== *)
theory Netrpc_Prelude
  imports Main "HOL-Library.Word"
begin

text \<open>
  Shared ground of the development.  Faults of the C++ program are values: a definition
  that may read or write out of range, overflow a signed integer, dereference a null
  pointer or hand an impossible length to a container returns \<open>'a res\<close>, with \<open>Inl\<close> for
  the fault.  Also here: the 32-bit and 64-bit integer conversions of the code, byte-vector
  reads and writes (the \<open>memcpy\<close> calls), C strings, the loop over a vector, and the generic
  list facts every component uses.
\<close>

section \<open>Faults and results\<close>

datatype fault =
    Out_Of_Bounds   \<comment> \<open>a read or write outside an array, vector or \<open>malloc\<close> block\<close>
  | Int_Overflow    \<comment> \<open>signed arithmetic or a conversion outside its type\<close>
  | Null_Deref      \<comment> \<open>a null pointer is dereferenced\<close>
  | Length_Error    \<comment> \<open>a container is asked for an impossible length (exception)\<close>
  | Div_By_Zero

type_synonym 'a res = "fault + 'a"

named_theorems res_simps "evaluation of results"
named_theorems int_simps "the integer conversions on values in range"
named_theorems vec_simps "reads and writes of byte vectors"

definition bind_res :: "'a res \<Rightarrow> ('a \<Rightarrow> 'b res) \<Rightarrow> 'b res" where
  "bind_res r f = (case r of Inl e \<Rightarrow> Inl e | Inr x \<Rightarrow> f x)"

lemma bind_res_simps [simp, res_simps]:
  "bind_res (Inl e) f = Inl e"
  "bind_res (Inr x) f = f x"
  by (simp_all add: bind_res_def)

lemma bind_res_eq_Inr [res_simps]:
  "bind_res r f = Inr y \<longleftrightarrow> (\<exists>x. r = Inr x \<and> f x = Inr y)"
  by (cases r) simp_all

lemma bind_res_cong [fundef_cong]:
  assumes "r = r'" and "\<And>x. r' = Inr x \<Longrightarrow> f x = f' x"
  shows "bind_res r f = bind_res r' f'"
  using assms by (cases r') simp_all

text \<open>A loop over a vector whose body may fault.\<close>

primrec fold_res :: "('a \<Rightarrow> 's \<Rightarrow> 's res) \<Rightarrow> 'a list \<Rightarrow> 's \<Rightarrow> 's res" where
  "fold_res f [] s = Inr s"
| "fold_res f (x # xs) s = bind_res (f x s) (fold_res f xs)"

lemma fold_res_append:
  "fold_res f (xs @ ys) s = bind_res (fold_res f xs s) (fold_res f ys)"
proof (induction xs arbitrary: s)
  case (Cons x xs)
  then show ?case by (cases "f x s") simp_all
qed simp

lemma fold_res_invariant:
  assumes "fold_res f xs s = Inr t" and "P s"
    and "\<And>x u v. x \<in> set xs \<Longrightarrow> P u \<Longrightarrow> f x u = Inr v \<Longrightarrow> P v"
  shows "P t"
  using assms
proof (induction xs arbitrary: s)
  case (Cons x xs)
  from Cons.prems(1) obtain u where u: "f x s = Inr u" "fold_res f xs u = Inr t"
    by (auto simp: bind_res_eq_Inr)
  with Cons.prems(2,3) have "P u" by (meson list.set_intros(1))
  with Cons.IH [OF u(2)] Cons.prems(3) show ?case by auto
qed simp

lemma fold_res_pure: "(\<And>x s. x \<in> set xs \<Longrightarrow> f x s = Inr (g x s)) \<Longrightarrow> fold_res f xs s = Inr (fold g xs s)"
  by (induction xs arbitrary: s) auto

text \<open>A loop each of whose turns faults on the same elements, whatever the state.\<close>

lemma fold_res_faults:
  assumes "\<And>x s. x \<in> set xs \<Longrightarrow> if good x then \<exists>t. f x s = Inr t else f x s = Inl e"
  shows "if \<forall>x \<in> set xs. good x then \<exists>t. fold_res f xs s = Inr t else fold_res f xs s = Inl e"
  using assms
proof (induction xs arbitrary: s)
  case (Cons x xs)
  have IH: "if \<forall>x \<in> set xs. good x then \<exists>t. fold_res f xs u = Inr t else fold_res f xs u = Inl e" for u
    by (rule Cons.IH) (use Cons.prems in auto)
  show ?case
  proof (cases "good x")
    case True
    then obtain u where "f x s = Inr u" using Cons.prems [of x s] by auto
    with IH [of u] True show ?thesis by simp
  next
    case False
    then have "f x s = Inl e" using Cons.prems [of x s] by simp
    with False show ?thesis by simp
  qed
qed simp

lemma fold_append_map: "fold (\<lambda>x ys. ys @ f x) xs ys = ys @ concat (map f xs)"
  by (induction xs arbitrary: ys) auto

section \<open>Machine integers\<close>

text \<open>
  A C++ \<open>int\<close> is an \<open>int\<close> of HOL that the code keeps inside 32 bits.  \<open>chk32\<close> is signed
  arithmetic (overflow is a fault), \<open>wrap32\<close> a conversion to \<open>int32_t\<close> (modular),
  \<open>to_size\<close> a conversion to the 64-bit \<open>size_t\<close>.
\<close>

abbreviation INT_MAX :: int where "INT_MAX \<equiv> 2147483647"

definition in_int32 :: "int \<Rightarrow> bool" where
  "in_int32 i \<longleftrightarrow> - 2147483648 \<le> i \<and> i \<le> INT_MAX"

definition chk32 :: "int \<Rightarrow> int res" where
  "chk32 i = (if in_int32 i then Inr i else Inl Int_Overflow)"

definition wrap32 :: "int \<Rightarrow> int" where
  "wrap32 i = (i + 2147483648) mod 4294967296 - 2147483648"

definition to_size :: "int \<Rightarrow> int" where
  "to_size i = i mod 18446744073709551616"

lemma in_int32I [intro]: "- 2147483648 \<le> i \<Longrightarrow> i \<le> INT_MAX \<Longrightarrow> in_int32 i"
  by (simp add: in_int32_def)

lemma chk32_Inr [simp, res_simps]: "chk32 i = Inr j \<longleftrightarrow> in_int32 i \<and> j = i"
  by (auto simp: chk32_def)

lemma chk32_ok [simp]: "in_int32 i \<Longrightarrow> chk32 i = Inr i"
  by (simp add: chk32_def)

lemma chk32_in [int_simps]: "- 2147483648 \<le> i \<Longrightarrow> i \<le> INT_MAX \<Longrightarrow> chk32 i = Inr i"
  by (simp add: in_int32_def)

lemma wrap32_in_range: "in_int32 (wrap32 i)"
  using pos_mod_bound [of 4294967296 "i + 2147483648"] pos_mod_sign [of 4294967296 "i + 2147483648"]
  by (simp add: in_int32_def wrap32_def)

lemma wrap32_id: "in_int32 i \<Longrightarrow> wrap32 i = i"
  by (simp add: in_int32_def wrap32_def)

lemma wrap32_in [int_simps]: "- 2147483648 \<le> i \<Longrightarrow> i \<le> INT_MAX \<Longrightarrow> wrap32 i = i"
  by (simp add: wrap32_def)

lemma to_size_in [int_simps]: "0 \<le> i \<Longrightarrow> i < 18446744073709551616 \<Longrightarrow> to_size i = i"
  by (simp add: to_size_def)

lemma to_size_neg:
  assumes "- 18446744073709551616 \<le> i" and "i < 0"
  shows "to_size i = i + 18446744073709551616"
proof -
  have "i mod 18446744073709551616 = (i + 18446744073709551616) mod 18446744073709551616"
    by (rule mod_add_self2 [symmetric])
  also have "\<dots> = i + 18446744073709551616"
    using assms by (intro mod_pos_pos_trivial) simp_all
  finally show ?thesis by (simp only: to_size_def)
qed

text \<open>\<open>(int)(1.5 * n)\<close>: exact in a \<open>double\<close> for 32-bit \<open>n\<close>, then cut towards zero.\<close>

definition one_and_half :: "int \<Rightarrow> int res" where
  "one_and_half n = chk32 (if 0 \<le> n then 3 * n div 2 else - (3 * (- n) div 2))"

lemma one_and_half_in [int_simps]:
  "0 \<le> n \<Longrightarrow> n \<le> 1431655765 \<Longrightarrow> one_and_half n = Inr (3 * n div 2)"
  by (simp add: one_and_half_def in_int32_def) linarith

lemma half_again: "0 \<le> n \<Longrightarrow> n \<le> 3 * n div (2::int)"
  by presburger

lemma half_again_bound: "n \<le> 1431655765 \<Longrightarrow> 3 * n div 2 \<le> INT_MAX"
  by presburger

section \<open>Byte vectors\<close>

text \<open>
  \<open>char\<close> is the byte of the program, so \<open>std::string\<close> and \<open>std::vector<char>\<close> are both
  \<open>char list\<close>.  \<open>read_bytes v i n\<close> is \<open>memcpy\<close> of \<open>n\<close> bytes from \<open>&v[i]\<close>,
  \<open>write_bytes v i bs\<close> a \<open>memcpy\<close> of \<open>bs\<close> to \<open>&v[i]\<close>.
\<close>

abbreviation NUL :: char where "NUL \<equiv> CHR 0x00"

definition at_index :: "'a list \<Rightarrow> int \<Rightarrow> 'a res" where
  "at_index v i = (if 0 \<le> i \<and> i < int (length v) then Inr (v ! nat i) else Inl Out_Of_Bounds)"

definition read_bytes :: "char list \<Rightarrow> int \<Rightarrow> int \<Rightarrow> char list res" where
  "read_bytes v i n =
     (if 0 \<le> i \<and> 0 \<le> n \<and> i + n \<le> int (length v)
      then Inr (take (nat n) (drop (nat i) v)) else Inl Out_Of_Bounds)"

definition write_bytes :: "char list \<Rightarrow> int \<Rightarrow> char list \<Rightarrow> char list res" where
  "write_bytes v i bs =
     (if 0 \<le> i \<and> i + int (length bs) \<le> int (length v)
      then Inr (take (nat i) v @ bs @ drop (nat i + length bs) v) else Inl Out_Of_Bounds)"

definition new_bytes :: "int \<Rightarrow> char list res" where
  \<comment> \<open>\<open>std::vector<char> v(n)\<close>: zero bytes, an exception for a negative length\<close>
  "new_bytes n = (if 0 \<le> n then Inr (replicate (nat n) NUL) else Inl Length_Error)"

lemma at_index_in [vec_simps]: "0 \<le> i \<Longrightarrow> i < int (length v) \<Longrightarrow> at_index v i = Inr (v ! nat i)"
  by (simp add: at_index_def)

lemma at_index_append: "i = int (length xs) \<Longrightarrow> at_index (xs @ c # ys) i = Inr c"
  by (simp add: at_index_def)

lemma at_index_Inr: "at_index v i = Inr x \<longleftrightarrow> 0 \<le> i \<and> i < int (length v) \<and> x = v ! nat i"
  by (auto simp: at_index_def)

lemma read_bytes_in [vec_simps]:
  "0 \<le> i \<Longrightarrow> 0 \<le> n \<Longrightarrow> i + n \<le> int (length v) \<Longrightarrow>
   read_bytes v i n = Inr (take (nat n) (drop (nat i) v))"
  by (simp add: read_bytes_def)

lemma read_bytes_Inr:
  "read_bytes v i n = Inr bs \<longleftrightarrow>
   0 \<le> i \<and> 0 \<le> n \<and> i + n \<le> int (length v) \<and> bs = take (nat n) (drop (nat i) v)"
  by (auto simp: read_bytes_def)

lemma write_bytes_in [vec_simps]:
  "0 \<le> i \<Longrightarrow> i + int (length bs) \<le> int (length v) \<Longrightarrow>
   write_bytes v i bs = Inr (take (nat i) v @ bs @ drop (nat i + length bs) v)"
  by (simp add: write_bytes_def)

lemma new_bytes_in [vec_simps]: "0 \<le> n \<Longrightarrow> new_bytes n = Inr (replicate (nat n) NUL)"
  by (simp add: new_bytes_def)

lemma read_bytes_append:
  "read_bytes (xs @ ys @ zs) (int (length xs)) (int (length ys)) = Inr ys"
  by (simp add: read_bytes_def)

lemma find_in_set: "find P xs = Some e \<Longrightarrow> e \<in> set xs"
  by (induction xs) (auto split: if_splits)

lemma length_take_drop: "length (take n xs) + length (drop n xs) = length xs"
  by simp

lemma length_takeWhile_found: "x \<in> set xs \<Longrightarrow> \<not> P x \<Longrightarrow> length (takeWhile P xs) < length xs"
  by (induction xs) auto

text \<open>A C string: the bytes before the first NUL, which the array must hold.\<close>

definition c_string :: "char list \<Rightarrow> string res" where
  "c_string arr =
     (if NUL \<in> set arr then Inr (takeWhile (\<lambda>c. c \<noteq> NUL) arr) else Inl Out_Of_Bounds)"

lemma c_string_padded [vec_simps]:
  "NUL \<notin> set s \<Longrightarrow> NUL \<in> set rest \<Longrightarrow>
   takeWhile (\<lambda>c. c \<noteq> NUL) rest = [] \<Longrightarrow> c_string (s @ rest) = Inr s"
  by (subst c_string_def) (subst takeWhile_append2, auto)

lemma c_string_zeros:
  assumes "NUL \<notin> set s" and "0 < n"
  shows "c_string (s @ replicate n NUL) = Inr s"
proof -
  obtain m where "n = Suc m" using assms(2) gr0_implies_Suc by blast
  with assms(1) show ?thesis by (intro c_string_padded) simp_all
qed

end
