(* ===== verification/Net_Bytes.thy ===== *)
theory Net_Bytes
  imports Netrpc_Prelude
begin

text \<open>
  Network byte order: the four bytes the code writes with \<open>htonl\<close> and \<open>memcpy\<close>, and
  \<open>getInt32FromNetByte\<close> of \<open>common/util.cc\<close>, which reads them back.  \<open>htonl\<close> and
  \<open>ntohl\<close> swap a 32-bit word into big-endian byte order.
\<close>

definition htonl_bytes :: "int \<Rightarrow> char list" where
  \<comment> \<open>\<open>int32_t x = htonl(i)\<close> and the four bytes of \<open>x\<close> in memory\<close>
  "htonl_bytes i =
     (let w = unat (word_of_int i :: 32 word)
      in [char_of (w div 16777216), char_of (w div 65536), char_of (w div 256), char_of w])"

definition ntohl_bytes :: "char list \<Rightarrow> int" where
  \<comment> \<open>\<open>ntohl\<close> of four bytes in memory, converted to \<open>int32_t\<close>\<close>
  "ntohl_bytes bs =
     sint (word_of_nat (foldl (\<lambda>n c. n * 256 + of_char c) 0 bs) :: 32 word)"

definition getInt32FromNetByte :: "char list \<Rightarrow> int \<Rightarrow> int res" where
  \<comment> \<open>the pointer argument is \<open>&v[i]\<close>\<close>
  "getInt32FromNetByte v i = bind_res (read_bytes v i 4) (\<lambda>re. Inr (ntohl_bytes re))"

lemma length_htonl_bytes [simp, vec_simps]: "length (htonl_bytes i) = 4"
  by (simp add: htonl_bytes_def Let_def)

lemma base256_digits:
  fixes n :: nat
  assumes "n < 4294967296"
  shows "((n div 16777216 mod 256 * 256 + n div 65536 mod 256) * 256
          + n div 256 mod 256) * 256 + n mod 256 = n"
proof -
  have "n div 16777216 mod 256 = n div 16777216"
    using assms by (intro mod_less) (simp add: less_mult_imp_div_less)
  moreover have "n div 16777216 = n div 65536 div 256" "n div 65536 = n div 256 div 256"
    by (simp_all add: div_mult2_eq [symmetric])
  ultimately show ?thesis
    by (metis div_mult_mod_eq)
qed

lemma foldl_htonl_bytes:
  "foldl (\<lambda>n c. n * 256 + of_char c) 0 (htonl_bytes i) = unat (word_of_int i :: 32 word)"
proof -
  have "unat (word_of_int i :: 32 word) < 2 ^ LENGTH(32)"
    by (rule unsigned_less)
  then have "unat (word_of_int i :: 32 word) < 4294967296" by simp
  from base256_digits [OF this] show ?thesis
    by (simp only: htonl_bytes_def Let_def foldl_Cons foldl_Nil of_char_of mult_zero_left add_0)
qed

lemma sint_word_of_int_32: "in_int32 i \<Longrightarrow> sint (word_of_int i :: 32 word) = i"
  by (simp add: in_int32_def signed_of_int signed_take_bit_int_eq_self)

text \<open>The round trip of a 32-bit integer through the wire format.\<close>

lemma ntohl_htonl: "in_int32 i \<Longrightarrow> ntohl_bytes (htonl_bytes i) = i"
  by (simp add: ntohl_bytes_def foldl_htonl_bytes sint_word_of_int_32)

lemma ntohl_bytes_in_int32: "in_int32 (ntohl_bytes bs)"
  using sint_lt [of "word_of_nat (foldl (\<lambda>n c. n * 256 + of_char c) 0 bs) :: 32 word"]
    sint_ge [of "word_of_nat (foldl (\<lambda>n c. n * 256 + of_char c) 0 bs) :: 32 word"]
  by (simp add: ntohl_bytes_def in_int32_def)

lemma getInt32_range: "getInt32FromNetByte v i = Inr n \<Longrightarrow> in_int32 n"
  by (auto simp: getInt32FromNetByte_def bind_res_eq_Inr ntohl_bytes_in_int32)

lemma getInt32_fault:
  "\<not> (0 \<le> i \<and> i + 4 \<le> int (length v)) \<Longrightarrow> getInt32FromNetByte v i = Inl Out_Of_Bounds"
  by (auto simp: getInt32FromNetByte_def read_bytes_def)

lemma getInt32_at:
  assumes "in_int32 n" and "i = int (length xs)"
  shows "getInt32FromNetByte (xs @ htonl_bytes n @ ys) i = Inr n"
  using read_bytes_append [of xs "htonl_bytes n" ys] assms
  by (simp add: getInt32FromNetByte_def ntohl_htonl)

lemma htonl_bytes_inject:
  "in_int32 i \<Longrightarrow> in_int32 j \<Longrightarrow> htonl_bytes i = htonl_bytes j \<longleftrightarrow> i = j"
  by (metis ntohl_htonl)

end
