(* ===== verification/Tcp_Buffer.thy ===== *)
theory Tcp_Buffer
  imports Net_Bytes
begin

text \<open>
  \<open>net/tcp/tcp_buffer.cc\<close>: the byte buffer each connection reads into and writes from.
  The record is the class, one definition per member function.  The abstract view is the
  byte queue \<open>contents\<close>; the interface \<open>byte_fifo\<close> states what the coders rely on and is
  interpreted on \<open>writeToBuffer\<close> and \<open>readFromBuffer\<close>.
\<close>

section \<open>State and operations\<close>

record tcp_buffer =
  m_read_index :: int
  m_write_index :: int
  m_size :: int
  m_buffer :: "char list"

definition tcp_buffer_init :: "int \<Rightarrow> tcp_buffer res" where
  "tcp_buffer_init sz =
     bind_res (new_bytes sz)
       (\<lambda>v. Inr \<lparr>m_read_index = 0, m_write_index = 0, m_size = sz, m_buffer = v\<rparr>)"

definition readAble :: "tcp_buffer \<Rightarrow> int" where
  "readAble b = m_write_index b - m_read_index b"

definition writeAble :: "tcp_buffer \<Rightarrow> int" where
  "writeAble b = wrap32 (int (length (m_buffer b)) - m_write_index b)"

definition readIndex :: "tcp_buffer \<Rightarrow> int" where
  "readIndex b = m_read_index b"

definition writeIndex :: "tcp_buffer \<Rightarrow> int" where
  "writeIndex b = m_write_index b"

definition resizeBuffer :: "tcp_buffer \<Rightarrow> int \<Rightarrow> tcp_buffer res" where
  "resizeBuffer b new_size =
     bind_res (new_bytes new_size) (\<lambda>tmp.
       let count = min new_size (readAble b) in
       bind_res (read_bytes (m_buffer b) (m_read_index b) count) (\<lambda>src.
       bind_res (write_bytes tmp 0 src) (\<lambda>tmp.
       Inr (b\<lparr>m_buffer := tmp, m_read_index := 0, m_write_index := 0 + count\<rparr>))))"

definition writeToBuffer :: "tcp_buffer \<Rightarrow> char list \<Rightarrow> int \<Rightarrow> tcp_buffer res" where
  "writeToBuffer b buf sz =
     bind_res
       (if sz > writeAble b
        then bind_res (chk32 (m_write_index b + sz)) (\<lambda>n.
             bind_res (one_and_half n) (\<lambda>new_size.
             resizeBuffer b new_size))
        else Inr b) (\<lambda>b.
     bind_res (read_bytes buf 0 sz) (\<lambda>src.
     bind_res (write_bytes (m_buffer b) (m_write_index b) src) (\<lambda>v.
     bind_res (chk32 (m_write_index b + sz)) (\<lambda>w.
     Inr (b\<lparr>m_buffer := v, m_write_index := w\<rparr>)))))"

definition adjustBuffer :: "tcp_buffer \<Rightarrow> tcp_buffer res" where
  "adjustBuffer b =
     (if m_read_index b < wrap32 (int (length (m_buffer b)) div 3) then Inr b
      else
        bind_res (new_bytes (int (length (m_buffer b)))) (\<lambda>buffer.
        let count = readAble b in
        bind_res (read_bytes (m_buffer b) (m_read_index b) count) (\<lambda>src.
        bind_res (write_bytes buffer 0 src) (\<lambda>buffer.
        Inr (b\<lparr>m_buffer := buffer, m_read_index := 0, m_write_index := 0 + count\<rparr>)))))"

definition readFromBuffer :: "tcp_buffer \<Rightarrow> char list \<Rightarrow> int \<Rightarrow> (char list \<times> tcp_buffer) res" where
  \<comment> \<open>\<open>re\<close> is the reference argument: unchanged when nothing can be read\<close>
  "readFromBuffer b re sz =
     (if readAble b = 0 then Inr (re, b)
      else
        let read_size = (if readAble b > sz then sz else readAble b) in
        bind_res (new_bytes read_size) (\<lambda>tmp.
        bind_res (read_bytes (m_buffer b) (m_read_index b) read_size) (\<lambda>src.
        bind_res (write_bytes tmp 0 src) (\<lambda>tmp.
        bind_res (chk32 (m_read_index b + read_size)) (\<lambda>r.
        bind_res (adjustBuffer (b\<lparr>m_read_index := r\<rparr>)) (\<lambda>b.
        Inr (tmp, b)))))))"

definition moveReadIndex :: "tcp_buffer \<Rightarrow> int \<Rightarrow> tcp_buffer res" where
  "moveReadIndex b sz =
     bind_res (chk32 (m_read_index b + sz)) (\<lambda>n.
       let j = to_size n in
       if j \<ge> int (length (m_buffer b)) then Inr b
       else adjustBuffer (b\<lparr>m_read_index := wrap32 j\<rparr>))"

definition moveWriteIndex :: "tcp_buffer \<Rightarrow> int \<Rightarrow> tcp_buffer res" where
  "moveWriteIndex b sz =
     bind_res (chk32 (m_write_index b + sz)) (\<lambda>n.
       let j = to_size n in
       if j \<ge> int (length (m_buffer b)) then Inr b
       else adjustBuffer (b\<lparr>m_write_index := wrap32 j\<rparr>))"

section \<open>Invariant and abstraction\<close>

definition buf_inv :: "tcp_buffer \<Rightarrow> bool" where
  "buf_inv b \<longleftrightarrow> 0 \<le> m_read_index b \<and> m_read_index b \<le> m_write_index b \<and>
     m_write_index b \<le> int (length (m_buffer b)) \<and> int (length (m_buffer b)) \<le> INT_MAX"

definition contents :: "tcp_buffer \<Rightarrow> char list" where
  "contents b = take (nat (readAble b)) (drop (nat (m_read_index b)) (m_buffer b))"

text \<open>
  The shape of a well-formed buffer: consumed bytes, readable bytes, free space.
\<close>

definition buf_shape :: "tcp_buffer \<Rightarrow> char list \<Rightarrow> char list \<Rightarrow> char list \<Rightarrow> bool" where
  "buf_shape b pre mid post \<longleftrightarrow> m_buffer b = pre @ mid @ post \<and>
     m_read_index b = int (length pre) \<and> m_write_index b = int (length pre + length mid)"

named_theorems buf_simps "buffer operations on a buffer of known shape"

lemma buf_invI_shape:
  "buf_shape b pre mid post \<Longrightarrow> int (length pre + length mid + length post) \<le> INT_MAX \<Longrightarrow> buf_inv b"
  by (simp add: buf_shape_def buf_inv_def)

lemma length_contents: "buf_inv b \<Longrightarrow> int (length (contents b)) = readAble b"
  unfolding buf_inv_def readAble_def contents_def length_take length_drop by arith

lemma buf_inv_shape:
  assumes "buf_inv b"
  obtains pre post where "buf_shape b pre (contents b) post"
    and "int (length pre + length (contents b) + length post) \<le> INT_MAX"
proof
  let ?pre = "take (nat (m_read_index b)) (m_buffer b)"
  let ?post = "drop (nat (m_write_index b)) (m_buffer b)"
  have rw: "nat (m_write_index b) = nat (m_read_index b) + nat (readAble b)"
    using assms unfolding buf_inv_def readAble_def by arith
  have "contents b @ ?post = drop (nat (m_read_index b)) (m_buffer b)"
    unfolding contents_def rw by (metis append_take_drop_id drop_drop add.commute)
  then have buf: "m_buffer b = ?pre @ contents b @ ?post" by simp
  have pre: "int (length ?pre) = m_read_index b"
    using assms unfolding buf_inv_def length_take by arith
  have mid: "int (length (contents b)) = readAble b"
    using assms by (rule length_contents)
  show "buf_shape b ?pre (contents b) ?post"
    using buf pre mid by (simp add: buf_shape_def readAble_def)
  show "int (length ?pre + length (contents b) + length ?post) \<le> INT_MAX"
    using assms pre mid unfolding buf_inv_def readAble_def length_drop by linarith
qed

lemma shape_contents [buf_simps]: "buf_shape b pre mid post \<Longrightarrow> contents b = mid"
  by (simp add: buf_shape_def contents_def readAble_def)

lemma shape_readAble [buf_simps]: "buf_shape b pre mid post \<Longrightarrow> readAble b = int (length mid)"
  by (simp add: buf_shape_def readAble_def)

lemma shape_writeAble [buf_simps]:
  "buf_shape b pre mid post \<Longrightarrow> int (length pre + length mid + length post) \<le> INT_MAX \<Longrightarrow>
   writeAble b = int (length post)"
  by (simp add: buf_shape_def writeAble_def wrap32_in)

lemma shape_indices [buf_simps]:
  "buf_shape b pre mid post \<Longrightarrow> readIndex b = int (length pre)"
  "buf_shape b pre mid post \<Longrightarrow> writeIndex b = int (length pre + length mid)"
  by (simp_all add: buf_shape_def readIndex_def writeIndex_def)

text \<open>The accessors stay within \<open>int\<close>: their subtractions never overflow.\<close>

lemma accessors_in_int32:
  "buf_inv b \<Longrightarrow> in_int32 (readAble b) \<and> in_int32 (writeAble b) \<and> 0 \<le> readAble b \<and>
     writeAble b = int (length (m_buffer b)) - m_write_index b"
  by (auto simp: buf_inv_def readAble_def writeAble_def in_int32_def wrap32_in)


section \<open>The operations on a buffer of known shape\<close>

lemma init_shape:
  "0 \<le> n \<Longrightarrow> \<exists>b. tcp_buffer_init n = Inr b \<and> buf_shape b [] [] (replicate (nat n) NUL)"
  by (simp add: tcp_buffer_init_def new_bytes_def buf_shape_def)

lemma resizeBuffer_shape:
  assumes "buf_shape b pre mid post" and "0 \<le> n"
  shows "\<exists>b'. resizeBuffer b n = Inr b' \<and> m_size b' = m_size b \<and>
           buf_shape b' [] (take (nat n) mid) (replicate (nat n - length mid) NUL)"
proof -
  have "n < int (length mid) \<Longrightarrow> min (length mid) (nat n) = nat n" using assms(2) by simp
  then show ?thesis
    using assms
    by (cases "n < int (length mid)")
      (simp_all add: resizeBuffer_def new_bytes_def read_bytes_def write_bytes_def Let_def
        buf_shape_def readAble_def)
qed

lemma adjustBuffer_shape:
  assumes "buf_shape b pre mid post" and "int (length pre + length mid + length post) \<le> INT_MAX"
  shows "\<exists>b' pre' post'. adjustBuffer b = Inr b' \<and> m_size b' = m_size b \<and> buf_shape b' pre' mid post' \<and>
           length pre' + length post' = length pre + length post \<and> length pre' \<le> length pre"
proof (cases "m_read_index b < int (length (m_buffer b)) div 3")
  case True
  with assms show ?thesis
    by (intro exI [of _ b] exI [of _ pre] exI [of _ post])
      (simp add: adjustBuffer_def buf_shape_def wrap32_def)
next
  case False
  have "wrap32 (int (length (m_buffer b)) div 3) = int (length (m_buffer b)) div 3"
    using assms by (intro wrap32_in) (simp_all add: buf_shape_def)
  with False assms show ?thesis
    by (intro exI [of _ "b\<lparr>m_buffer := mid @ replicate (length pre + length post) NUL,
          m_read_index := 0, m_write_index := int (length mid)\<rparr>"] exI [of _ "[]"]
        exI [of _ "replicate (length pre + length post) NUL"])
      (simp add: adjustBuffer_def new_bytes_def read_bytes_def write_bytes_def Let_def
        buf_shape_def readAble_def)
qed

text \<open>Writing: in place when the bytes fit, into an enlarged buffer when they do not.\<close>

lemma writeToBuffer_fits:
  assumes "buf_shape b pre mid post" and "length bs \<le> length post"
    and "int (length pre + length mid + length post) \<le> INT_MAX"
  shows "\<exists>b'. writeToBuffer b bs (int (length bs)) = Inr b' \<and> m_size b' = m_size b \<and>
           buf_shape b' pre (mid @ bs) (drop (length bs) post)"
  using assms
  by (simp add: writeToBuffer_def shape_writeAble read_bytes_def write_bytes_def chk32_in
      buf_shape_def nat_int_add)

lemma writeToBuffer_grows:
  assumes "buf_shape b pre mid post" and "length post < length bs"
    and "int (length pre + length mid + length post) \<le> INT_MAX"
    and "int (length pre + length mid + length bs) \<le> 1431655765"
  shows "\<exists>b' post'. writeToBuffer b bs (int (length bs)) = Inr b' \<and> m_size b' = m_size b \<and>
           buf_shape b' [] (mid @ bs) post' \<and>
           int (length (m_buffer b')) = 3 * int (length pre + length mid + length bs) div 2"
proof -
  let ?need = "int (length pre + length mid + length bs)"
  have need: "?need \<le> 3 * ?need div 2" "3 * ?need div 2 \<le> INT_MAX"
    using half_again [of ?need] half_again_bound [OF assms(4)] by simp_all
  then obtain k where k: "3 * ?need div 2 = int k"
    by (metis nonneg_int_cases of_nat_0_le_iff order_trans)
  with need have k_ge: "length pre + length mid + length bs \<le> k" and k_le: "int k \<le> INT_MAX"
    by linarith+
  then have room: "length bs \<le> length (replicate (k - length mid) NUL)"
    and total: "int (length [] + length mid + length (replicate (k - length mid) NUL)) \<le> INT_MAX"
    by simp_all
  obtain b0 where b0: "resizeBuffer b (int k) = Inr b0" "m_size b0 = m_size b"
      "buf_shape b0 [] mid (replicate (k - length mid) NUL)"
    using resizeBuffer_shape [OF assms(1), of "int k"] k_ge by auto
  obtain b' where b': "writeToBuffer b0 bs (int (length bs)) = Inr b'" "m_size b' = m_size b0"
    "buf_shape b' [] (mid @ bs) (drop (length bs) (replicate (k - length mid) NUL))"
    using writeToBuffer_fits [OF b0(3) room total] by auto
  have w: "m_write_index b + int (length bs) = ?need"
    using assms(1) by (simp add: buf_shape_def)
  have "writeAble b0 = int (k - length mid)"
    using shape_writeAble [OF b0(3) total] by simp
  moreover have "writeAble b = int (length post)"
    using shape_writeAble [OF assms(1,3)] .
  moreover have "chk32 ?need = Inr ?need" "one_and_half ?need = Inr (int k)"
    using assms(4) k one_and_half_in [of ?need] by (simp_all add: in_int32_def)
  ultimately have "writeToBuffer b bs (int (length bs)) = writeToBuffer b0 bs (int (length bs))"
    using assms(2) k_ge unfolding writeToBuffer_def [of b] writeToBuffer_def [of b0] w
    by (simp add: b0(1))
  with b' b0(2) k_ge k show ?thesis
    by (intro exI [of _ b'] exI conjI) (auto simp: buf_shape_def)
qed

text \<open>Reading and the two index moves.\<close>

lemma readFromBuffer_shape:
  assumes "buf_shape b pre mid post" and "mid \<noteq> []"
    and "int (length pre + length mid + length post) \<le> INT_MAX"
  shows "\<exists>b' pre' post'. readFromBuffer b re (int n) = Inr (take n mid, b') \<and> m_size b' = m_size b \<and>
           buf_shape b' pre' (drop n mid) post' \<and> length pre' \<le> length pre + length (take n mid) \<and>
           length pre' + length (drop n mid) + length post' = length pre + length mid + length post"
proof -
  let ?k = "length (take n mid)"
  let ?b = "b\<lparr>m_read_index := int (length pre + ?k)\<rparr>"
  have total: "int (length (pre @ take n mid) + length (drop n mid) + length post) \<le> INT_MAX"
    using assms(3) length_take_drop [of n mid] unfolding length_append by linarith
  have "buf_shape ?b (pre @ take n mid) (drop n mid) post"
    using assms(1) by (simp add: buf_shape_def)
  from adjustBuffer_shape [OF this] obtain b' pre' post' where b':
    "adjustBuffer ?b = Inr b'" "m_size b' = m_size ?b" "buf_shape b' pre' (drop n mid) post'"
    "length pre' + length post' = length (pre @ take n mid) + length post"
    "length pre' \<le> length (pre @ take n mid)"
    using total by auto
  have size: "(if readAble b > int n then int n else readAble b) = int ?k"
    using assms(1) by (simp add: shape_readAble)
  have copy: "read_bytes (m_buffer b) (m_read_index b) (int ?k) = Inr (take n mid)"
    using assms(1) by (auto simp: buf_shape_def read_bytes_def min_def)
  have "chk32 (m_read_index b + int ?k) = Inr (int (length pre + ?k))"
    using assms(1,3) by (simp add: buf_shape_def in_int32_def)
  moreover have "readAble b \<noteq> 0" using assms(1,2) by (simp add: shape_readAble)
  ultimately have "readFromBuffer b re (int n) = Inr (take n mid, b')"
    unfolding readFromBuffer_def size Let_def using copy b'(1)
    by (simp add: new_bytes_def write_bytes_def)
  with b' show ?thesis
    by (intro exI [of _ b'] exI [of _ pre'] exI [of _ post']) auto
qed

lemma moveReadIndex_shape:
  assumes "buf_shape b pre mid post" and "k \<le> length mid" and "k < length mid + length post"
    and "int (length pre + length mid + length post) \<le> INT_MAX"
  shows "\<exists>b' pre' post'. moveReadIndex b (int k) = Inr b' \<and> m_size b' = m_size b \<and>
           buf_shape b' pre' (drop k mid) post' \<and> length pre' \<le> length pre + k \<and>
           length pre' + length (drop k mid) + length post' = length pre + length mid + length post"
proof -
  let ?b = "b\<lparr>m_read_index := int (length pre + k)\<rparr>"
  have total: "int (length (pre @ take k mid) + length (drop k mid) + length post) \<le> INT_MAX"
    using assms(4) length_take_drop [of k mid] unfolding length_append by linarith
  have "buf_shape ?b (pre @ take k mid) (drop k mid) post"
    using assms(1,2) by (simp add: buf_shape_def)
  from adjustBuffer_shape [OF this] obtain b' pre' post' where b':
    "adjustBuffer ?b = Inr b'" "m_size b' = m_size ?b" "buf_shape b' pre' (drop k mid) post'"
    "length pre' + length post' = length (pre @ take k mid) + length post"
    "length pre' \<le> length (pre @ take k mid)"
    using total by auto
  have "moveReadIndex b (int k) = adjustBuffer ?b"
    using assms by (simp add: moveReadIndex_def buf_shape_def in_int32_def to_size_in wrap32_in)
  with b' assms(2) show ?thesis
    by (intro exI [of _ b'] exI [of _ pre'] exI [of _ post']) auto
qed

lemma moveReadIndex_refused:
  assumes "buf_shape b pre mid post" and "length mid + length post \<le> k"
    and "int (length pre + k) \<le> INT_MAX"
  shows "moveReadIndex b (int k) = Inr b"
  using assms by (simp add: moveReadIndex_def buf_shape_def in_int32_def to_size_in)

lemma moveWriteIndex_shape:
  assumes "buf_shape b pre mid post" and "k < length post"
    and "int (length pre + length mid + length post) \<le> INT_MAX"
  shows "\<exists>b' pre' post'. moveWriteIndex b (int k) = Inr b' \<and> m_size b' = m_size b \<and>
           buf_shape b' pre' (mid @ take k post) post' \<and> post' \<noteq> [] \<and> length pre' \<le> length pre \<and>
           length pre' + length (mid @ take k post) + length post' =
             length pre + length mid + length post"
proof -
  let ?b = "b\<lparr>m_write_index := int (length pre + length mid + k)\<rparr>"
  have "buf_shape ?b pre (mid @ take k post) (drop k post)"
    using assms(1,2) by (simp add: buf_shape_def)
  from adjustBuffer_shape [OF this] obtain b' pre' post' where b':
    "adjustBuffer ?b = Inr b'" "m_size b' = m_size ?b" "buf_shape b' pre' (mid @ take k post) post'"
    "length pre' + length post' = length pre + length (drop k post)" "length pre' \<le> length pre"
    using assms by auto
  have "moveWriteIndex b (int k) = adjustBuffer ?b"
    using assms
    by (simp add: moveWriteIndex_def buf_shape_def in_int32_def to_size_in wrap32_in add.assoc)
  moreover have "post' \<noteq> []" using b'(4,5) assms(2) by auto
  ultimately show ?thesis using b' assms(2)
    by (intro exI [of _ b'] exI [of _ pre'] exI [of _ post']) auto
qed

lemma moveWriteIndex_refused:
  assumes "buf_shape b pre mid post" and "length post \<le> k"
    and "int (length pre + length mid + k) \<le> INT_MAX"
  shows "moveWriteIndex b (int k) = Inr b"
  using assms by (simp add: moveWriteIndex_def buf_shape_def in_int32_def to_size_in)

section \<open>The byte queue interface\<close>

text \<open>
  What the coders rely on: \<open>put\<close> appends to the readable bytes, \<open>get\<close> takes from their
  front.  \<open>used\<close> is the position of the last byte; a \<open>put\<close> that keeps it below \<open>limit\<close>
  cannot fault.
\<close>

datatype fifo_op = Put "char list" | Get nat

fun fifo_run ::
  "('b \<Rightarrow> char list \<Rightarrow> 'b res) \<Rightarrow> ('b \<Rightarrow> int \<Rightarrow> (char list \<times> 'b) res) \<Rightarrow>
   fifo_op list \<Rightarrow> 'b \<Rightarrow> (char list list \<times> 'b) res" where
  "fifo_run put get [] b = Inr ([], b)"
| "fifo_run put get (Put bs # ops) b = bind_res (put b bs) (fifo_run put get ops)"
| "fifo_run put get (Get n # ops) b =
     bind_res (get b (int n)) (\<lambda>(out, b).
     bind_res (fifo_run put get ops b) (\<lambda>(outs, b). Inr (out # outs, b)))"

fun queue_run :: "fifo_op list \<Rightarrow> char list \<Rightarrow> char list list \<times> char list" where
  "queue_run [] q = ([], q)"
| "queue_run (Put bs # ops) q = queue_run ops (q @ bs)"
| "queue_run (Get n # ops) q = (let (outs, q') = queue_run ops (drop n q) in (take n q # outs, q'))"

fun put_bytes :: "fifo_op list \<Rightarrow> int" where
  "put_bytes [] = 0"
| "put_bytes (Put bs # ops) = int (length bs) + put_bytes ops"
| "put_bytes (Get n # ops) = put_bytes ops"

lemma put_bytes_nonneg [simp]: "0 \<le> put_bytes ops"
  by (induction ops rule: put_bytes.induct) simp_all

locale byte_fifo =
  fixes inv :: "'b \<Rightarrow> bool"
    and view :: "'b \<Rightarrow> char list"
    and used :: "'b \<Rightarrow> int"
    and limit :: int
    and put :: "'b \<Rightarrow> char list \<Rightarrow> 'b res"
    and get :: "'b \<Rightarrow> int \<Rightarrow> (char list \<times> 'b) res"
  assumes put_law: "inv b \<Longrightarrow> used b + int (length bs) \<le> limit \<Longrightarrow>
      \<exists>b'. put b bs = Inr b' \<and> inv b' \<and> view b' = view b @ bs \<and> used b' \<le> used b + int (length bs)"
    and get_law: "inv b \<Longrightarrow>
      \<exists>b'. get b (int n) = Inr (take n (view b), b') \<and> inv b' \<and> view b' = drop n (view b) \<and>
           used b' \<le> used b"
begin

lemma run_refines_queue:
  assumes "inv b" and "used b + put_bytes ops \<le> limit"
  shows "\<exists>b'. fifo_run put get ops b = Inr (fst (queue_run ops (view b)), b') \<and> inv b' \<and>
           view b' = snd (queue_run ops (view b))"
  using assms
proof (induction ops arbitrary: b rule: put_bytes.induct)
  case (2 bs ops)
  from 2(3) have "used b + int (length bs) \<le> limit"
    using put_bytes_nonneg [of ops] unfolding put_bytes.simps by linarith
  with 2(2) put_law obtain c where
    c: "put b bs = Inr c" "inv c" "view c = view b @ bs" "used c \<le> used b + int (length bs)"
    by blast
  with 2(3) have "used c + put_bytes ops \<le> limit" by simp
  from "2.IH" [OF c(2) this] c show ?case by simp
next
  case (3 n ops)
  from get_law [OF 3(2)] obtain c where
    c: "get b (int n) = Inr (take n (view b), c)" "inv c" "view c = drop n (view b)" "used c \<le> used b"
    by blast
  with 3(3) have "used c + put_bytes ops \<le> limit" by simp
  from "3.IH" [OF c(2) this] c show ?case by (auto split: prod.splits)
qed simp

text \<open>Chunks written one after the other are appended in order.\<close>

lemma put_all:
  assumes "inv b" and "used b + int (length (concat chunks)) \<le> limit"
  shows "\<exists>b'. fold_res (\<lambda>bs b. put b bs) chunks b = Inr b' \<and> inv b' \<and>
           view b' = view b @ concat chunks \<and> used b' \<le> used b + int (length (concat chunks))"
  using assms
proof (induction chunks arbitrary: b)
  case (Cons bs chunks)
  from Cons.prems(2) have "used b + int (length bs) \<le> limit" by simp
  with Cons.prems(1) put_law obtain c where
    c: "put b bs = Inr c" "inv c" "view c = view b @ bs" "used c \<le> used b + int (length bs)"
    by blast
  with Cons.prems(2) have "used c + int (length (concat chunks)) \<le> limit" by simp
  from Cons.IH [OF c(2) this] c show ?case by fastforce
qed simp

end

section \<open>The buffer is a byte queue\<close>

abbreviation WRITE_LIMIT :: int where "WRITE_LIMIT \<equiv> 1431655765"

abbreviation buf_put :: "tcp_buffer \<Rightarrow> char list \<Rightarrow> tcp_buffer res" where
  "buf_put b bs \<equiv> writeToBuffer b bs (int (length bs))"

abbreviation buf_get :: "tcp_buffer \<Rightarrow> int \<Rightarrow> (char list \<times> tcp_buffer) res" where
  "buf_get b n \<equiv> readFromBuffer b [] n"

lemma writeToBuffer_enqueues:
  assumes "buf_inv b" and "m_write_index b + int (length bs) \<le> WRITE_LIMIT"
  shows "\<exists>b'. writeToBuffer b bs (int (length bs)) = Inr b' \<and> buf_inv b' \<and>
           contents b' = contents b @ bs \<and> m_write_index b' \<le> m_write_index b + int (length bs)"
proof -
  obtain pre post where sh: "buf_shape b pre (contents b) post"
    and len: "int (length pre + length (contents b) + length post) \<le> INT_MAX"
    using buf_inv_shape [OF assms(1)] .
  have w: "m_write_index b = int (length pre + length (contents b))"
    using sh unfolding buf_shape_def by blast
  show ?thesis
  proof (cases "length bs \<le> length post")
    case True
    from writeToBuffer_fits [OF sh True len] obtain b' where
      b': "buf_put b bs = Inr b'" "buf_shape b' pre (contents b @ bs) (drop (length bs) post)" by blast
    have "buf_inv b'" using buf_invI_shape [OF b'(2)] len True by simp
    with b' w show ?thesis using shape_contents [OF b'(2)] by (auto simp: buf_shape_def)
  next
    case False
    then have "length post < length bs" by simp
    moreover have need: "int (length pre + length (contents b) + length bs) \<le> WRITE_LIMIT"
      using assms(2) w by simp
    ultimately obtain b' post' where
      b': "buf_put b bs = Inr b'" "buf_shape b' [] (contents b @ bs) post'"
      "int (length (m_buffer b')) = 3 * int (length pre + length (contents b) + length bs) div 2"
      using writeToBuffer_grows [OF sh _ len] by blast
    then have "buf_inv b'"
      using half_again_bound [OF need] by (simp add: buf_inv_def buf_shape_def)
    with b' w show ?thesis using shape_contents [OF b'(2)] by (auto simp: buf_shape_def)
  qed
qed

lemma readFromBuffer_dequeues:
  assumes "buf_inv b"
  shows "\<exists>b'. readFromBuffer b re (int n) =
             Inr (if contents b = [] then re else take n (contents b), b') \<and>
           buf_inv b' \<and> contents b' = drop n (contents b) \<and> m_write_index b' \<le> m_write_index b"
proof (cases "contents b = []")
  case True
  with length_contents [OF assms] have "readAble b = 0" by simp
  then have "readFromBuffer b re (int n) = Inr (re, b)" by (simp add: readFromBuffer_def)
  with True assms show ?thesis by simp
next
  case False
  obtain pre post where sh: "buf_shape b pre (contents b) post"
    and len: "int (length pre + length (contents b) + length post) \<le> INT_MAX"
    using buf_inv_shape [OF assms] .
  from readFromBuffer_shape [OF sh False len, of re n] obtain b' pre' post' where
    b': "readFromBuffer b re (int n) = Inr (take n (contents b), b')"
    "buf_shape b' pre' (drop n (contents b)) post'"
    "length pre' \<le> length pre + length (take n (contents b))"
    "length pre' + length (drop n (contents b)) + length post' =
       length pre + length (contents b) + length post" by blast
  have "buf_inv b'" using buf_invI_shape [OF b'(2)] len b'(4) by simp
  moreover have "m_write_index b' \<le> m_write_index b"
    using sh b'(2,3) length_take_drop [of n "contents b"]
    unfolding buf_shape_def by linarith
  ultimately show ?thesis using False b'(1) shape_contents [OF b'(2)] by simp
qed

interpretation buf: byte_fifo buf_inv contents m_write_index WRITE_LIMIT buf_put buf_get
proof
  show "\<exists>b'. buf_put b bs = Inr b' \<and> buf_inv b' \<and> contents b' = contents b @ bs \<and>
          m_write_index b' \<le> m_write_index b + int (length bs)"
    if "buf_inv b" "m_write_index b + int (length bs) \<le> WRITE_LIMIT" for b bs
    using writeToBuffer_enqueues [OF that] .
  show "\<exists>b'. buf_get b (int n) = Inr (take n (contents b), b') \<and> buf_inv b' \<and>
          contents b' = drop n (contents b) \<and> m_write_index b' \<le> m_write_index b"
    if "buf_inv b" for b n
    using readFromBuffer_dequeues [OF that, of "[]" n] by (cases "contents b = []") auto
qed

section \<open>Every operation keeps a buffer well-formed\<close>

text \<open>Whatever the arguments, as long as the call returns: \<open>buf_of n b\<close> is the buffer made for \<open>n\<close> bytes.\<close>

definition buf_of :: "int \<Rightarrow> tcp_buffer \<Rightarrow> bool" where
  "buf_of n b \<longleftrightarrow> buf_inv b \<and> m_size b = n"

named_theorems keeps "an operation that returns keeps the type of its object"

lemma init_keeps [keeps]: "tcp_buffer_init n = Inr b \<Longrightarrow> n \<le> INT_MAX \<Longrightarrow> buf_of n b"
  by (auto simp: tcp_buffer_init_def bind_res_eq_Inr new_bytes_def buf_of_def buf_inv_def split: if_splits)

lemma resizeBuffer_keeps [keeps]:
  assumes "resizeBuffer b k = Inr b'" and "buf_of n b" and "k \<le> INT_MAX"
  shows "buf_of n b'"
proof -
  obtain pre post where "buf_shape b pre (contents b) post"
    using assms(2) buf_inv_shape unfolding buf_of_def by metis
  moreover have "0 \<le> k"
    using assms(1) by (auto simp: resizeBuffer_def new_bytes_def bind_res_eq_Inr split: if_splits)
  ultimately obtain c where c: "resizeBuffer b k = Inr c" "m_size c = m_size b"
    "buf_shape c [] (take (nat k) (contents b)) (replicate (nat k - length (contents b)) NUL)"
    using resizeBuffer_shape by blast
  have "int (length [] + length (take (nat k) (contents b)) +
      length (replicate (nat k - length (contents b)) NUL)) \<le> INT_MAX"
    using assms(3) by simp
  with buf_invI_shape [OF c(3)] c assms(1,2) show ?thesis by (simp add: buf_of_def)
qed

lemma adjustBuffer_keeps [keeps]:
  assumes "adjustBuffer b = Inr b'" and "buf_of n b"
  shows "buf_of n b'"
proof -
  obtain pre post where sh: "buf_shape b pre (contents b) post"
    and len: "int (length pre + length (contents b) + length post) \<le> INT_MAX"
    using assms(2) buf_inv_shape unfolding buf_of_def by metis
  from adjustBuffer_shape [OF sh len] obtain c pre' post' where
    c: "adjustBuffer b = Inr c" "m_size c = m_size b" "buf_shape c pre' (contents b) post'"
      "length pre' + length post' = length pre + length post" by blast
  have "int (length pre' + length (contents b) + length post') \<le> INT_MAX" using len c(4) by simp
  with buf_invI_shape [OF c(3)] c assms show ?thesis by (simp add: buf_of_def)
qed

lemma moveReadIndex_keeps [keeps]:
  assumes "moveReadIndex b k = Inr b'" and "buf_of n b" and "k \<le> readAble b"
  shows "buf_of n b'"
proof -
  let ?j = "to_size (m_read_index b + k)"
  have j: "in_int32 (m_read_index b + k)" "(if ?j \<ge> int (length (m_buffer b)) then Inr b
      else adjustBuffer (b\<lparr>m_read_index := wrap32 ?j\<rparr>)) = Inr b'"
    using assms(1) by (auto simp: moveReadIndex_def bind_res_eq_Inr Let_def)
  show ?thesis
  proof (cases "?j \<ge> int (length (m_buffer b))")
    case False
    have "0 \<le> m_read_index b + k"
      using False j(1) assms(2) to_size_neg [of "m_read_index b + k"]
      by (cases "0 \<le> m_read_index b + k") (auto simp: in_int32_def buf_of_def buf_inv_def)
    then have "wrap32 ?j = m_read_index b + k"
      using j(1) by (simp add: to_size_in in_int32_def wrap32_in)
    then have "buf_of n (b\<lparr>m_read_index := wrap32 ?j\<rparr>)"
      using assms(2,3) \<open>0 \<le> m_read_index b + k\<close> by (auto simp: buf_of_def buf_inv_def readAble_def)
    with False j(2) show ?thesis by (auto intro: adjustBuffer_keeps)
  qed (use j assms(2) in simp)
qed

lemma moveWriteIndex_keeps [keeps]:
  assumes "moveWriteIndex b k = Inr b'" and "buf_of n b" and "0 \<le> k"
  shows "buf_of n b'"
proof -
  let ?j = "to_size (m_write_index b + k)"
  have j: "in_int32 (m_write_index b + k)" "(if ?j \<ge> int (length (m_buffer b)) then Inr b
      else adjustBuffer (b\<lparr>m_write_index := wrap32 ?j\<rparr>)) = Inr b'"
    using assms(1) by (auto simp: moveWriteIndex_def bind_res_eq_Inr Let_def)
  show ?thesis
  proof (cases "?j \<ge> int (length (m_buffer b))")
    case False
    have "0 \<le> m_write_index b + k" using assms(2,3) by (auto simp: buf_of_def buf_inv_def)
    then have "?j = m_write_index b + k" "wrap32 ?j = m_write_index b + k"
      using j(1) by (simp_all add: to_size_in in_int32_def wrap32_in)
    then have "buf_of n (b\<lparr>m_write_index := wrap32 ?j\<rparr>)"
      using False assms(2,3) by (auto simp: buf_of_def buf_inv_def)
    with False j(2) show ?thesis by (auto intro: adjustBuffer_keeps)
  qed (use j assms(2) in simp)
qed

lemma write_at_end_keeps:
  assumes "write_bytes (m_buffer b) (m_write_index b) bs = Inr v" and "buf_of n b"
  shows "buf_of n (b\<lparr>m_buffer := v\<rparr>)" and "m_write_index b + int (length bs) \<le> int (length v)"
    and "length v = length (m_buffer b)"
proof -
  have "m_write_index b + int (length bs) \<le> int (length (m_buffer b))" "0 \<le> m_write_index b"
    "v = take (nat (m_write_index b)) (m_buffer b) @ bs @ drop (nat (m_write_index b) + length bs) (m_buffer b)"
    using assms(1) by (auto simp: write_bytes_def split: if_splits)
  then show len: "length v = length (m_buffer b)" "m_write_index b + int (length bs) \<le> int (length v)"
    by (auto simp: min_def)
  then show "buf_of n (b\<lparr>m_buffer := v\<rparr>)" using assms(2) by (simp add: buf_of_def buf_inv_def)
qed

lemma writeToBuffer_keeps [keeps]:
  assumes "writeToBuffer b bs k = Inr b'" and "buf_of n b"
  shows "buf_of n b'"
proof -
  obtain c src v where c: "(if k > writeAble b
        then bind_res (chk32 (m_write_index b + k)) (\<lambda>n. bind_res (one_and_half n) (resizeBuffer b))
        else Inr b) = Inr c"
    and src: "read_bytes bs 0 k = Inr src" and v: "write_bytes (m_buffer c) (m_write_index c) src = Inr v"
    and b': "b' = c\<lparr>m_buffer := v, m_write_index := m_write_index c + k\<rparr>"
    using assms(1) by (auto simp: writeToBuffer_def bind_res_eq_Inr)
  have "buf_of n c"
    using c assms(2) resizeBuffer_keeps
    by (auto simp: bind_res_eq_Inr one_and_half_def in_int32_def split: if_splits)
  note w = write_at_end_keeps [OF v this]
  have "0 \<le> k" "int (length src) = k" using src by (auto simp: read_bytes_def split: if_splits)
  with w b' show ?thesis by (auto simp: buf_of_def buf_inv_def)
qed

section \<open>Properties of the buffer\<close>

lemma moveReadIndex_dequeues:
  assumes "buf_inv b" and "0 \<le> k" and "k \<le> readAble b"
    and "m_read_index b + k < int (length (m_buffer b))"
  shows "\<exists>b'. moveReadIndex b k = Inr b' \<and> buf_inv b' \<and> contents b' = drop (nat k) (contents b) \<and>
           length (m_buffer b') = length (m_buffer b) \<and> m_write_index b' \<le> m_write_index b"
proof -
  obtain pre post where sh: "buf_shape b pre (contents b) post"
    and len: "int (length pre + length (contents b) + length post) \<le> INT_MAX"
    using buf_inv_shape [OF assms(1)] .
  have "nat k \<le> length (contents b)"
    using assms(2,3) length_contents [OF assms(1)] by linarith
  moreover have "nat k < length (contents b) + length post"
    using assms(2,4) sh unfolding buf_shape_def by auto
  ultimately obtain b' pre' post' where
    b': "moveReadIndex b (int (nat k)) = Inr b'" "buf_shape b' pre' (drop (nat k) (contents b)) post'"
      "length pre' \<le> length pre + nat k"
      "length pre' + length (drop (nat k) (contents b)) + length post' =
         length pre + length (contents b) + length post"
    using moveReadIndex_shape [OF sh _ _ len] by blast
  have "buf_inv b'" using buf_invI_shape [OF b'(2)] len b'(4) by simp
  moreover have "length (m_buffer b') = length (m_buffer b)"
    using sh b'(2,4) by (simp add: buf_shape_def)
  moreover have "m_write_index b' \<le> m_write_index b"
    using sh b'(2,3) \<open>nat k \<le> length (contents b)\<close>
    unfolding buf_shape_def length_drop by linarith
  ultimately show ?thesis using b'(1) shape_contents [OF b'(2)] assms(2) by simp
qed

text \<open>What \<open>moveReadIndex\<close> leaves in the vector: the old bytes, or only the readable ones and zeros.\<close>

lemma moveReadIndex_result:
  assumes "buf_inv b" and "0 \<le> k" and "k \<le> readAble b"
    and "m_read_index b + k < int (length (m_buffer b))"
  shows "moveReadIndex b k = Inr (if m_read_index b + k < int (length (m_buffer b)) div 3
           then b\<lparr>m_read_index := m_read_index b + k\<rparr>
           else b\<lparr>m_buffer := drop (nat k) (contents b)
                   @ replicate (length (m_buffer b) - nat (readAble b - k)) NUL,
                  m_read_index := 0, m_write_index := readAble b - k\<rparr>)"
proof -
  let ?r = "m_read_index b" and ?n = "int (length (m_buffer b))"
  have le: "0 \<le> ?r" "m_write_index b \<le> ?n" "?n \<le> INT_MAX" "k \<le> m_write_index b - ?r"
    using assms(1,3) by (auto simp: buf_inv_def readAble_def)
  have third: "wrap32 (?n div 3) = ?n div 3" using le by (intro wrap32_in) simp_all
  have step: "moveReadIndex b k = adjustBuffer (b\<lparr>m_read_index := ?r + k\<rparr>)"
    using le assms(2,4) by (simp add: moveReadIndex_def to_size_in wrap32_in in_int32_def)
  have "read_bytes (m_buffer b) (?r + k) (readAble b - k) = Inr (drop (nat k) (contents b))"
  proof -
    have "nat (?r + k) = nat ?r + nat k" "nat (readAble b - k) = nat (readAble b) - nat k"
      using le assms(2) by (simp_all add: nat_add_distrib nat_diff_distrib)
    moreover have "read_bytes (m_buffer b) (?r + k) (readAble b - k) =
        Inr (take (nat (readAble b - k)) (drop (nat (?r + k)) (m_buffer b)))"
      using le assms(2,3) by (intro read_bytes_in) (simp_all add: readAble_def)
    ultimately show ?thesis by (simp add: contents_def drop_take add.commute)
  qed
  moreover have "int (length (drop (nat k) (contents b))) = readAble b - k"
    using length_contents [OF assms(1)] assms(2,3) by auto
  then have "length (drop (nat k) (contents b)) = nat (readAble b - k)" by linarith
  moreover have "readAble (b\<lparr>m_read_index := ?r + k\<rparr>) = readAble b - k" by (simp add: readAble_def)
  moreover have "nat (readAble b - k) \<le> length (m_buffer b)"
    using le assms(2) unfolding readAble_def by linarith
  ultimately show ?thesis
    unfolding step adjustBuffer_def
    by (simp add: third new_bytes_in write_bytes_def Let_def)
qed

lemma moveReadIndex_returns:
  assumes "buf_inv b" and "0 \<le> k" and "k \<le> readAble b"
  shows "\<exists>b'. moveReadIndex b k = Inr b'"
proof (cases "m_read_index b + k < int (length (m_buffer b))")
  case True
  with moveReadIndex_dequeues [OF assms] show ?thesis by blast
next
  case False
  with assms have "moveReadIndex b k = Inr b"
    by (simp add: moveReadIndex_def buf_inv_def readAble_def in_int32_def to_size_in)
  then show ?thesis ..
qed

lemma moveWriteIndex_enqueues:
  assumes "buf_inv b" and "0 \<le> k" and "k < writeAble b"
  shows "\<exists>b'. moveWriteIndex b k = Inr b' \<and> buf_inv b' \<and>
           contents b' = contents b @ take (nat k) (drop (nat (m_write_index b)) (m_buffer b)) \<and>
           length (m_buffer b') = length (m_buffer b) \<and>
           m_write_index b' < int (length (m_buffer b'))"
proof -
  obtain pre post where sh: "buf_shape b pre (contents b) post"
    and len: "int (length pre + length (contents b) + length post) \<le> INT_MAX"
    using buf_inv_shape [OF assms(1)] .
  have post: "drop (nat (m_write_index b)) (m_buffer b) = post"
    using sh by (simp add: buf_shape_def nat_int_add)
  have "nat k < length post"
    using assms(2,3) shape_writeAble [OF sh len] by linarith
  then obtain b' pre' post' where
    b': "moveWriteIndex b (int (nat k)) = Inr b'" "buf_shape b' pre' (contents b @ take (nat k) post) post'"
      "post' \<noteq> []" "length pre' + length (contents b @ take (nat k) post) + length post' =
         length pre + length (contents b) + length post"
    using moveWriteIndex_shape [OF sh _ len] by blast
  have "buf_inv b'" using buf_invI_shape [OF b'(2)] len b'(4) by simp
  moreover have "length (m_buffer b') = length (m_buffer b)"
    using sh b'(2,4) unfolding buf_shape_def by (metis add.assoc length_append)
  moreover have "m_write_index b' < int (length (m_buffer b'))"
    using b'(2,3) by (simp add: buf_shape_def)
  ultimately show ?thesis using b'(1) shape_contents [OF b'(2)] assms(2) post by simp
qed

lemma moveWriteIndex_full_refused:
  assumes "buf_inv b" and "writeAble b \<le> k" and "m_write_index b + k \<le> INT_MAX"
  shows "moveWriteIndex b k = Inr b"
proof -
  obtain pre post where sh: "buf_shape b pre (contents b) post"
    and len: "int (length pre + length (contents b) + length post) \<le> INT_MAX"
    using buf_inv_shape [OF assms(1)] .
  have w: "m_write_index b = int (length pre + length (contents b))"
    using sh unfolding buf_shape_def by blast
  have "0 \<le> k" "length post \<le> nat k"
    using assms(2) shape_writeAble [OF sh len] by linarith+
  with moveWriteIndex_refused [OF sh, of "nat k"] assms(3) w show ?thesis by simp
qed

text \<open>C2. A fresh buffer refines the byte queue: whatever sequence of \<open>writeToBuffer\<close> and
  \<open>readFromBuffer\<close> calls runs on a new \<open>TcpBuffer\<close>, as long as at most \<open>WRITE_LIMIT\<close> bytes
  are written in all, no call faults, every read returns what the queue returns, and the
  buffer ends well-formed with the queue's bytes as its readable bytes.\<close>

theorem buffer_refines_queue:
  assumes "0 \<le> n" and "n \<le> INT_MAX" and "put_bytes ops \<le> WRITE_LIMIT"
  shows "\<exists>b b'. tcp_buffer_init n = Inr b \<and>
           fifo_run buf_put buf_get ops b = Inr (fst (queue_run ops []), b') \<and>
           buf_inv b' \<and> contents b' = snd (queue_run ops [])"
proof -
  obtain b where b: "tcp_buffer_init n = Inr b" "buf_shape b [] [] (replicate (nat n) NUL)"
    using init_shape [OF assms(1)] by blast
  then have "buf_inv b" "contents b = []" "m_write_index b = 0"
    using assms(1,2) shape_contents [OF b(2)] by (auto simp: buf_shape_def buf_inv_def)
  with buf.run_refines_queue [of b ops] b(1) assms(3) show ?thesis by auto
qed

theorem buffer_refines_queue_witness:
  "\<exists>b b'. tcp_buffer_init 4 = Inr b \<and>
     fifo_run buf_put buf_get [Put ''abc'', Get 2, Put ''defg'', Get 9] b = Inr ([''ab'', ''cdefg''], b') \<and>
     buf_inv b' \<and> contents b' = []"
  using buffer_refines_queue [of 4 "[Put ''abc'', Get 2, Put ''defg'', Get 9]"] by simp

text \<open>\<open>moveReadIndex\<close> consumes exactly \<open>k\<close> readable bytes and \<open>moveWriteIndex\<close> publishes
  exactly the \<open>k\<close> bytes that were read into the free space, both keeping the invariant and
  the capacity; but \<open>moveWriteIndex\<close> refuses, and changes nothing, as soon as the bytes would
  fill the free space completely (\<open>j >= m_buffer.size()\<close>).\<close>

theorem move_indices:
  assumes "buf_inv b" and "0 \<le> k" and "0 \<le> r" and "r \<le> readAble b"
    and "m_read_index b + r < int (length (m_buffer b))" and "m_write_index b + k \<le> INT_MAX"
  shows "(\<exists>b'. moveReadIndex b r = Inr b' \<and> buf_inv b' \<and> contents b' = drop (nat r) (contents b) \<and>
            length (m_buffer b') = length (m_buffer b)) \<and>
         (\<exists>b'. moveWriteIndex b k = Inr b' \<and> buf_inv b' \<and> length (m_buffer b') = length (m_buffer b) \<and>
            contents b' = (if k < writeAble b
              then contents b @ take (nat k) (drop (nat (m_write_index b)) (m_buffer b))
              else contents b))"
proof
  show "\<exists>b'. moveReadIndex b r = Inr b' \<and> buf_inv b' \<and> contents b' = drop (nat r) (contents b) \<and>
          length (m_buffer b') = length (m_buffer b)"
    using moveReadIndex_dequeues [OF assms(1,3,4,5)] by blast
  show "\<exists>b'. moveWriteIndex b k = Inr b' \<and> buf_inv b' \<and> length (m_buffer b') = length (m_buffer b) \<and>
          contents b' = (if k < writeAble b
            then contents b @ take (nat k) (drop (nat (m_write_index b)) (m_buffer b))
            else contents b)"
    using moveWriteIndex_enqueues [OF assms(1,2)] moveWriteIndex_full_refused [OF assms(1)] assms(1,6)
    by (cases "k < writeAble b") auto
qed

theorem move_indices_witness:
  "\<exists>b'. moveWriteIndex \<lparr>m_read_index = 1, m_write_index = 3, m_size = 6, m_buffer = ''xyzuvw''\<rparr> 2 = Inr b' \<and>
     contents b' = ''yzuv''"
proof -
  let ?b = "\<lparr>m_read_index = 1, m_write_index = 3, m_size = 6, m_buffer = ''xyzuvw''\<rparr>"
  have "buf_inv ?b" by (simp add: buf_inv_def)
  from move_indices [OF this, of 2 1] obtain b' where "moveWriteIndex ?b 2 = Inr b'"
    "contents b' = (if 2 < writeAble ?b then contents ?b @ take (nat 2) (drop (nat 3) ''xyzuvw'')
       else contents ?b)"
    by (auto simp: readAble_def)
  then show ?thesis
    by (intro exI [of _ b']) (simp add: writeAble_def contents_def readAble_def wrap32_def numeral_eq_Suc)
qed

end
