(* ===== verification/TinyPB_Coder.thy ===== *)
theory TinyPB_Coder
  imports Tcp_Buffer
begin

text \<open>
  \<open>net/coder/tinypb_protocol.{h,cc}\<close> and \<open>net/coder/tinypb_coder.cc\<close>: the wire format of an RPC
  message, its encoder and its decoder.  The encoder appends packets to a \<open>TcpBuffer\<close>; the
  decoder scans the readable bytes for a start byte whose length field leads to an end byte,
  cuts the packet out and parses it.  The decoder is the \<open>while(1)\<close> loop of the source, a
  \<open>partial_function\<close>: \<open>None\<close> is a call that never returns.
\<close>

section \<open>The message\<close>

record tinypb =
  m_msg_id :: string
  m_pk_len :: int
  m_msg_id_len :: int
  m_method_name_len :: int
  m_method_name :: string
  m_err_code :: int
  m_err_info_len :: int
  m_err_info :: string
  m_pb_data :: string
  m_check_sum :: int
  parse_success :: bool

definition PB_START :: char where "PB_START = CHR 0x02"

definition PB_END :: char where "PB_END = CHR 0x03"

definition tinypb_new :: tinypb where
  "tinypb_new = \<lparr>m_msg_id = [], m_pk_len = 0, m_msg_id_len = 0, m_method_name_len = 0,
     m_method_name = [], m_err_code = 0, m_err_info_len = 0, m_err_info = [], m_pb_data = [],
     m_check_sum = 0, parse_success = False\<rparr>"

section \<open>Encoding\<close>

definition encodeTinyPB :: "tinypb \<Rightarrow> (tinypb \<times> char list) res" where
  \<comment> \<open>the message with its length fields set, and the \<open>malloc\<close>ed bytes\<close>
  "encodeTinyPB message =
     (let message = (if m_msg_id message = [] then message\<lparr>m_msg_id := ''123456789''\<rparr> else message);
          pk_len = wrap32 (2 + 24 + int (length (m_msg_id message)) + int (length (m_method_name message))
                     + int (length (m_err_info message)) + int (length (m_pb_data message)));
          msg_id_len = wrap32 (int (length (m_msg_id message)));
          method_name_len = wrap32 (int (length (m_method_name message)));
          err_info_len = wrap32 (int (length (m_err_info message)));
          buf = [PB_START] @ htonl_bytes pk_len
                @ htonl_bytes msg_id_len @ m_msg_id message
                @ htonl_bytes method_name_len @ m_method_name message
                @ htonl_bytes (m_err_code message)
                @ htonl_bytes err_info_len @ m_err_info message
                @ m_pb_data message
                @ htonl_bytes 1 @ [PB_END]
      in if pk_len < 0 then Inl Null_Deref \<comment> \<open>\<open>malloc\<close> of a huge size returns NULL\<close>
         else if pk_len < int (length buf) then Inl Out_Of_Bounds
         else Inr (message\<lparr>m_pk_len := pk_len, m_msg_id_len := msg_id_len,
                     m_method_name_len := method_name_len, m_err_info_len := err_info_len,
                     parse_success := True\<rparr>, buf))"

fun TinyPBCoder_encode :: "tinypb list \<Rightarrow> tcp_buffer \<Rightarrow> (tinypb list \<times> tcp_buffer) res" where
  \<comment> \<open>the messages are shared pointers: the updated ones are returned too\<close>
  "TinyPBCoder_encode [] out_buffer = Inr ([], out_buffer)"
| "TinyPBCoder_encode (i # messages) out_buffer =
     bind_res (encodeTinyPB i) (\<lambda>(msg, buf).
     bind_res (if length buf \<noteq> 0 then writeToBuffer out_buffer buf (int (length buf))
               else Inr out_buffer) (\<lambda>out_buffer.
     bind_res (TinyPBCoder_encode messages out_buffer) (\<lambda>(msgs, out_buffer).
     Inr (msg # msgs, out_buffer))))"

section \<open>Decoding\<close>

text \<open>
  The \<open>for\<close> loop: the first start byte whose length field points at an end byte below the
  write index, as (start index, end index, \<open>pk_len\<close>).
\<close>

function decode_scan :: "char list \<Rightarrow> int \<Rightarrow> int \<Rightarrow> (int \<times> int \<times> int) option res" where
  "decode_scan tmp write_index i =
     (if i < write_index then
        bind_res (at_index tmp i) (\<lambda>c.
          if c = PB_START \<and> i + 1 < write_index then
            bind_res (getInt32FromNetByte tmp (i + 1)) (\<lambda>pk_len.
            bind_res (chk32 (i + pk_len)) (\<lambda>n.
            bind_res (chk32 (n - 1)) (\<lambda>j.
              if j \<ge> write_index then decode_scan tmp write_index (i + 1)
              else bind_res (at_index tmp j) (\<lambda>d.
                if d = PB_END then Inr (Some (i, j, pk_len))
                else decode_scan tmp write_index (i + 1)))))
          else decode_scan tmp write_index (i + 1))
      else Inr None)"
  by pat_completeness auto
termination
  by (relation "measure (\<lambda>(tmp, w, i). nat (w - i))") auto

declare decode_scan.simps [simp del]

text \<open>
  \<open>char a[cap] = {0}; memcpy(a, &tmp[i], len); std::string(a)\<close>: a fault unless the bytes lie in
  \<open>tmp\<close>, fit the array and leave a NUL in it.
\<close>

definition copy_c_string :: "nat \<Rightarrow> char list \<Rightarrow> int \<Rightarrow> int \<Rightarrow> string res" where
  "copy_c_string cap tmp i len =
     bind_res (read_bytes tmp i len) (\<lambda>src.
     bind_res (write_bytes (replicate cap NUL) 0 src) c_string)"

definition std_string_at :: "char list \<Rightarrow> int \<Rightarrow> int \<Rightarrow> string res" where
  \<comment> \<open>\<open>std::string(&tmp[i], n)\<close>: a negative \<open>n\<close> is a huge \<open>size_t\<close>, a length exception\<close>
  "std_string_at tmp i n = (if n < 0 then Inl Length_Error else read_bytes tmp i n)"

text \<open>
  The fields of a packet found at \<open>start_index\<close> to \<open>end_index\<close>.  \<open>None\<close> is a \<open>continue\<close> that drops
  the message.  Every index below is at most the length of \<open>tmp\<close> once the read before it has
  succeeded, so the index sums stay within \<open>int\<close>.
\<close>

definition decode_fields :: "char list \<Rightarrow> int \<Rightarrow> int \<Rightarrow> int \<Rightarrow> tinypb option res" where
  "decode_fields tmp start_index end_index pk_len =
     (let message = tinypb_new\<lparr>m_pk_len := pk_len\<rparr>;
          msg_id_len_index = start_index + 1 + 4 in
      if msg_id_len_index \<ge> end_index then Inr None else
      bind_res (getInt32FromNetByte tmp msg_id_len_index) (\<lambda>msg_id_len.
      let msg_id_index = msg_id_len_index + 4 in
      bind_res (copy_c_string 100 tmp msg_id_index msg_id_len) (\<lambda>msg_id.
      let method_name_len_index = msg_id_index + msg_id_len in
      if method_name_len_index \<ge> end_index then Inr None else
      bind_res (getInt32FromNetByte tmp method_name_len_index) (\<lambda>method_name_len.
      let method_name_index = method_name_len_index + 4 in
      bind_res (copy_c_string 512 tmp method_name_index method_name_len) (\<lambda>method_name.
      let err_code_index = method_name_index + method_name_len in
      if err_code_index \<ge> end_index then Inr None else
      bind_res (getInt32FromNetByte tmp err_code_index) (\<lambda>err_code.
      let error_info_len_index = err_code_index + 4 in
      if error_info_len_index \<ge> end_index then Inr None else
      bind_res (getInt32FromNetByte tmp error_info_len_index) (\<lambda>err_info_len.
      let err_info_index = error_info_len_index + 4 in
      bind_res (copy_c_string 512 tmp err_info_index err_info_len) (\<lambda>err_info.
      let pb_data_len = pk_len - method_name_len - msg_id_len - err_info_len - 2 - 24;
          pd_data_index = err_info_index + err_info_len in
      bind_res (std_string_at tmp pd_data_index pb_data_len) (\<lambda>pb_data.
      Inr (Some (message\<lparr>m_msg_id_len := msg_id_len, m_msg_id := msg_id,
        m_method_name_len := method_name_len, m_method_name := method_name,
        m_err_code := err_code, m_err_info_len := err_info_len, m_err_info := err_info,
        m_pb_data := pb_data, parse_success := True\<rparr>)))))))))))"

text \<open>One turn of the \<open>while(1)\<close> loop; \<open>None\<close> is the \<open>return\<close>.\<close>

definition decode_turn ::
  "tinypb list \<Rightarrow> tcp_buffer \<Rightarrow> (tinypb list \<times> tcp_buffer) option res" where
  "decode_turn out_messages buffer =
     (let tmp = m_buffer buffer in
      bind_res (decode_scan tmp (writeIndex buffer) (readIndex buffer)) (\<lambda>found.
      case found of
        None \<Rightarrow> Inr None
      | Some (start_index, end_index, pk_len) \<Rightarrow>
          bind_res (moveReadIndex buffer (end_index - start_index + 1)) (\<lambda>buffer.
          bind_res (decode_fields tmp start_index end_index pk_len) (\<lambda>message.
          Inr (Some (case message of None \<Rightarrow> out_messages | Some m \<Rightarrow> out_messages @ [m], buffer))))))"

partial_function (option) TinyPBCoder_decode ::
  "tinypb list \<Rightarrow> tcp_buffer \<Rightarrow> (tinypb list \<times> tcp_buffer) res option" where
  "TinyPBCoder_decode out_messages buffer =
     (case decode_turn out_messages buffer of
        Inl e \<Rightarrow> Some (Inl e)
      | Inr None \<Rightarrow> Some (Inr (out_messages, buffer))
      | Inr (Some (out_messages, buffer)) \<Rightarrow> TinyPBCoder_decode out_messages buffer)"

section \<open>The wire format\<close>

text \<open>The abstract view of the coder: the message as it is sent, and its packet.\<close>

definition with_msg_id :: "tinypb \<Rightarrow> tinypb" where
  "with_msg_id m = (if m_msg_id m = [] then m\<lparr>m_msg_id := ''123456789''\<rparr> else m)"

definition packet_length :: "tinypb \<Rightarrow> int" where
  "packet_length m = 26 + int (length (m_msg_id m) + length (m_method_name m)
     + length (m_err_info m) + length (m_pb_data m))"

definition sent :: "tinypb \<Rightarrow> tinypb" where
  "sent m = (with_msg_id m)\<lparr>m_pk_len := packet_length (with_msg_id m),
     m_msg_id_len := int (length (m_msg_id (with_msg_id m))),
     m_method_name_len := int (length (m_method_name m)),
     m_err_info_len := int (length (m_err_info m)), parse_success := True\<rparr>"

definition packet :: "tinypb \<Rightarrow> char list" where
  "packet m = [PB_START] @ htonl_bytes (packet_length m)
     @ htonl_bytes (int (length (m_msg_id m))) @ m_msg_id m
     @ htonl_bytes (int (length (m_method_name m))) @ m_method_name m
     @ htonl_bytes (m_err_code m)
     @ htonl_bytes (int (length (m_err_info m))) @ m_err_info m
     @ m_pb_data m @ htonl_bytes 1 @ [PB_END]"

definition received :: "tinypb \<Rightarrow> tinypb" where
  "received m = (sent m)\<lparr>m_check_sum := 0\<rparr>"

abbreviation wire :: "tinypb \<Rightarrow> char list" where
  "wire m \<equiv> packet (with_msg_id m)"

lemma with_msg_id_simps [simp]:
  "m_method_name (with_msg_id m) = m_method_name m" "m_err_info (with_msg_id m) = m_err_info m"
  "m_pb_data (with_msg_id m) = m_pb_data m" "m_err_code (with_msg_id m) = m_err_code m"
  "m_msg_id (with_msg_id m) \<noteq> []" "with_msg_id (with_msg_id m) = with_msg_id m"
  by (simp_all add: with_msg_id_def)

lemma length_packet: "int (length (packet m)) = packet_length m"
  by (simp add: packet_def packet_length_def)

lemma packet_length_lower: "26 \<le> packet_length m"
  by (simp add: packet_length_def)

lemma packet_length_nonneg [simp]: "0 \<le> packet_length m"
  by (simp add: packet_length_def)

text \<open>The encoder produces exactly this format.\<close>

lemma encodeTinyPB_eq:
  assumes "packet_length (with_msg_id m) \<le> INT_MAX"
  shows "encodeTinyPB m = Inr (sent m, wire m)"
proof -
  define mm where "mm = with_msg_id m"
  have small: "wrap32 (int (length (m_msg_id mm))) = int (length (m_msg_id mm))"
    "wrap32 (int (length (m_method_name mm))) = int (length (m_method_name mm))"
    "wrap32 (int (length (m_err_info mm))) = int (length (m_err_info mm))"
    using assms by (auto simp: mm_def packet_length_def intro!: wrap32_in)
  have total: "wrap32 (2 + 24 + int (length (m_msg_id mm)) + int (length (m_method_name mm))
      + int (length (m_err_info mm)) + int (length (m_pb_data mm))) = packet_length mm"
    using assms by (simp add: mm_def packet_length_def wrap32_in)
  have sent_mm: "sent m = mm\<lparr>m_pk_len := packet_length mm, m_msg_id_len := int (length (m_msg_id mm)),
      m_method_name_len := int (length (m_method_name mm)),
      m_err_info_len := int (length (m_err_info mm)), parse_success := True\<rparr>"
    by (simp add: sent_def mm_def)
  have "\<not> packet_length mm < 0" "\<not> packet_length mm < int (length (packet mm))"
    by (simp_all add: length_packet not_less)
  then show ?thesis
    unfolding encodeTinyPB_def with_msg_id_def [symmetric] mm_def [symmetric] Let_def total small
      sent_mm packet_def [symmetric] by (simp only: if_False)
qed

lemma encode_appends:
  assumes "buf_inv b"
    and "m_write_index b + (\<Sum>m\<leftarrow>ms. packet_length (with_msg_id m)) \<le> WRITE_LIMIT"
  shows "\<exists>b'. TinyPBCoder_encode ms b = Inr (map sent ms, b') \<and> buf_inv b' \<and>
           contents b' = contents b @ concat (map wire ms) \<and>
           m_write_index b' \<le> m_write_index b + (\<Sum>m\<leftarrow>ms. packet_length (with_msg_id m))"
  using assms
proof (induction ms arbitrary: b)
  case (Cons m ms)
  have rest: "0 \<le> (\<Sum>m\<leftarrow>ms. packet_length (with_msg_id m))"
    by (intro sum_list_nonneg) auto
  have len: "int (length (wire m)) = packet_length (with_msg_id m)" by (rule length_packet)
  have w: "0 \<le> m_write_index b" using Cons.prems(1) by (simp add: buf_inv_def)
  have le: "m_write_index b + int (length (wire m)) \<le> WRITE_LIMIT"
    using Cons.prems(2) rest len by simp
  from writeToBuffer_enqueues [OF Cons.prems(1) le] obtain c where
    c: "buf_put b (wire m) = Inr c" "buf_inv c" "contents c = contents b @ wire m"
      "m_write_index c \<le> m_write_index b + int (length (wire m))" by blast
  have "m_write_index c + (\<Sum>m\<leftarrow>ms. packet_length (with_msg_id m)) \<le> WRITE_LIMIT"
    using c(4) Cons.prems(2) len by simp
  from Cons.IH [OF c(2) this] obtain b' where
    b': "TinyPBCoder_encode ms c = Inr (map sent ms, b')" "buf_inv b'"
      "contents b' = contents c @ concat (map wire ms)"
      "m_write_index b' \<le> m_write_index c + (\<Sum>m\<leftarrow>ms. packet_length (with_msg_id m))" by blast
  have "encodeTinyPB m = Inr (sent m, wire m)"
    using le len w by (intro encodeTinyPB_eq) simp
  moreover have "length (wire m) \<noteq> 0" by (simp add: packet_def)
  ultimately show ?case using b' c len by simp
qed simp

section \<open>Parsing a packet back\<close>

definition wf_msg :: "tinypb \<Rightarrow> bool" where
  \<comment> \<open>what the decoder's fixed arrays can hold\<close>
  "wf_msg m \<longleftrightarrow> length (m_msg_id m) < 100 \<and> length (m_method_name m) < 512 \<and>
     length (m_err_info m) < 512 \<and> NUL \<notin> set (m_msg_id m) \<and> NUL \<notin> set (m_method_name m) \<and>
     NUL \<notin> set (m_err_info m) \<and> in_int32 (m_err_code m)"

lemma wf_with_msg_id: "wf_msg m \<Longrightarrow> wf_msg (with_msg_id m)"
  by (auto simp: wf_msg_def with_msg_id_def)

lemma copy_c_string_at:
  assumes "NUL \<notin> set s" and "length s < cap" and "i = int (length xs)" and "n = int (length s)"
  shows "copy_c_string cap (xs @ s @ ys) i n = Inr s"
  using assms c_string_zeros [of s "cap - length s"]
  by (simp add: copy_c_string_def read_bytes_append write_bytes_def)

lemma std_string_at_at:
  "i = int (length xs) \<Longrightarrow> n = int (length s) \<Longrightarrow> std_string_at (xs @ s @ ys) i n = Inr s"
  by (simp add: std_string_at_def read_bytes_append)

text \<open>\<open>body m\<close> is what the packet of \<open>m\<close> parses to.\<close>

definition body :: "tinypb \<Rightarrow> tinypb" where
  "body m = tinypb_new\<lparr>m_pk_len := packet_length m, m_msg_id_len := int (length (m_msg_id m)),
     m_msg_id := m_msg_id m, m_method_name_len := int (length (m_method_name m)),
     m_method_name := m_method_name m, m_err_code := m_err_code m,
     m_err_info_len := int (length (m_err_info m)), m_err_info := m_err_info m,
     m_pb_data := m_pb_data m, parse_success := True\<rparr>"

lemma body_received: "body (with_msg_id m) = received m"
  by (simp add: body_def received_def sent_def tinypb_new_def)

lemma decode_fields_packet:
  assumes "wf_msg m" and "packet_length m \<le> INT_MAX"
  shows "decode_fields (xs @ packet m @ ys) (int (length xs)) (int (length xs) + packet_length m - 1)
           (packet_length m) = Inr (Some (body m))"
proof -
  let ?L = "packet_length m" and ?id = "m_msg_id m" and ?me = "m_method_name m"
    and ?er = "m_err_info m" and ?pb = "m_pb_data m" and ?s = "int (length xs)"
  let ?tmp = "xs @ packet m @ ys" and ?stop = "?s + ?L - 1"
  define p1 where "p1 = xs @ [PB_START] @ htonl_bytes ?L"
  define p2 where "p2 = p1 @ htonl_bytes (int (length ?id))"
  define p3 where "p3 = p2 @ ?id"
  define p4 where "p4 = p3 @ htonl_bytes (int (length ?me))"
  define p5 where "p5 = p4 @ ?me"
  define p6 where "p6 = p5 @ htonl_bytes (m_err_code m)"
  define p7 where "p7 = p6 @ htonl_bytes (int (length ?er))"
  define p8 where "p8 = p7 @ ?er"
  note ps = p1_def p2_def p3_def p4_def p5_def p6_def p7_def p8_def
  define q8 where "q8 = ?pb @ htonl_bytes 1 @ [PB_END] @ ys"
  define q7 where "q7 = ?er @ q8"
  define q6 where "q6 = htonl_bytes (int (length ?er)) @ q7"
  define q5 where "q5 = htonl_bytes (m_err_code m) @ q6"
  define q4 where "q4 = ?me @ q5"
  define q3 where "q3 = htonl_bytes (int (length ?me)) @ q4"
  define q2 where "q2 = ?id @ q3"
  note qs = q2_def q3_def q4_def q5_def q6_def q7_def q8_def
  have tmp: "?tmp = p1 @ htonl_bytes (int (length ?id)) @ q2" "?tmp = p2 @ ?id @ q3"
    "?tmp = p3 @ htonl_bytes (int (length ?me)) @ q4" "?tmp = p4 @ ?me @ q5"
    "?tmp = p5 @ htonl_bytes (m_err_code m) @ q6" "?tmp = p6 @ htonl_bytes (int (length ?er)) @ q7"
    "?tmp = p7 @ ?er @ q8" "?tmp = p8 @ ?pb @ htonl_bytes 1 @ [PB_END] @ ys"
    unfolding packet_def ps qs by simp_all
  have len: "int (length p1) = ?s + 1 + 4" "int (length p2) = int (length p1) + 4"
    "int (length p3) = int (length p2) + int (length ?id)" "int (length p4) = int (length p3) + 4"
    "int (length p5) = int (length p4) + int (length ?me)" "int (length p6) = int (length p5) + 4"
    "int (length p7) = int (length p6) + 4" "int (length p8) = int (length p7) + int (length ?er)"
    unfolding ps by simp_all
  have fin: "?stop = int (length p8) + int (length ?pb) + 4"
    unfolding len packet_length_def by simp
  have small: "in_int32 (int (length ?id))" "in_int32 (int (length ?me))" "in_int32 (int (length ?er))"
    and wf: "NUL \<notin> set ?id" "NUL \<notin> set ?me" "NUL \<notin> set ?er" "length ?id < 100" "length ?me < 512"
      "length ?er < 512" "in_int32 (m_err_code m)"
    using assms(1) by (auto simp: wf_msg_def)
  have reads: "getInt32FromNetByte ?tmp (int (length p1)) = Inr (int (length ?id))"
    "copy_c_string 100 ?tmp (int (length p2)) (int (length ?id)) = Inr ?id"
    "getInt32FromNetByte ?tmp (int (length p3)) = Inr (int (length ?me))"
    "copy_c_string 512 ?tmp (int (length p4)) (int (length ?me)) = Inr ?me"
    "getInt32FromNetByte ?tmp (int (length p5)) = Inr (m_err_code m)"
    "getInt32FromNetByte ?tmp (int (length p6)) = Inr (int (length ?er))"
    "copy_c_string 512 ?tmp (int (length p7)) (int (length ?er)) = Inr ?er"
    "std_string_at ?tmp (int (length p8)) (int (length ?pb)) = Inr ?pb"
    using getInt32_at [OF small(1) refl, of p1 q2] copy_c_string_at [OF wf(1,4) refl refl, of p2 q3]
      getInt32_at [OF small(2) refl, of p3 q4] copy_c_string_at [OF wf(2,5) refl refl, of p4 q5]
      getInt32_at [OF wf(7) refl, of p5 q6] getInt32_at [OF small(3) refl, of p6 q7]
      copy_c_string_at [OF wf(3,6) refl refl, of p7 q8]
      std_string_at_at [OF refl refl, of p8 ?pb "htonl_bytes 1 @ [PB_END] @ ys"]
    by (simp_all only: tmp [symmetric])
  have more: "\<not> int (length p1) \<ge> ?stop" "\<not> int (length p3) \<ge> ?stop" "\<not> int (length p5) \<ge> ?stop"
    "\<not> int (length p6) \<ge> ?stop"
    unfolding fin len by simp_all
  have pb: "?L - int (length ?me) - int (length ?id) - int (length ?er) - 2 - 24 = int (length ?pb)"
    by (simp add: packet_length_def)
  show ?thesis
    unfolding decode_fields_def Let_def
    by (simp only: reads more if_False bind_res_simps len [symmetric] pb body_def)
qed

text \<open>The scan stops at once at a packet that begins at the read index.\<close>

lemma decode_scan_packet:
  assumes "packet_length m \<le> INT_MAX" and "int (length xs) + packet_length m \<le> w"
    and "w \<le> int (length (xs @ packet m @ ys))" and "w \<le> INT_MAX"
  shows "decode_scan (xs @ packet m @ ys) w (int (length xs)) =
           Inr (Some (int (length xs), int (length xs) + packet_length m - 1, packet_length m))"
proof -
  let ?L = "packet_length m" and ?s = "int (length xs)" and ?tmp = "xs @ packet m @ ys"
  define rest where "rest = drop 5 (packet m)"
  have L: "26 \<le> ?L" by (rule packet_length_lower)
  have tmp: "?tmp = (xs @ [PB_START]) @ htonl_bytes ?L @ rest @ ys"
    by (simp add: packet_def rest_def htonl_bytes_def Let_def)
  have start: "at_index ?tmp ?s = Inr PB_START"
    unfolding packet_def append_Cons append_Nil by (rule at_index_append) simp
  have size: "getInt32FromNetByte ?tmp (?s + 1) = Inr ?L"
    unfolding tmp by (rule getInt32_at) (use assms(1) L in \<open>simp_all add: in_int32_def\<close>)
  have last: "packet m = butlast (packet m) @ [PB_END]"
    by (simp add: packet_def butlast_append)
  then have "?s + ?L - 1 = int (length (xs @ butlast (packet m)))"
    using length_packet [of m] L by (simp add: of_nat_diff)
  then have "at_index ((xs @ butlast (packet m)) @ PB_END # ys) (?s + ?L - 1) = Inr PB_END"
    by (rule at_index_append)
  also have "(xs @ butlast (packet m)) @ PB_END # ys = ?tmp"
    by (subst (2) last) simp
  finally have fin: "at_index ?tmp (?s + ?L - 1) = Inr PB_END" .
  show ?thesis
    unfolding decode_scan.simps [of ?tmp w ?s] using L assms start size fin
    by (simp add: in_int32_def)
qed

section \<open>The decoder's loop\<close>

lemma scan_at_packet:
  assumes "buf_inv b" and "contents b = packet m @ rest"
  obtains pre post where "m_buffer b = pre @ packet m @ rest @ post" and "m_read_index b = int (length pre)"
    and "m_write_index b = int (length pre + length (packet m @ rest))" and "packet_length m \<le> INT_MAX"
    and "decode_scan (m_buffer b) (writeIndex b) (readIndex b) =
           Inr (Some (int (length pre), int (length pre) + packet_length m - 1, packet_length m))"
proof -
  obtain pre post where sh: "buf_shape b pre (packet m @ rest) post"
    and len: "int (length pre + length (packet m @ rest) + length post) \<le> INT_MAX"
    using buf_inv_shape [OF assms(1)] unfolding assms(2) .
  have buf: "m_buffer b = pre @ packet m @ rest @ post" and r: "m_read_index b = int (length pre)"
    and w: "m_write_index b = int (length pre + length (packet m @ rest))"
    using sh by (simp_all add: buf_shape_def)
  have L: "packet_length m \<le> INT_MAX" using len length_packet [of m] by simp
  have "decode_scan (m_buffer b) (writeIndex b) (readIndex b) =
      Inr (Some (int (length pre), int (length pre) + packet_length m - 1, packet_length m))"
    unfolding writeIndex_def readIndex_def r w buf using L len length_packet [of m]
    by (intro decode_scan_packet) simp_all
  with buf r w L show thesis by (rule that)
qed

lemma decode_turn_at_packet:
  assumes "buf_inv b" and "contents b = packet m @ rest" and "wf_msg m"
  shows "decode_turn out b =
           bind_res (moveReadIndex b (packet_length m)) (\<lambda>c. Inr (Some (out @ [body m], c)))"
proof -
  obtain pre post where b: "m_buffer b = pre @ packet m @ rest @ post" "packet_length m \<le> INT_MAX"
    and scan: "decode_scan (m_buffer b) (writeIndex b) (readIndex b) =
      Inr (Some (int (length pre), int (length pre) + packet_length m - 1, packet_length m))"
    using scan_at_packet [OF assms(1,2)] by blast
  have "decode_fields (m_buffer b) (int (length pre)) (int (length pre) + packet_length m - 1) (packet_length m) =
      Inr (Some (body m))"
    unfolding b(1) using decode_fields_packet [OF assms(3) b(2), of pre "rest @ post"] by simp
  then show ?thesis unfolding decode_turn_def Let_def scan by simp
qed

lemma packet_readable:
  assumes "buf_inv b" and "contents b = packet m @ rest"
  shows "packet_length m \<le> readAble b"
  using length_contents [OF assms(1)] length_packet [of m] by (simp add: assms(2))

lemma decode_turn_packet:
  assumes "buf_inv b" and "contents b = packet m @ rest" and "wf_msg m"
    and "m_write_index b < int (length (m_buffer b))"
  shows "\<exists>b'. decode_turn out b = Inr (Some (out @ [body m], b')) \<and> buf_inv b' \<and> contents b' = rest \<and>
           length (m_buffer b') = length (m_buffer b) \<and> m_write_index b' < int (length (m_buffer b'))"
proof -
  let ?L = "packet_length m"
  have "?L \<le> readAble b" using packet_readable [OF assms(1,2)] .
  moreover from this have "m_read_index b + ?L < int (length (m_buffer b))"
    using assms(4) by (simp add: readAble_def)
  ultimately obtain b' where b': "moveReadIndex b ?L = Inr b'" "buf_inv b'"
    "contents b' = drop (nat ?L) (contents b)" "length (m_buffer b') = length (m_buffer b)"
    "m_write_index b' \<le> m_write_index b"
    using moveReadIndex_dequeues [OF assms(1) packet_length_nonneg] by blast
  have "contents b' = rest" unfolding b'(3) assms(2) length_packet [symmetric] by simp
  with b' assms(4) show ?thesis by (simp add: decode_turn_at_packet [OF assms(1-3)])
qed

text \<open>A packet that ends at the end of the buffer is parsed but not consumed.\<close>

lemma decode_turn_refused:
  assumes "buf_inv b" and "contents b = packet m" and "wf_msg m"
    and "m_write_index b = int (length (m_buffer b))"
  shows "decode_turn out b = Inr (Some (out @ [body m], b))"
proof -
  have c: "contents b = packet m @ []" using assms(2) by simp
  have "readAble b = packet_length m"
    using length_contents [OF assms(1)] assms(2) length_packet [of m] by simp
  then have "m_read_index b + packet_length m = int (length (m_buffer b))"
    using assms(4) by (simp add: readAble_def)
  then have "moveReadIndex b (packet_length m) = Inr b"
    using assms(1) by (simp add: moveReadIndex_def buf_inv_def to_size_in in_int32_def)
  then show ?thesis by (simp add: decode_turn_at_packet [OF assms(1) c assms(3)])
qed

text \<open>
  An incomplete packet at the end of the readable bytes: bytes without a start byte, or a start
  byte with its whole length field, which says that more bytes are to come.
\<close>

definition incomplete :: "char list \<Rightarrow> bool" where
  "incomplete t \<longleftrightarrow> PB_START \<notin> set (tl t) \<and>
     (t \<noteq> [] \<and> hd t = PB_START \<longrightarrow> 5 \<le> length t \<and> int (length t) < ntohl_bytes (take 4 (tl t)))"

definition announced :: "char list \<Rightarrow> int" where
  \<comment> \<open>the length the incomplete packet announces\<close>
  "announced t = (if t \<noteq> [] \<and> hd t = PB_START then ntohl_bytes (take 4 (tl t)) else 0)"

lemma decode_scan_no_start:
  assumes "PB_START \<notin> set t" and "i = int (length xs)" and "w = int (length xs + length t)"
  shows "decode_scan (xs @ t @ ys) w i = Inr None"
  using assms
proof (induction t arbitrary: xs i)
  case Nil
  then show ?case by (subst decode_scan.simps) simp
next
  case (Cons c t)
  have c: "at_index (xs @ (c # t) @ ys) i = Inr c"
    using Cons.prems(2) by (simp add: at_index_append)
  have "decode_scan ((xs @ [c]) @ t @ ys) w (i + 1) = Inr None"
    using Cons.prems by (intro Cons.IH) simp_all
  then show ?case
    using Cons.prems c by (subst decode_scan.simps) (auto simp: at_index_append)
qed

lemma decode_scan_incomplete:
  assumes "incomplete t" and "int (length xs) + announced t \<le> INT_MAX"
    and "i = int (length xs)" and "w = int (length xs + length t)"
  shows "decode_scan (xs @ t @ ys) w i = Inr None"
proof (cases "t \<noteq> [] \<and> hd t = PB_START")
  case False
  then have "PB_START \<notin> set t"
    using assms(1) by (cases t) (auto simp: incomplete_def)
  with assms(3,4) show ?thesis by (intro decode_scan_no_start)
next
  case True
  then obtain t' where t: "t = PB_START # t'" by (cases t) auto
  let ?n = "ntohl_bytes (take 4 t')"
  have n: "5 \<le> length t" "int (length t) < ?n" "PB_START \<notin> set t'"
    using assms(1) t by (simp_all add: incomplete_def)
  have c: "at_index (xs @ t @ ys) i = Inr PB_START"
    using assms(3) by (simp add: t at_index_append)
  have "read_bytes (xs @ t @ ys) (i + 1) 4 = Inr (take 4 t')"
    using assms(3) n(1) by (simp add: t read_bytes_def nat_add_distrib)
  then have size: "getInt32FromNetByte (xs @ t @ ys) (i + 1) = Inr ?n"
    by (simp add: getInt32FromNetByte_def)
  have "decode_scan ((xs @ [PB_START]) @ t' @ ys) w (i + 1) = Inr None"
    using assms(3,4) n(3) t by (intro decode_scan_no_start) simp_all
  then have next_turn: "decode_scan (xs @ t @ ys) w (i + 1) = Inr None"
    by (simp add: t)
  have range: "in_int32 (i + ?n)" "in_int32 (i + ?n - 1)" "i < w" "i + 1 < w" "w \<le> i + ?n - 1"
    using assms(2,3,4) n t by (auto simp: announced_def in_int32_def)
  show ?thesis
    using c size range next_turn by (subst decode_scan.simps) simp
qed

lemma decode_turn_incomplete:
  assumes "buf_inv b" and "incomplete (contents b)"
    and "m_read_index b + announced (contents b) \<le> INT_MAX"
  shows "decode_turn out b = Inr None"
proof -
  obtain pre post where sh: "buf_shape b pre (contents b) post"
    using buf_inv_shape [OF assms(1)] .
  have buf: "m_buffer b = pre @ contents b @ post" and r: "m_read_index b = int (length pre)"
    and w: "m_write_index b = int (length pre + length (contents b))"
    using sh unfolding buf_shape_def by blast+
  have "decode_scan (pre @ contents b @ post) (m_write_index b) (m_read_index b) = Inr None"
    using assms(2,3) r w by (intro decode_scan_incomplete) simp_all
  then have "decode_scan (m_buffer b) (writeIndex b) (readIndex b) = Inr None"
    unfolding writeIndex_def readIndex_def by (simp only: buf)
  then show ?thesis by (simp add: decode_turn_def)
qed

lemma decode_packets:
  assumes "buf_inv b" and "contents b = concat (map packet ms) @ tail" and "\<forall>m \<in> set ms. wf_msg m"
    and "m_write_index b < int (length (m_buffer b))" and "incomplete tail"
    and "int (length (m_buffer b)) + announced tail \<le> INT_MAX"
  shows "\<exists>b'. TinyPBCoder_decode out b = Some (Inr (out @ map body ms, b')) \<and> buf_inv b' \<and>
           contents b' = tail \<and> m_write_index b' < int (length (m_buffer b')) \<and>
           length (m_buffer b') = length (m_buffer b)"
  using assms
proof (induction ms arbitrary: out b)
  case Nil
  then have "m_read_index b + announced tail \<le> INT_MAX" by (simp add: buf_inv_def)
  with Nil have "decode_turn out b = Inr None" by (intro decode_turn_incomplete) simp_all
  with Nil show ?case by (subst TinyPBCoder_decode.simps) simp
next
  case (Cons m ms)
  obtain c where c: "decode_turn out b = Inr (Some (out @ [body m], c))" "buf_inv c"
    "contents c = concat (map packet ms) @ tail" "length (m_buffer c) = length (m_buffer b)"
    "m_write_index c < int (length (m_buffer c))"
    using decode_turn_packet [OF Cons.prems(1) _ _ Cons.prems(4), of m "concat (map packet ms) @ tail" out]
      Cons.prems(2,3) by auto
  from Cons.IH [OF c(2,3) _ c(5) Cons.prems(5), of "out @ [body m]"] Cons.prems(3,6) c(4)
  show ?case by (subst TinyPBCoder_decode.simps) (auto simp: c(1))
qed

section \<open>What any input can do\<close>

lemma copy_c_string_Inr:
  "copy_c_string cap tmp i len = Inr s \<Longrightarrow> NUL \<notin> set s \<and> length s < cap"
proof -
  assume "copy_c_string cap tmp i len = Inr s"
  then obtain arr where arr: "write_bytes (replicate cap NUL) 0 (take (nat len) (drop (nat i) tmp)) = Inr arr"
    and s: "c_string arr = Inr s"
    by (auto simp: copy_c_string_def bind_res_eq_Inr read_bytes_Inr)
  from arr have "length arr = cap"
    by (auto simp: write_bytes_def split: if_splits)
  moreover from s have "NUL \<in> set arr" "s = takeWhile (\<lambda>c. c \<noteq> NUL) arr"
    by (auto simp: c_string_def split: if_splits)
  moreover from this(1) have "length (takeWhile (\<lambda>c. c \<noteq> NUL) arr) < length arr"
    by (intro length_takeWhile_found) auto
  ultimately show "NUL \<notin> set s \<and> length s < cap"
    by (auto dest: set_takeWhileD)
qed

text \<open>A message the decoder hands out, whatever bytes arrived.\<close>

definition parsed_msg :: "tinypb \<Rightarrow> bool" where
  "parsed_msg m \<longleftrightarrow> wf_msg m \<and> parse_success m \<and> int (length (m_pb_data m)) =
     m_pk_len m - m_method_name_len m - m_msg_id_len m - m_err_info_len m - 26"

lemma std_string_at_Inr: "std_string_at tmp i n = Inr s \<Longrightarrow> int (length s) = n"
  by (auto simp: std_string_at_def read_bytes_def split: if_splits)

lemma decode_fields_parsed:
  assumes "decode_fields tmp s e n = Inr (Some m)"
  shows "parsed_msg m"
proof -
  from assms obtain il id ml me ec el er pb where
    "copy_c_string 100 tmp (s + 1 + 4 + 4) il = Inr id" and
    "copy_c_string 512 tmp (s + 1 + 4 + 4 + il + 4) ml = Inr me" and
    "getInt32FromNetByte tmp (s + 1 + 4 + 4 + il + 4 + ml) = Inr ec" and
    "copy_c_string 512 tmp (s + 1 + 4 + 4 + il + 4 + ml + 4 + 4) el = Inr er" and
    "std_string_at tmp (s + 1 + 4 + 4 + il + 4 + ml + 4 + 4 + el) (n - ml - il - el - 2 - 24) = Inr pb" and
    m: "m = tinypb_new\<lparr>m_pk_len := n, m_msg_id_len := il, m_msg_id := id,
        m_method_name_len := ml, m_method_name := me, m_err_code := ec, m_err_info_len := el,
        m_err_info := er, m_pb_data := pb, parse_success := True\<rparr>"
    unfolding decode_fields_def Let_def bind_res_eq_Inr by (auto split: if_splits simp: bind_res_eq_Inr)
  then show ?thesis
    by (auto simp: parsed_msg_def wf_msg_def dest: copy_c_string_Inr getInt32_range std_string_at_Inr)
qed

lemma decode_turn_parsed:
  assumes "decode_turn out b = Inr (Some (out', b'))"
  shows "\<exists>ms. out' = out @ ms \<and> (\<forall>m \<in> set ms. parsed_msg m)"
  using assms
  by (auto simp: decode_turn_def Let_def bind_res_eq_Inr decode_fields_parsed
      split: option.splits prod.splits)

text \<open>Encoder and decoder keep the buffers well-formed, whatever the messages and the bytes.\<close>

lemma encode_keeps [keeps]: "TinyPBCoder_encode ms b = Inr (ms', b') \<Longrightarrow> buf_of n b \<Longrightarrow> buf_of n b'"
proof (induction ms arbitrary: b ms')
  case (Cons m ms)
  then show ?case
    by (auto simp: bind_res_eq_Inr split: if_splits intro: writeToBuffer_keeps)
qed simp

lemma decode_scan_found:
  "decode_scan tmp w i = Inr (Some (s, e, n)) \<Longrightarrow> i \<le> s \<and> e < w \<and> e = s + n - 1"
proof (induction "nat (w - i)" arbitrary: i rule: less_induct)
  case less
  have next_turn: "i \<le> s \<and> e < w \<and> e = s + n - 1"
    if "i < w" "decode_scan tmp w (i + 1) = Inr (Some (s, e, n))"
    using less.hyps [of "i + 1"] that by auto
  from less.prems show ?case
    using next_turn by (subst (asm) decode_scan.simps) (auto simp: bind_res_eq_Inr split: if_splits)
qed

lemma decode_turn_keeps:
  assumes "decode_turn out b = Inr (Some (out', b'))" and "buf_of n b"
  shows "buf_of n b'"
proof -
  obtain s e k where "decode_scan (m_buffer b) (writeIndex b) (readIndex b) = Inr (Some (s, e, k))"
    and move: "moveReadIndex b (e - s + 1) = Inr b'"
    using assms(1) by (auto simp: decode_turn_def Let_def bind_res_eq_Inr split: option.splits prod.splits)
  then have "e - s + 1 \<le> readAble b"
    using decode_scan_found [of "m_buffer b" "writeIndex b" "readIndex b" s e k]
    by (simp add: readAble_def readIndex_def writeIndex_def)
  with move assms(2) show ?thesis by (rule moveReadIndex_keeps)
qed

lemma decode_keeps [keeps]:
  assumes "TinyPBCoder_decode out b = Some (Inr (out', b'))" and "buf_of n b"
  shows "buf_of n b'"
proof -
  have "\<forall>out' b'. r = Inr (out', b') \<longrightarrow> buf_of n b \<longrightarrow> buf_of n b'"
    if "TinyPBCoder_decode out b = Some r" for r
  proof (rule TinyPBCoder_decode.raw_induct [where P = "\<lambda>out b r. \<forall>out' b'. r = Inr (out', b') \<longrightarrow>
        buf_of n b \<longrightarrow> buf_of n b'", OF _ that])
    fix dec out b r
    assume IH: "\<And>out b r. dec out b = Some r \<Longrightarrow>
        \<forall>out' b'. r = Inr (out', b') \<longrightarrow> buf_of n b \<longrightarrow> buf_of n b'"
      and eq: "(case decode_turn out b of Inl e \<Rightarrow> Some (Inl e) | Inr None \<Rightarrow> Some (Inr (out, b))
         | Inr (Some (out, b)) \<Rightarrow> dec out b) = Some r"
    show "\<forall>out' b'. r = Inr (out', b') \<longrightarrow> buf_of n b \<longrightarrow> buf_of n b'"
    proof (cases "decode_turn out b")
      case (Inr found)
      show ?thesis
      proof (cases found)
        case (Some ob)
        obtain o1 b1 where "ob = (o1, b1)" by (cases ob)
        with Inr Some IH [of o1 b1 r] eq decode_turn_keeps [of out b o1 b1] show ?thesis by auto
      qed (use eq Inr in auto)
    qed (use eq in auto)
  qed
  with assms show ?thesis by blast
qed

text \<open>A message whose id does not fit the 100-byte array of the decoder.\<close>

lemma decode_fields_long_id:
  assumes "100 \<le> length (m_msg_id m)" and "NUL \<notin> set (m_msg_id m)" and "packet_length m \<le> INT_MAX"
  shows "decode_fields (xs @ packet m @ ys) (int (length xs)) (int (length xs) + packet_length m - 1)
           (packet_length m) = Inl Out_Of_Bounds"
proof -
  let ?tmp = "xs @ packet m @ ys" and ?s = "int (length xs)" and ?L = "packet_length m"
  define p1 where "p1 = xs @ [PB_START] @ htonl_bytes ?L"
  define q1 where "q1 = htonl_bytes (int (length (m_method_name m))) @ m_method_name m
    @ htonl_bytes (m_err_code m) @ htonl_bytes (int (length (m_err_info m))) @ m_err_info m
    @ m_pb_data m @ htonl_bytes 1 @ [PB_END] @ ys"
  have tmp: "?tmp = p1 @ htonl_bytes (int (length (m_msg_id m))) @ m_msg_id m @ q1"
    by (simp add: packet_def p1_def q1_def)
  have p1: "int (length p1) = ?s + 1 + 4" by (simp add: p1_def)
  have il: "in_int32 (int (length (m_msg_id m)))"
    using assms(3) by (simp add: packet_length_def in_int32_def)
  have more: "\<not> ?s + ?L - 1 \<le> ?s + 1 + 4" using packet_length_lower [of m] by simp
  have id_len: "getInt32FromNetByte ?tmp (?s + 1 + 4) = Inr (int (length (m_msg_id m)))"
    unfolding tmp by (rule getInt32_at [OF il p1 [symmetric]])
  have "read_bytes ((p1 @ htonl_bytes (int (length (m_msg_id m)))) @ m_msg_id m @ q1)
          (int (length (p1 @ htonl_bytes (int (length (m_msg_id m)))))) (int (length (m_msg_id m)))
        = Inr (m_msg_id m)" by (rule read_bytes_append)
  then have copy: "read_bytes ?tmp (?s + 1 + 4 + 4) (int (length (m_msg_id m))) = Inr (m_msg_id m)"
    by (simp add: tmp p1 algebra_simps)
  have "copy_c_string 100 ?tmp (?s + 1 + 4 + 4) (int (length (m_msg_id m))) = Inl Out_Of_Bounds"
  proof (cases "length (m_msg_id m) = 100")
    case True
    with copy assms(2) show ?thesis
      by (simp add: copy_c_string_def write_bytes_def c_string_def)
  next
    case False
    with copy assms(1) show ?thesis by (simp add: copy_c_string_def write_bytes_def)
  qed
  with id_len more show ?thesis
    unfolding decode_fields_def Let_def by (simp only: if_False bind_res_simps)
qed

section \<open>Properties of the coder\<close>

text \<open>C3. Encoding appends one packet per message to the readable bytes, in order, and reports
  every message with its length fields filled in, an empty message id replaced by the default,
  and \<open>parse_success\<close> set.\<close>

theorem encode_spec:
  assumes "buf_inv b"
    and "m_write_index b + (\<Sum>m\<leftarrow>ms. packet_length (with_msg_id m)) \<le> WRITE_LIMIT"
  shows "\<exists>b'. TinyPBCoder_encode ms b = Inr (map sent ms, b') \<and> buf_inv b' \<and>
           contents b' = contents b @ concat (map (\<lambda>m. packet (with_msg_id m)) ms)"
  using encode_appends [OF assms] by blast

theorem encode_spec_witness:
  "\<exists>b b'. tcp_buffer_init 8 = Inr b \<and>
     TinyPBCoder_encode [tinypb_new\<lparr>m_pb_data := ''x''\<rparr>] b = Inr ([sent (tinypb_new\<lparr>m_pb_data := ''x''\<rparr>)], b') \<and>
     length (contents b') = 36"
proof -
  obtain b where b: "tcp_buffer_init 8 = Inr b" "buf_shape b [] [] (replicate (nat 8) NUL)"
    using init_shape [of 8] by auto
  let ?m = "tinypb_new\<lparr>m_pb_data := ''x''\<rparr>"
  have inv: "buf_inv b" "m_write_index b = 0" "contents b = []"
    using b(2) shape_contents [OF b(2)] by (auto simp: buf_shape_def buf_inv_def)
  have len: "packet_length (with_msg_id ?m) = 36"
    by (simp add: packet_length_def with_msg_id_def tinypb_new_def)
  obtain b' where "TinyPBCoder_encode [?m] b = Inr (map sent [?m], b')"
    "contents b' = contents b @ concat (map (\<lambda>m. packet (with_msg_id m)) [?m])"
    using encode_spec [OF inv(1), of "[?m]"] len inv(2) by auto
  with b(1) inv(3) len length_packet [of "with_msg_id ?m"] show ?thesis by simp
qed

text \<open>C4. Round trip: when the bytes that encoding put into the sender's buffer arrive in a
  receive buffer with at least one free byte, followed by an incomplete packet, the decoder
  returns, hands out exactly the messages as sent (their check sum aside, which is not parsed),
  in order, and leaves the incomplete packet in the buffer.\<close>

theorem tinypb_roundtrip:
  assumes "buf_inv src" and "contents src = []" and "\<forall>m \<in> set ms. wf_msg m"
    and "m_write_index src + (\<Sum>m\<leftarrow>ms. packet_length (with_msg_id m)) \<le> WRITE_LIMIT"
    and "buf_inv dst" and "m_write_index dst < int (length (m_buffer dst))"
    and "incomplete tail" and "int (length (m_buffer dst)) + announced tail \<le> INT_MAX"
  shows "\<exists>src'. TinyPBCoder_encode ms src = Inr (map sent ms, src') \<and>
           (contents dst = contents src' @ tail \<longrightarrow>
             (\<exists>dst'. TinyPBCoder_decode out dst =
                 Some (Inr (out @ map (\<lambda>m. (sent m)\<lparr>m_check_sum := 0\<rparr>) ms, dst')) \<and>
               buf_inv dst' \<and> contents dst' = tail))"
proof -
  obtain src' where src': "TinyPBCoder_encode ms src = Inr (map sent ms, src')"
    "contents src' = concat (map packet (map with_msg_id ms))"
    using encode_appends [OF assms(1,4)] assms(2) by (fastforce simp: comp_def)
  have wf: "\<forall>m \<in> set (map with_msg_id ms). wf_msg m" using assms(3) wf_with_msg_id by auto
  have "map body (map with_msg_id ms) = map (\<lambda>m. (sent m)\<lparr>m_check_sum := 0\<rparr>) ms"
    by (simp add: body_received received_def)
  with decode_packets [OF assms(5) _ wf assms(6,7,8), of out] src' show ?thesis by auto
qed

theorem tinypb_roundtrip_witness:
  "\<exists>src'. TinyPBCoder_encode [tinypb_new]
       \<lparr>m_read_index = 0, m_write_index = 0, m_size = 0, m_buffer = []\<rparr> = Inr ([sent tinypb_new], src') \<and>
     (contents \<lparr>m_read_index = 0, m_write_index = 35, m_size = 40,
        m_buffer = packet (with_msg_id tinypb_new) @ ''zzzzz''\<rparr> = contents src' @ [] \<longrightarrow>
      (\<exists>dst'. TinyPBCoder_decode [] \<lparr>m_read_index = 0, m_write_index = 35, m_size = 40,
          m_buffer = packet (with_msg_id tinypb_new) @ ''zzzzz''\<rparr> =
            Some (Inr ([(sent tinypb_new)\<lparr>m_check_sum := 0\<rparr>], dst')) \<and> contents dst' = []))"
proof -
  let ?src = "\<lparr>m_read_index = 0, m_write_index = 0, m_size = 0, m_buffer = []\<rparr>"
  let ?p = "packet (with_msg_id tinypb_new)"
  let ?dst = "\<lparr>m_read_index = 0, m_write_index = 35, m_size = 40, m_buffer = ?p @ ''zzzzz''\<rparr>"
  have len: "packet_length (with_msg_id tinypb_new) = 35"
    by (simp add: packet_length_def with_msg_id_def tinypb_new_def)
  then have "length ?p = 35" using length_packet [of "with_msg_id tinypb_new"] by simp
  moreover have "wf_msg tinypb_new" by (simp add: wf_msg_def tinypb_new_def in_int32_def)
  ultimately show ?thesis
    using tinypb_roundtrip [of ?src "[tinypb_new]" ?dst "[]" "[]"] len
    by (auto simp: buf_inv_def contents_def readAble_def incomplete_def announced_def)
qed

text \<open>C5. Whatever bytes are in the buffer, a decoder that returns has only appended messages
  to its output, each of them marked as parsed, with an id of at most 99 bytes, a method name and
  an error text of at most 511 bytes, no NUL in any of them, a 32-bit error code, and payload and
  length fields that add up to the packet length.\<close>

theorem decode_output_parsed:
  assumes "TinyPBCoder_decode out b = Some (Inr (out', b'))"
  shows "\<exists>ms. out' = out @ ms \<and> (\<forall>m \<in> set ms. parsed_msg m)"
proof -
  have "\<forall>out' b'. Inr (out', b') = r \<longrightarrow> (\<exists>ms. out' = out @ ms \<and> (\<forall>m \<in> set ms. parsed_msg m))"
    if "TinyPBCoder_decode out b = Some r" for r
  proof (rule TinyPBCoder_decode.raw_induct [where P = "\<lambda>out b r. \<forall>out' b'. Inr (out', b') = r \<longrightarrow>
        (\<exists>ms. out' = out @ ms \<and> (\<forall>m \<in> set ms. parsed_msg m))", OF _ that])
    fix dec out b r
    assume IH: "\<And>out b r. dec out b = Some r \<Longrightarrow> \<forall>out' b'. Inr (out', b') = r \<longrightarrow>
        (\<exists>ms. out' = out @ ms \<and> (\<forall>m \<in> set ms. parsed_msg m))"
      and eq: "(case decode_turn out b of Inl e \<Rightarrow> Some (Inl e) | Inr None \<Rightarrow> Some (Inr (out, b))
         | Inr (Some (out, b)) \<Rightarrow> dec out b) = Some r"
    show "\<forall>out' b'. Inr (out', b') = r \<longrightarrow> (\<exists>ms. out' = out @ ms \<and> (\<forall>m \<in> set ms. parsed_msg m))"
    proof (cases "decode_turn out b")
      case (Inr t)
      show ?thesis
      proof (cases t)
        case (Some ob)
        obtain o1 b1 where ob: "ob = (o1, b1)" by (cases ob)
        obtain ms1 where "o1 = out @ ms1" "\<forall>m \<in> set ms1. parsed_msg m"
          using decode_turn_parsed Inr Some ob by blast
        with IH [of o1 b1 r] eq Inr Some ob show ?thesis by auto
      qed (use eq Inr in auto)
    qed (use eq in auto)
  qed
  with assms show ?thesis by blast
qed

theorem decode_output_parsed_witness:
  "\<exists>m b'. TinyPBCoder_decode [] \<lparr>m_read_index = 0, m_write_index = 35, m_size = 40,
       m_buffer = wire tinypb_new @ ''zzzzz''\<rparr> = Some (Inr ([m], b')) \<and>
     m_msg_id m = ''123456789'' \<and> parsed_msg m"
proof -
  let ?b = "\<lparr>m_read_index = 0, m_write_index = 35, m_size = 40, m_buffer = wire tinypb_new @ ''zzzzz''\<rparr>"
  have "length (wire tinypb_new) = 35"
    using length_packet [of "with_msg_id tinypb_new"]
    by (simp add: packet_length_def with_msg_id_def tinypb_new_def)
  moreover have "wf_msg (with_msg_id tinypb_new)"
    by (rule wf_with_msg_id) (simp add: wf_msg_def tinypb_new_def in_int32_def)
  ultimately obtain b' where
    b': "TinyPBCoder_decode [] ?b = Some (Inr ([] @ map body [with_msg_id tinypb_new], b'))"
    using decode_packets [of ?b "[with_msg_id tinypb_new]" "[]" "[]"]
    by (auto simp: buf_inv_def contents_def readAble_def incomplete_def announced_def)
  moreover from decode_output_parsed [OF b'] have "parsed_msg (body (with_msg_id tinypb_new))" by simp
  moreover have "m_msg_id (body (with_msg_id tinypb_new)) = ''123456789''"
    by (simp add: body_def with_msg_id_def tinypb_new_def)
  ultimately show ?thesis by auto
qed

text \<open>C6. A packet whose message id has 100 bytes or more, which the encoder sends without
  complaint, makes the decoder write or read outside its \<open>msg_id[100]\<close> array.\<close>

theorem decode_long_id_faults:
  assumes "buf_inv b" and "contents b = packet m @ rest" and "NUL \<notin> set (m_msg_id m)"
    and "100 \<le> length (m_msg_id m)"
  shows "TinyPBCoder_decode out b = Some (Inl Out_Of_Bounds)"
proof -
  obtain pre post where b: "m_buffer b = pre @ packet m @ rest @ post" "packet_length m \<le> INT_MAX"
    and scan: "decode_scan (m_buffer b) (writeIndex b) (readIndex b) =
      Inr (Some (int (length pre), int (length pre) + packet_length m - 1, packet_length m))"
    using scan_at_packet [OF assms(1,2)] by blast
  have fields: "decode_fields (m_buffer b) (int (length pre)) (int (length pre) + packet_length m - 1)
      (packet_length m) = Inl Out_Of_Bounds"
    unfolding b(1) using decode_fields_long_id [OF assms(4,3) b(2), of pre "rest @ post"] by simp
  obtain b' where "moveReadIndex b (packet_length m) = Inr b'"
    using moveReadIndex_returns [OF assms(1) packet_length_nonneg packet_readable [OF assms(1,2)]] by blast
  then have "decode_turn out b = Inl Out_Of_Bounds"
    unfolding decode_turn_def Let_def scan by (simp add: fields)
  then show ?thesis by (subst TinyPBCoder_decode.simps) simp
qed

theorem decode_long_id_faults_witness:
  "\<exists>b. TinyPBCoder_decode [] b = Some (Inl Out_Of_Bounds)"
proof -
  let ?m = "tinypb_new\<lparr>m_msg_id := replicate 100 (CHR ''a'')\<rparr>"
  let ?b = "\<lparr>m_read_index = 0, m_write_index = 126, m_size = 126, m_buffer = packet ?m\<rparr>"
  have "length (packet ?m) = 126"
    using length_packet [of ?m] by (simp add: packet_length_def tinypb_new_def)
  then show ?thesis
    by (intro exI [of _ ?b] decode_long_id_faults [where m = ?m and rest = "[]"])
      (simp_all add: buf_inv_def contents_def readAble_def)
qed

text \<open>Turns that hand out messages but leave the buffer as it is never end.\<close>

lemma decode_stuck:
  assumes "\<And>out. \<exists>out'. decode_turn out b = Inr (Some (out', b))"
  shows "TinyPBCoder_decode out b = None"
proof -
  have "b'' \<noteq> b" if "TinyPBCoder_decode out b'' = Some r" for out b'' r
  proof (rule TinyPBCoder_decode.raw_induct [where P = "\<lambda>out b'' r. b'' \<noteq> b", OF _ that])
    fix dec out b'' r
    assume IH: "\<And>out b'' r. dec out b'' = Some r \<Longrightarrow> b'' \<noteq> b"
      and eq: "(case decode_turn out b'' of Inl e \<Rightarrow> Some (Inl e) | Inr None \<Rightarrow> Some (Inr (out, b''))
         | Inr (Some (out, b)) \<Rightarrow> dec out b) = Some r"
    show "b'' \<noteq> b"
    proof
      assume "b'' = b"
      moreover obtain out' where "decode_turn out b = Inr (Some (out', b))" using assms by blast
      ultimately have "dec out' b = Some r" using eq by simp
      with IH show False by blast
    qed
  qed
  then show ?thesis by (cases "TinyPBCoder_decode out b") auto
qed

text \<open>C7. The decoder does not return when a complete packet reaches exactly the end of the
  buffer: \<open>moveReadIndex\<close> refuses to move to \<open>m_buffer.size()\<close>, so every turn of \<open>while(1)\<close>
  finds the same packet and appends the same message again.\<close>

theorem decode_full_buffer_diverges:
  assumes "buf_inv b" and "contents b = packet m" and "wf_msg m"
    and "m_write_index b = int (length (m_buffer b))"
  shows "TinyPBCoder_decode out b = None"
  by (rule decode_stuck) (use decode_turn_refused [OF assms] in blast)

theorem decode_full_buffer_diverges_witness:
  "\<exists>b. buf_inv b \<and> contents b = packet (with_msg_id tinypb_new) \<and> TinyPBCoder_decode [] b = None"
proof -
  let ?m = "with_msg_id tinypb_new"
  let ?b = "\<lparr>m_read_index = 0, m_write_index = 35, m_size = 35, m_buffer = packet ?m\<rparr>"
  have "length (packet ?m) = 35"
    using length_packet [of ?m] by (simp add: packet_length_def with_msg_id_def tinypb_new_def)
  then have "buf_inv ?b" "contents ?b = packet ?m" "m_write_index ?b = int (length (m_buffer ?b))"
    by (simp_all add: buf_inv_def contents_def readAble_def)
  moreover have "wf_msg ?m" by (simp add: wf_msg_def with_msg_id_def tinypb_new_def in_int32_def)
  ultimately show ?thesis using decode_full_buffer_diverges by blast
qed

text \<open>A start byte whose four length bytes are zero "ends" one byte before it.\<close>

lemma decode_scan_zero_length:
  assumes "tmp = pre @ PB_START # replicate 4 NUL @ post" and "int (length pre) + 1 < w"
    and "w \<le> INT_MAX"
  shows "decode_scan tmp w (int (length pre)) =
           (if pre = [] then Inl Out_Of_Bounds
            else if last pre = PB_END then Inr (Some (int (length pre), int (length pre) - 1, 0))
            else decode_scan tmp w (int (length pre) + 1))"
proof -
  have "replicate 4 NUL = [NUL, NUL, NUL, NUL]" by (simp add: numeral_eq_Suc)
  then have zero: "htonl_bytes 0 = replicate 4 NUL" by (simp add: htonl_bytes_def char_of_def)
  have start: "at_index tmp (int (length pre)) = Inr PB_START"
    unfolding assms(1) by (rule at_index_append) simp
  have size: "getInt32FromNetByte tmp (int (length pre) + 1) = Inr 0"
    using getInt32_at [of 0 "int (length pre) + 1" "pre @ [PB_START]" post]
    by (simp add: assms(1) zero in_int32_def)
  have prev: "at_index tmp (int (length pre) - 1) = (if pre = [] then Inl Out_Of_Bounds else Inr (last pre))"
  proof (cases pre rule: rev_cases)
    case Nil
    then show ?thesis by (simp add: at_index_def)
  next
    case (snoc xs c)
    then have "tmp = xs @ c # PB_START # replicate 4 NUL @ post" using assms(1) by simp
    then show ?thesis using snoc by (simp add: at_index_append)
  qed
  have "in_int32 (int (length pre))" "in_int32 (int (length pre) - 1)"
    using assms(2,3) by (simp_all add: in_int32_def)
  with start size prev assms(2) show ?thesis
    by (subst decode_scan.simps) simp
qed

text \<open>C8. A packet followed by the first two to four bytes of the next one, its length field so far zero
  (packets are short, so the length starts with zero bytes) and fresh memory after it: the decoder
  takes the four length bytes without asking whether they have arrived, and reads a length of 0.  If
  the consumed packet is still in the buffer, its end byte passes for the end of the new packet, the
  read index moves by 0, and \<open>while(1)\<close> never ends; if the buffer was compacted, \<open>tmp[-1]\<close> is read.\<close>

theorem decode_split_header:
  assumes "buf_inv b" and "contents b = packet m @ PB_START # replicate k NUL" and "wf_msg m"
    and "0 < k" and "k \<le> 4"
    and "drop (nat (m_write_index b)) (m_buffer b) = replicate f NUL" and "4 - k \<le> f"
  shows "TinyPBCoder_decode out b =
           (if m_read_index b + packet_length m < int (length (m_buffer b)) div 3 then None
            else Some (Inl Out_Of_Bounds))"
proof -
  let ?L = "packet_length m" and ?n = "length (m_buffer b)"
  obtain pre post where sh: "buf_shape b pre (contents b) post"
    and len: "int (length pre + length (contents b) + length post) \<le> INT_MAX"
    using buf_inv_shape [OF assms(1)] .
  have Lp: "int (length (packet m)) = ?L" by (rule length_packet)
  have post: "post = replicate f NUL"
    using sh assms(6) by (simp add: buf_shape_def nat_int_add)
  have buf: "m_buffer b = pre @ packet m @ PB_START # replicate (k + f) NUL"
    and r: "m_read_index b = int (length pre)"
    and w: "m_write_index b = int (length pre) + ?L + 1 + int k"
    using sh Lp by (simp_all add: buf_shape_def assms(2) post replicate_add)
  have k4: "replicate (k + f) NUL = replicate 4 NUL @ replicate (k + f - 4) NUL"
    using assms(7) by (simp add: replicate_add [symmetric])
  have rd: "readAble b = ?L + 1 + int k" using r w by (simp add: readAble_def)
  have n: "int ?n = int (length pre) + ?L + 1 + int k + int f" using Lp by (simp add: buf)
  have small: "m_write_index b \<le> INT_MAX" using assms(1) by (simp add: buf_inv_def)
  have rest: "drop (nat ?L) (contents b) = PB_START # replicate k NUL"
    by (simp add: assms(2) Lp [symmetric])
  define c where "c = (if m_read_index b + ?L < int ?n div 3
      then b\<lparr>m_read_index := m_read_index b + ?L\<rparr>
      else b\<lparr>m_buffer := (PB_START # replicate k NUL) @ replicate (?n - nat (readAble b - ?L)) NUL,
             m_read_index := 0, m_write_index := readAble b - ?L\<rparr>)"
  have "moveReadIndex b ?L = Inr c"
    unfolding c_def rest [symmetric]
    using moveReadIndex_result [OF assms(1), of ?L] rd r n by simp
  then have first: "TinyPBCoder_decode out b = TinyPBCoder_decode (out @ [body m]) c"
    using decode_turn_at_packet [OF assms(1,2,3), of out] by (subst TinyPBCoder_decode.simps) simp
  show ?thesis
  proof (cases "m_read_index b + ?L < int ?n div 3")
    case True
    have c: "c = b\<lparr>m_read_index := int (length (pre @ packet m))\<rparr>"
      unfolding c_def using True r Lp by simp
    have "decode_scan (m_buffer b) (m_write_index b) (int (length (pre @ packet m))) =
        Inr (Some (int (length (pre @ packet m)), int (length (pre @ packet m)) - 1, 0))"
      using decode_scan_zero_length [of "m_buffer b" "pre @ packet m" "replicate (k + f - 4) NUL" "m_write_index b"]
        small w Lp assms(4) by (simp add: buf k4 packet_def)
    moreover have "moveReadIndex c 0 = Inr c"
    proof -
      have "m_read_index c = m_read_index b + ?L" "m_buffer c = m_buffer b" "0 \<le> readAble c" "buf_inv c"
        using assms(1) rd r Lp by (simp_all add: c readAble_def buf_inv_def)
      with moveReadIndex_result [of c 0] True n rd r show ?thesis by simp
    qed
    ultimately have "decode_turn out c = Inr (Some (out, c))" for out
      by (simp add: c decode_turn_def decode_fields_def Let_def writeIndex_def readIndex_def)
    then have "TinyPBCoder_decode (out @ [body m]) c = None" by (intro decode_stuck) blast
    with True first show ?thesis by simp
  next
    case False
    let ?z = "?n - nat (readAble b - ?L)"
    have "replicate k NUL @ replicate ?z NUL = replicate 4 NUL @ replicate (k + ?z - 4) NUL"
      using rd n Lp packet_length_lower [of m] assms(5) by (simp add: replicate_add [symmetric])
    then have "decode_scan (m_buffer c) (m_write_index c) 0 = Inl Out_Of_Bounds"
      using decode_scan_zero_length [of "m_buffer c" "[]" "replicate (k + ?z - 4) NUL" "m_write_index c"]
        False rd assms(4,5) by (simp add: c_def)
    then have "decode_turn (out @ [body m]) c = Inl Out_Of_Bounds"
      using False by (simp add: decode_turn_def Let_def writeIndex_def readIndex_def c_def)
    then show ?thesis using False first by (subst first, subst TinyPBCoder_decode.simps) simp
  qed
qed

theorem decode_split_header_witness:
  "\<exists>b b'. contents b = packet (with_msg_id tinypb_new) @ [PB_START, NUL] \<and> TinyPBCoder_decode [] b = None \<and>
     contents b' = packet (with_msg_id tinypb_new) @ [PB_START, NUL] \<and>
     TinyPBCoder_decode [] b' = Some (Inl Out_Of_Bounds)"
proof -
  let ?m = "with_msg_id tinypb_new"
  define b where "b f = \<lparr>m_read_index = 0, m_write_index = 37, m_size = 0,
      m_buffer = packet ?m @ [PB_START, NUL] @ replicate f NUL\<rparr>" for f
  have L: "packet_length ?m = 35" by (simp add: packet_length_def with_msg_id_def tinypb_new_def)
  then have "length (packet ?m) = 35" using length_packet [of ?m] by simp
  then have b: "contents (b f) = packet ?m @ PB_START # replicate 1 NUL" "int f \<le> 1000 \<Longrightarrow> buf_inv (b f)"
    "drop (nat (m_write_index (b f))) (m_buffer (b f)) = replicate f NUL"
    "int (length (m_buffer (b f))) = 37 + int f" "m_read_index (b f) = 0" for f
    by (simp_all add: b_def contents_def readAble_def buf_inv_def)
  have wf: "wf_msg ?m" by (simp add: wf_msg_def with_msg_id_def tinypb_new_def in_int32_def)
  have "TinyPBCoder_decode [] (b f) = (if 35 < (37 + int f) div 3 then None else Some (Inl Out_Of_Bounds))"
    if "3 \<le> f" "f \<le> 1000" for f
    using decode_split_header [OF b(2) b(1) wf _ _ b(3), of f "[]"] that by (simp add: b(4,5) L)
  from this [of 100] this [of 3] show ?thesis
    using b(1) by (intro exI [of _ "b 100"] exI [of _ "b 3"]) simp
qed

end
