(* ===== verification/String_Coder.thy ===== *)
theory String_Coder
  imports Tcp_Buffer
begin

text \<open>
  \<open>net/coder/string_coder.h\<close>: the plain-text coder.  It writes the messages' bytes without any
  framing and reads whatever is readable as one message.  Its lemmas rest on the byte queue
  interface (the facts of the interpretation \<open>buf\<close>), not on the buffer's representation.
\<close>

record string_protocol =
  sp_msg_id :: string
  info :: string

definition StringCoder_encode :: "string_protocol list \<Rightarrow> tcp_buffer \<Rightarrow> tcp_buffer res" where
  "StringCoder_encode messages out_buffer =
     fold_res (\<lambda>msg b. writeToBuffer b (info msg) (wrap32 (int (length (info msg))))) messages out_buffer"

definition StringCoder_decode ::
  "string_protocol list \<Rightarrow> tcp_buffer \<Rightarrow> (string_protocol list \<times> tcp_buffer) res" where
  "StringCoder_decode out_messages buffer =
     bind_res (readFromBuffer buffer [] (readAble buffer)) (\<lambda>(re, buffer).
       let info_str = foldl (\<lambda>s c. s @ [c]) [] re in
       Inr (out_messages @ [\<lparr>sp_msg_id = ''123456'', info = info_str\<rparr>], buffer))"

lemma foldl_snoc: "foldl (\<lambda>s c. s @ [c]) acc xs = acc @ xs"
  by (induction xs arbitrary: acc) simp_all

lemma StringCoder_encode_chunks:
  assumes "int (length (concat (map info ms))) \<le> INT_MAX"
  shows "StringCoder_encode ms b = fold_res (\<lambda>bs b. buf_put b bs) (map info ms) b"
  using assms unfolding StringCoder_encode_def
proof (induction ms arbitrary: b)
  case (Cons m ms)
  then have "wrap32 (int (length (info m))) = int (length (info m))" by (intro wrap32_in) simp_all
  with Cons show ?case by (cases "buf_put b (info m)") simp_all
qed simp

lemma StringCoder_decode_all:
  assumes "buf_inv b"
  shows "\<exists>b'. StringCoder_decode out b =
             Inr (out @ [\<lparr>sp_msg_id = ''123456'', info = contents b\<rparr>], b') \<and>
           buf_inv b' \<and> contents b' = []"
proof -
  have n: "readAble b = int (length (contents b))" using length_contents [OF assms] by simp
  obtain b' where "buf_get b (int (length (contents b))) = Inr (contents b, b')" "buf_inv b'"
    "contents b' = []"
    using buf.get_law [OF assms, of "length (contents b)"] by auto
  then show ?thesis by (simp add: StringCoder_decode_def n foldl_snoc)
qed

text \<open>The string coder transports the bytes but not the message boundaries: encoding a list
  of strings into an empty buffer and decoding it gives one message, with the fixed id
  \<open>123456\<close>, whose text is the concatenation of the strings, and empties the buffer.\<close>

theorem string_roundtrip:
  assumes "buf_inv b" and "contents b = []"
    and "m_write_index b + int (length (concat (map info ms))) \<le> WRITE_LIMIT"
  shows "\<exists>b' b''. StringCoder_encode ms b = Inr b' \<and>
           StringCoder_decode [] b' = Inr ([\<lparr>sp_msg_id = ''123456'', info = concat (map info ms)\<rparr>], b'') \<and>
           contents b'' = []"
proof -
  have "0 \<le> m_write_index b" using assms(1) by (simp add: buf_inv_def)
  with assms(3) have "int (length (concat (map info ms))) \<le> INT_MAX" by linarith
  then have "StringCoder_encode ms b = fold_res (\<lambda>bs b. buf_put b bs) (map info ms) b"
    by (rule StringCoder_encode_chunks)
  with buf.put_all [OF assms(1,3)] assms(2) obtain b' where
    b': "StringCoder_encode ms b = Inr b'" "buf_inv b'" "contents b' = concat (map info ms)" by auto
  with StringCoder_decode_all [OF b'(2), of "[]"] show ?thesis by auto
qed

theorem string_roundtrip_witness:
  "\<exists>b' b''. StringCoder_encode [\<lparr>sp_msg_id = [], info = ''ab''\<rparr>, \<lparr>sp_msg_id = [], info = ''cd''\<rparr>]
        \<lparr>m_read_index = 0, m_write_index = 0, m_size = 0, m_buffer = []\<rparr> = Inr b' \<and>
     StringCoder_decode [] b' = Inr ([\<lparr>sp_msg_id = ''123456'', info = ''abcd''\<rparr>], b'') \<and>
     contents b'' = []"
  using string_roundtrip [of "\<lparr>m_read_index = 0, m_write_index = 0, m_size = 0, m_buffer = []\<rparr>"
      "[\<lparr>sp_msg_id = [], info = ''ab''\<rparr>, \<lparr>sp_msg_id = [], info = ''cd''\<rparr>]"]
  by (simp add: buf_inv_def contents_def)

end
