(* ===== verification/Std_String.thy ===== *)
theory Std_String
  imports Netrpc_Prelude
begin

text \<open>
  The parts of the C++ string library the program uses: \<open>std::to_string\<close> (and \<open>%d\<close>, and
  \<open>operator<<\<close> on integers), \<open>std::atoi\<close>, \<open>find_first_of\<close> with one character and the two
  \<open>substr\<close> calls around its result.  With the facts the components need: reading back a printed
  number, cutting a string at the first separator.
\<close>

definition digit_char :: "nat \<Rightarrow> char" where
  "digit_char d = char_of (48 + d)"

definition is_digit :: "char \<Rightarrow> bool" where
  "is_digit c \<longleftrightarrow> 48 \<le> (of_char c :: nat) \<and> (of_char c :: nat) \<le> 57"

definition digit_val :: "char \<Rightarrow> nat" where
  "digit_val c = of_char c - 48"

fun dec :: "nat \<Rightarrow> string" where
  "dec n = (if n < 10 then [digit_char n] else dec (n div 10) @ [digit_char (n mod 10)])"

declare dec.simps [simp del]

definition to_string :: "int \<Rightarrow> string" where
  "to_string i = (if i < 0 then ''-'' @ dec (nat (- i)) else dec (nat i))"

definition dec_val :: "string \<Rightarrow> nat" where
  "dec_val s = foldl (\<lambda>n c. n * 10 + digit_val c) 0 s"

definition is_space :: "char \<Rightarrow> bool" where
  "is_space c \<longleftrightarrow> (of_char c :: nat) = 32 \<or> 9 \<le> (of_char c :: nat) \<and> (of_char c :: nat) \<le> 13"

definition atoi :: "string \<Rightarrow> int res" where
  \<comment> \<open>white space, a sign, digits; a value outside \<open>int\<close> is undefined behaviour\<close>
  "atoi s = (let s = dropWhile is_space s;
                 num = (\<lambda>t. int (dec_val (takeWhile is_digit t)))
             in case s of [] \<Rightarrow> Inr 0
                | c # t \<Rightarrow> if c = CHR ''-'' then chk32 (- num t)
                           else if c = CHR ''+'' then chk32 (num t) else chk32 (num s))"

definition cut_at :: "char \<Rightarrow> string \<Rightarrow> (string \<times> string) option" where
  \<comment> \<open>\<open>i = s.find_first_of(c)\<close>, then \<open>s.substr(0, i)\<close> and \<open>s.substr(i + 1, s.size() - i - 1)\<close>;
      \<open>None\<close> is \<open>npos\<close>\<close>
  "cut_at c s = (if c \<in> set s
     then let i = length (takeWhile (\<lambda>x. x \<noteq> c) s) in Some (take i s, drop (i + 1) s)
     else None)"

lemma digit_char_val [simp]: "d < 10 \<Longrightarrow> digit_val (digit_char d) = d"
  by (simp add: digit_val_def digit_char_def)

lemma digit_char_is_digit [simp]: "d < 10 \<Longrightarrow> is_digit (digit_char d)"
  by (simp add: is_digit_def digit_char_def)

lemma of_char_digit [simp]: "d < 10 \<Longrightarrow> of_char (digit_char d) = 48 + d"
  by (simp add: digit_char_def)

lemma digit_val_less: "is_digit c \<Longrightarrow> digit_val c < 10"
  unfolding is_digit_def digit_val_def by linarith

lemma digit_char_digit_val: "is_digit c \<Longrightarrow> digit_char (digit_val c) = c"
  by (simp add: is_digit_def digit_char_def digit_val_def)

lemma digit_chars:
  "digit_char 0 = CHR ''0''" "digit_char (Suc 0) = CHR ''1''" "digit_char 1 = CHR ''1''"
  "digit_char 2 = CHR ''2''" "digit_char 3 = CHR ''3''" "digit_char 4 = CHR ''4''"
  "digit_char 5 = CHR ''5''" "digit_char 6 = CHR ''6''" "digit_char 7 = CHR ''7''"
  "digit_char 8 = CHR ''8''" "digit_char 9 = CHR ''9''"
  using digit_char_digit_val [of "CHR ''0''"] digit_char_digit_val [of "CHR ''1''"]
    digit_char_digit_val [of "CHR ''2''"] digit_char_digit_val [of "CHR ''3''"]
    digit_char_digit_val [of "CHR ''4''"] digit_char_digit_val [of "CHR ''5''"]
    digit_char_digit_val [of "CHR ''6''"] digit_char_digit_val [of "CHR ''7''"]
    digit_char_digit_val [of "CHR ''8''"] digit_char_digit_val [of "CHR ''9''"]
  by (simp_all add: is_digit_def digit_val_def)

lemma dec_nonempty [simp]: "dec n \<noteq> []"
  by (subst dec.simps) simp

lemma dec_digits: "c \<in> set (dec n) \<Longrightarrow> is_digit c"
proof (induction n rule: dec.induct)
  case (1 n)
  then show ?case by (subst (asm) (2) dec.simps) (auto split: if_splits)
qed

lemma dec_val_snoc [simp]: "dec_val (s @ [c]) = dec_val s * 10 + digit_val c"
  by (simp add: dec_val_def)

lemma dec_val_dec [simp]: "dec_val (dec n) = n"
proof (induction n rule: dec.induct)
  case (1 n)
  show ?case
  proof (cases "n < 10")
    case True
    then show ?thesis by (subst dec.simps) (simp add: dec_val_def)
  next
    case False
    with 1 show ?thesis by (subst dec.simps) simp
  qed
qed

lemma dec_inject: "dec m = dec n \<longleftrightarrow> m = n"
  by (metis dec_val_dec)

lemma to_string_inject: "to_string i = to_string j \<longleftrightarrow> i = j"
proof
  have no_minus: "CHR ''-'' \<notin> set (dec n)" for n
    using dec_digits [of "CHR ''-''" n] by (auto simp: is_digit_def)
  have "dec m \<noteq> CHR ''-'' # dec n" for m n using no_minus [of m] by auto
  then show "to_string i = to_string j \<Longrightarrow> i = j"
    using dec_inject [of "nat (- i)" "nat (- j)"] dec_inject [of "nat i" "nat j"]
    by (auto simp: to_string_def split: if_splits dest: sym)
qed simp

lemma takeWhile_dec:
  assumes "rest = [] \<or> \<not> is_digit (hd rest)"
  shows "takeWhile is_digit (dec n @ rest) = dec n"
proof -
  have "takeWhile is_digit (dec n @ rest) = dec n @ takeWhile is_digit rest"
    using dec_digits by (intro takeWhile_append2)
  moreover have "takeWhile is_digit rest = []" using assms by (cases rest) auto
  ultimately show ?thesis by simp
qed

lemma atoi_dec:
  assumes "rest = [] \<or> \<not> is_digit (hd rest)"
  shows "atoi (dec n @ rest) = chk32 (int n)"
proof -
  obtain c t where ct: "dec n @ rest = c # t" "is_digit c"
    by (metis append_Cons dec_digits dec_nonempty list.exhaust list.set_intros(1))
  from ct(2) have "\<not> is_space c" "c \<noteq> CHR ''-''" "c \<noteq> CHR ''+''"
    by (auto simp: is_digit_def is_space_def)
  moreover have "takeWhile is_digit (c # t) = dec n"
    using takeWhile_dec [OF assms, of n] unfolding ct(1) .
  ultimately show ?thesis by (simp add: atoi_def ct(1) del: takeWhile.simps)
qed

lemma atoi_to_string: "in_int32 i \<Longrightarrow> 0 \<le> i \<Longrightarrow> atoi (to_string i) = Inr i"
  using atoi_dec [of "[]" "nat i"] by (simp add: to_string_def)

lemma cut_at_append:
  assumes "c \<notin> set s"
  shows "cut_at c (s @ c # t) = Some (s, t)"
proof -
  have "takeWhile (\<lambda>x. x \<noteq> c) (s @ c # t) = s @ takeWhile (\<lambda>x. x \<noteq> c) (c # t)"
    using assms by (intro takeWhile_append2) auto
  then show ?thesis by (simp add: cut_at_def)
qed

lemma cut_at_Some:
  "cut_at c s = Some (a, b) \<longleftrightarrow> s = a @ c # b \<and> c \<notin> set a"
proof
  assume h: "cut_at c s = Some (a, b)"
  then have c: "c \<in> set s" by (auto simp: cut_at_def split: if_splits)
  then obtain u v where "s = u @ c # v" "c \<notin> set u" by (meson split_list_first)
  with h cut_at_append show "s = a @ c # b \<and> c \<notin> set a" by force
qed (auto simp: cut_at_append)

lemma cut_at_None: "cut_at c s = None \<longleftrightarrow> c \<notin> set s"
  by (simp add: cut_at_def Let_def)

end
