(* ===== verification/Net_Addr.thy ===== *)
theory Net_Addr
  imports Std_String
begin

text \<open>
  \<open>net/tcp/net_addr.cc\<close>: IPv4 addresses.  \<open>inet_addr\<close> and \<open>inet_ntoa\<close> belong to the system's
  C library and are arguments of the definitions that call them; a \<open>sockaddr_in\<close> the code leaves
  uninitialised is \<open>None\<close>.
\<close>

record sockaddr_in =
  sin_family :: int
  sin_addr :: "32 word"
  sin_port :: int

record ip_net_addr =
  m_ip :: string
  m_port :: int
  m_addr :: "sockaddr_in option"

abbreviation AF_INET :: int where "AF_INET \<equiv> 2"

abbreviation INADDR_NONE :: "32 word" where "INADDR_NONE \<equiv> 0xFFFFFFFF"

definition htons :: "int \<Rightarrow> int" where
  \<comment> \<open>the two bytes of a 16-bit value swapped; \<open>ntohs\<close> is the same function\<close>
  "htons n = n mod 256 * 256 + n div 256 mod 256"

definition to_uint16 :: "int \<Rightarrow> int" where
  "to_uint16 n = n mod 65536"

definition IPNetAddr_CheckValid :: "string \<Rightarrow> bool res" where
  "IPNetAddr_CheckValid addr =
     (case cut_at (CHR '':'') addr of
        None \<Rightarrow> Inr False
      | Some (ip, port) \<Rightarrow>
          if ip = [] \<or> port = [] then Inr False
          else bind_res (atoi port) (\<lambda>iport. Inr (\<not> (iport \<le> 0 \<or> iport > 65536))))"

definition IPNetAddr_of_ip :: "(string \<Rightarrow> 32 word) \<Rightarrow> string \<Rightarrow> int \<Rightarrow> ip_net_addr" where
  \<comment> \<open>the constructor from an address and a \<open>uint16_t\<close> port\<close>
  "IPNetAddr_of_ip inet_addr ip port =
     \<lparr>m_ip = ip, m_port = port,
      m_addr = Some \<lparr>sin_family = AF_INET, sin_addr = inet_addr ip, sin_port = htons port\<rparr>\<rparr>"

definition IPNetAddr_of_string :: "(string \<Rightarrow> 32 word) \<Rightarrow> string \<Rightarrow> ip_net_addr res" where
  "IPNetAddr_of_string inet_addr addr =
     (case cut_at (CHR '':'') addr of
        None \<Rightarrow> Inr \<lparr>m_ip = [], m_port = 0, m_addr = None\<rparr>
      | Some (ip, port) \<Rightarrow>
          bind_res (atoi port) (\<lambda>n.
            let p = to_uint16 n in
            Inr \<lparr>m_ip = ip, m_port = p,
                 m_addr = Some \<lparr>sin_family = AF_INET, sin_addr = inet_addr ip, sin_port = htons p\<rparr>\<rparr>))"

definition IPNetAddr_of_sockaddr :: "(32 word \<Rightarrow> string) \<Rightarrow> sockaddr_in \<Rightarrow> ip_net_addr" where
  "IPNetAddr_of_sockaddr inet_ntoa addr =
     \<lparr>m_ip = inet_ntoa (sin_addr addr), m_port = htons (sin_port addr), m_addr = Some addr\<rparr>"

definition getSockAddr :: "ip_net_addr \<Rightarrow> sockaddr_in option" where
  "getSockAddr a = m_addr a"

definition getSockLen :: "ip_net_addr \<Rightarrow> int" where
  "getSockLen a = 16"

definition getFamily :: "ip_net_addr \<Rightarrow> int" where
  "getFamily a = AF_INET"

definition IPNetAddr_toString :: "ip_net_addr \<Rightarrow> string" where
  "IPNetAddr_toString a = m_ip a @ '':'' @ to_string (m_port a)"

definition IPNetAddr_checkValid :: "(string \<Rightarrow> 32 word) \<Rightarrow> ip_net_addr \<Rightarrow> bool" where
  "IPNetAddr_checkValid inet_addr a =
     (if m_ip a = [] then False
      else if m_port a < 0 \<or> m_port a > 65536 then False
      else if inet_addr (m_ip a) = INADDR_NONE then False
      else True)"

lemma byte_pair:
  fixes a b :: int
  assumes "0 \<le> b" and "b < 256"
  shows "(a * 256 + b) mod 256 = b" and "(a * 256 + b) div 256 = a"
  using assms by simp_all

lemma htons_involutive:
  assumes "0 \<le> n" and "n < 65536"
  shows "htons (htons n) = n"
proof -
  have hi: "n div 256 mod 256 = n div 256" using assms by (simp add: div_pos_pos_trivial)
  have "htons n = n mod 256 * 256 + n div 256" by (simp only: htons_def hi)
  moreover have "0 \<le> n div 256" "n div 256 < 256" using assms by linarith+
  ultimately have "htons n mod 256 = n div 256" "htons n div 256 = n mod 256"
    by (simp_all only: byte_pair)
  then show ?thesis by (simp add: htons_def [of "htons n"])
qed

lemma cut_toString:
  "CHR '':'' \<notin> set (m_ip a) \<Longrightarrow> cut_at (CHR '':'') (IPNetAddr_toString a) = Some (m_ip a, to_string (m_port a))"
  by (simp add: IPNetAddr_toString_def cut_at_append)

lemma to_string_nonempty [simp]: "to_string i \<noteq> []"
  by (simp add: to_string_def)

text \<open>C9. An address printed by \<open>toString\<close> reads back: the constructor from a string rebuilds the
  same address, \<open>CheckValid\<close> accepts the text unless the address is empty or the port is 0, and
  the port stored in network order converts back to the port.\<close>

theorem net_addr_roundtrip:
  assumes "CHR '':'' \<notin> set ip" and "0 \<le> port" and "port < 65536"
  shows "IPNetAddr_of_string inet_addr (IPNetAddr_toString (IPNetAddr_of_ip inet_addr ip port)) =
           Inr (IPNetAddr_of_ip inet_addr ip port) \<and>
         IPNetAddr_CheckValid (IPNetAddr_toString (IPNetAddr_of_ip inet_addr ip port)) =
           Inr (ip \<noteq> [] \<and> port \<noteq> 0) \<and>
         m_port (IPNetAddr_of_sockaddr inet_ntoa
           (the (getSockAddr (IPNetAddr_of_ip inet_addr ip port)))) = port"
proof -
  let ?a = "IPNetAddr_of_ip inet_addr ip port"
  have cut: "cut_at (CHR '':'') (IPNetAddr_toString ?a) = Some (ip, to_string port)"
    using cut_toString [of ?a] assms(1) by (simp add: IPNetAddr_of_ip_def)
  have "atoi (to_string port) = Inr port"
    using assms(2,3) by (intro atoi_to_string) (simp_all add: in_int32_def)
  then show ?thesis
    using assms cut htons_involutive [of port]
    by (auto simp: IPNetAddr_of_string_def IPNetAddr_CheckValid_def to_uint16_def
        IPNetAddr_of_ip_def IPNetAddr_of_sockaddr_def getSockAddr_def)
qed

theorem net_addr_roundtrip_witness:
  "IPNetAddr_CheckValid (IPNetAddr_toString (IPNetAddr_of_ip (\<lambda>_. 0x0100007F) ''127.0.0.1'' 12345)) = Inr True"
  using net_addr_roundtrip [of "''127.0.0.1''" 12345 "\<lambda>_. 0x0100007F"] by simp

text \<open>\<open>CheckValid\<close> lets port 65536 through, which the constructor then stores as port 0, and
  the member \<open>checkValid\<close> never rejects a port: its range test is about a \<open>uint16_t\<close>.\<close>

theorem port_65536_wraps:
  "IPNetAddr_CheckValid ''10.0.0.1:65536'' = Inr True \<and>
   IPNetAddr_of_string inet_addr ''10.0.0.1:65536'' = Inr (IPNetAddr_of_ip inet_addr ''10.0.0.1'' 0) \<and>
   IPNetAddr_checkValid inet_addr (IPNetAddr_of_ip inet_addr ip (to_uint16 n)) =
     (ip \<noteq> [] \<and> inet_addr ip \<noteq> INADDR_NONE)"
proof -
  have cut: "cut_at (CHR '':'') ''10.0.0.1:65536'' = Some (''10.0.0.1'', ''65536'')"
    by (simp add: cut_at_Some)
  have "atoi ''65536'' = Inr 65536"
    by (simp add: atoi_def is_space_def is_digit_def dec_val_def digit_val_def in_int32_def)
  then show ?thesis
    using cut pos_mod_bound [of 65536 n]
    by (auto simp: IPNetAddr_CheckValid_def IPNetAddr_of_string_def IPNetAddr_of_ip_def to_uint16_def
        IPNetAddr_checkValid_def)
qed

end
