(* ===== verification/Std_Map.thy ===== *)
theory Std_Map
  imports Netrpc_Prelude "HOL-Library.Char_ord" "HOL-Library.List_Lexorder"
begin

text \<open>
  \<open>std::map\<close> of the C++ library, which the dispatcher, the connections, the configuration and the
  two hash rings use: an association list in key order, with \<open>insert\<close> (keeps an existing entry),
  \<open>operator[] =\<close> (overwrites), \<open>erase\<close> and \<open>lower_bound\<close>.  The interfaces \<open>std_map\<close> and
  \<open>ordered_map\<close> state what the components rely on; the lemmas about whole insertion loops are
  proved there once.
\<close>

type_synonym ('k, 'v) smap = "('k \<times> 'v) list"

definition smap_ok :: "('k::linorder, 'v) smap \<Rightarrow> bool" where
  "smap_ok m \<longleftrightarrow> sorted_wrt (<) (map fst m)"

abbreviation smap_find :: "('k, 'v) smap \<Rightarrow> 'k \<Rightarrow> 'v option" where
  "smap_find \<equiv> map_of"

fun smap_insert :: "'k::linorder \<Rightarrow> 'v \<Rightarrow> ('k, 'v) smap \<Rightarrow> ('k, 'v) smap" where
  "smap_insert k v [] = [(k, v)]"
| "smap_insert k v ((k', v') # m) =
     (if k < k' then (k, v) # (k', v') # m
      else if k = k' then (k', v') # m
      else (k', v') # smap_insert k v m)"

fun smap_assign :: "'k::linorder \<Rightarrow> 'v \<Rightarrow> ('k, 'v) smap \<Rightarrow> ('k, 'v) smap" where
  "smap_assign k v [] = [(k, v)]"
| "smap_assign k v ((k', v') # m) =
     (if k < k' then (k, v) # (k', v') # m
      else if k = k' then (k, v) # m
      else (k', v') # smap_assign k v m)"

definition smap_erase :: "'k \<Rightarrow> ('k, 'v) smap \<Rightarrow> ('k, 'v) smap" where
  "smap_erase k m = filter (\<lambda>(k', v). k' \<noteq> k) m"

definition smap_lower_bound :: "'k::linorder \<Rightarrow> ('k, 'v) smap \<Rightarrow> ('k \<times> 'v) option" where
  "smap_lower_bound k m = find (\<lambda>(k', v). k \<le> k') m"

lemma smap_ok_Nil [simp]: "smap_ok []"
  by (simp add: smap_ok_def)

lemma smap_ok_Cons: "smap_ok ((k, v) # m) \<longleftrightarrow> (\<forall>k' \<in> fst ` set m. k < k') \<and> smap_ok m"
  by (auto simp: smap_ok_def)

lemma map_of_above: "\<forall>k' \<in> fst ` set m. k < k' \<Longrightarrow> map_of m (k :: 'k::linorder) = None"
  by (force simp: map_of_eq_None_iff)

lemma keys_smap_insert: "fst ` set (smap_insert k v m) = insert k (fst ` set m)"
  by (induction k v m rule: smap_insert.induct) auto

lemma keys_smap_assign: "fst ` set (smap_assign k v m) = insert k (fst ` set m)"
  by (induction k v m rule: smap_assign.induct) auto

lemma smap_ok_insert: "smap_ok m \<Longrightarrow> smap_ok (smap_insert k v m)"
  by (induction k v m rule: smap_insert.induct) (force simp: smap_ok_Cons keys_smap_insert)+

lemma smap_ok_assign: "smap_ok m \<Longrightarrow> smap_ok (smap_assign k v m)"
  by (induction k v m rule: smap_assign.induct) (force simp: smap_ok_Cons keys_smap_assign)+

lemma smap_ok_erase: "smap_ok m \<Longrightarrow> smap_ok (smap_erase k m)"
  by (induction m) (auto simp: smap_ok_Cons smap_erase_def)

lemma smap_find_insert:
  "smap_ok m \<Longrightarrow> smap_find (smap_insert k v m) =
     (if smap_find m k = None then (smap_find m)(k \<mapsto> v) else smap_find m)"
proof (induction k v m rule: smap_insert.induct)
  case (2 k v k' v' m)
  consider "k < k'" | "k = k'" | "k' < k" using less_linear by blast
  then show ?case
  proof cases
    case 1
    then have "\<forall>k'' \<in> fst ` set ((k', v') # m). k < k''"
      using 2(2) by (auto simp: smap_ok_Cons dest: order.strict_trans)
    from map_of_above [OF this] 1 show ?thesis by auto
  qed (use 2 in \<open>auto simp: smap_ok_Cons fun_eq_iff\<close>)
qed simp

lemma smap_find_assign:
  "smap_ok m \<Longrightarrow> smap_find (smap_assign k v m) = (smap_find m)(k \<mapsto> v)"
proof (induction k v m rule: smap_assign.induct)
  case (2 k v k' v' m)
  then show ?case by (auto simp: smap_ok_Cons fun_eq_iff)
qed simp

lemma smap_find_erase: "smap_find (smap_erase k m) = (smap_find m)(k := None)"
  by (induction m) (auto simp: smap_erase_def fun_eq_iff)

lemma smap_lower_bound_None:
  "smap_lower_bound k m = None \<longleftrightarrow> (\<forall>k' \<in> fst ` set m. k' < k)"
  by (auto simp: smap_lower_bound_def find_None_iff not_le)

lemma smap_lower_bound_Some:
  "smap_ok m \<Longrightarrow> smap_lower_bound k m = Some (k', v) \<longleftrightarrow>
     smap_find m k' = Some v \<and> k \<le> k' \<and> (\<forall>k'' \<in> dom (smap_find m). k \<le> k'' \<longrightarrow> k' \<le> k'')"
proof (induction m)
  case (Cons e m)
  obtain k0 v0 where e: "e = (k0, v0)" by (cases e)
  with Cons.prems have gt: "\<forall>k' \<in> fst ` set m. k0 < k'" and ok: "smap_ok m"
    by (auto simp: smap_ok_Cons)
  then have fresh: "smap_find m k0 = None" and above: "\<And>k'. k' \<in> dom (smap_find m) \<Longrightarrow> k0 < k'"
    using map_of_above by (auto simp: dom_map_of_conv_image_fst)
  show ?case
  proof (cases "k \<le> k0")
    case True
    with e fresh above show ?thesis
      by (auto simp: smap_lower_bound_def dom_def dest!: order.strict_implies_order intro: order.antisym)
  next
    case False
    with e have "smap_lower_bound k (e # m) = smap_lower_bound k m"
      by (simp add: smap_lower_bound_def)
    with Cons.IH [OF ok] False e fresh above show ?thesis by (auto simp: dom_def)
  qed
qed (simp add: smap_lower_bound_def)

lemma smap_ext:
  assumes "smap_ok m" and "smap_ok m'" and "smap_find m = smap_find m'"
  shows "m = m'"
proof -
  have "set (map fst m) = set (map fst m')" using assms(3) by (metis dom_map_of_conv_image_fst list.set_map)
  then have keys: "map fst m = map fst m'"
    using assms(1,2) by (metis smap_ok_def strict_sorted_equal)
  have "k = map (\<lambda>x. (x, the (smap_find k x))) (map fst k)" if "smap_ok k" for k :: "('a, 'b) smap"
    using that unfolding list.map_comp by (intro map_idI [symmetric]) (auto simp: smap_ok_def strict_sorted_iff)
  with assms keys show ?thesis by metis
qed

section \<open>The map interfaces\<close>

locale std_map =
  fixes ok :: "'m \<Rightarrow> bool"
    and look :: "'m \<Rightarrow> 'k \<Rightarrow> 'v option"
    and ins :: "'k \<Rightarrow> 'v \<Rightarrow> 'm \<Rightarrow> 'm"
    and upd :: "'k \<Rightarrow> 'v \<Rightarrow> 'm \<Rightarrow> 'm"
    and del :: "'k \<Rightarrow> 'm \<Rightarrow> 'm"
  assumes look_ins: "ok m \<Longrightarrow> look (ins k v m) = (if look m k = None then (look m)(k \<mapsto> v) else look m)"
    and look_upd: "ok m \<Longrightarrow> look (upd k v m) = (look m)(k \<mapsto> v)"
    and look_del: "ok m \<Longrightarrow> look (del k m) = (look m)(k := None)"
    and ok_ins: "ok m \<Longrightarrow> ok (ins k v m)"
    and ok_upd: "ok m \<Longrightarrow> ok (upd k v m)"
    and ok_del: "ok m \<Longrightarrow> ok (del k m)"
begin

text \<open>A loop of \<open>insert\<close> calls: the first binding of a key wins, and entries already there stay.\<close>

lemma ins_all:
  "ok m \<Longrightarrow> ok (fold (\<lambda>(k, v). ins k v) kvs m) \<and>
     look (fold (\<lambda>(k, v). ins k v) kvs m) k =
       (case look m k of Some v \<Rightarrow> Some v | None \<Rightarrow> map_of kvs k)"
proof (induction kvs arbitrary: m)
  case (Cons kv kvs)
  then show ?case
    by (cases kv) (auto simp: ok_ins look_ins split: option.splits)
qed (simp split: option.split)

text \<open>A loop of assignments: the last binding of a key wins.\<close>

lemma upd_all:
  "ok m \<Longrightarrow> ok (fold (\<lambda>(k, v). upd k v) kvs m) \<and>
     look (fold (\<lambda>(k, v). upd k v) kvs m) k =
       (case map_of (rev kvs) k of Some v \<Rightarrow> Some v | None \<Rightarrow> look m k)"
proof (induction kvs arbitrary: m)
  case (Cons kv kvs)
  then show ?case
    by (cases kv) (auto simp: ok_upd look_upd map_add_def split: option.splits)
qed simp

text \<open>A loop of \<open>erase\<close> calls.\<close>

lemma del_all:
  "ok m \<Longrightarrow> ok (fold del ks m) \<and> look (fold del ks m) k = (if k \<in> set ks then None else look m k)"
  by (induction ks arbitrary: m) (auto simp: ok_del look_del)

end

locale ordered_map = std_map ok look ins upd del
  for ok :: "'m \<Rightarrow> bool"
    and look :: "'m \<Rightarrow> 'k::linorder \<Rightarrow> 'v option"
    and ins :: "'k \<Rightarrow> 'v \<Rightarrow> 'm \<Rightarrow> 'm"
    and upd :: "'k \<Rightarrow> 'v \<Rightarrow> 'm \<Rightarrow> 'm"
    and del :: "'k \<Rightarrow> 'm \<Rightarrow> 'm" +
  fixes lower :: "'k \<Rightarrow> 'm \<Rightarrow> ('k \<times> 'v) option"
    and first :: "'m \<Rightarrow> ('k \<times> 'v) option"
  assumes lower_None: "ok m \<Longrightarrow> lower k m = None \<longleftrightarrow> (\<forall>k' \<in> dom (look m). k' < k)"
    and lower_Some: "ok m \<Longrightarrow> lower k m = Some (k', v) \<longleftrightarrow>
        look m k' = Some v \<and> k \<le> k' \<and> (\<forall>k'' \<in> dom (look m). k \<le> k'' \<longrightarrow> k' \<le> k'')"
    and first_None: "ok m \<Longrightarrow> first m = None \<longleftrightarrow> dom (look m) = {}"
    and first_Some: "ok m \<Longrightarrow> first m = Some (k', v) \<longleftrightarrow>
        look m k' = Some v \<and> (\<forall>k'' \<in> dom (look m). k' \<le> k'')"
begin

text \<open>The clockwise successor on a ring: \<open>lower_bound\<close>, or the first entry past the end.\<close>

lemma ring_lookup_total:
  "ok m \<Longrightarrow> dom (look m) \<noteq> {} \<Longrightarrow>
     \<exists>k' v. (case lower k m of None \<Rightarrow> first m | e \<Rightarrow> e) = Some (k', v) \<and> look m k' = Some v"
  by (cases "lower k m"; cases "first m") (auto simp: lower_Some first_None first_Some)

lemma ring_lookup_found:
  assumes "ok m" and "(case lower k m of None \<Rightarrow> first m | e \<Rightarrow> e) = Some (k', v)"
  shows "look m k' = Some v"
proof (cases "lower k m")
  case None
  with assms(2) have "first m = Some (k', v)" by simp
  with first_Some [OF assms(1)] show ?thesis by blast
next
  case (Some e)
  with assms(2) have "lower k m = Some (k', v)" by simp
  with lower_Some [OF assms(1)] show ?thesis by blast
qed

text \<open>Adding entries for other keys moves a ring lookup only onto one of the new keys.\<close>

lemma ring_lookup_monotone:
  assumes "ok m" and "ok m'" and sub: "look m \<subseteq>\<^sub>m look m'"
    and old: "(case lower k m of None \<Rightarrow> first m | e \<Rightarrow> e) = Some (k0, v0)"
    and new: "(case lower k m' of None \<Rightarrow> first m' | e \<Rightarrow> e) = Some (k1, v1)"
    and "k1 \<in> dom (look m)"
  shows "k1 = k0 \<and> v1 = v0"
proof -
  have dom: "dom (look m) \<subseteq> dom (look m')" using sub by (rule map_le_implies_dom_le)
  have eq: "look m' x = look m x" if "x \<in> dom (look m)" for x
    using sub that by (auto simp: map_le_def)
  have "k1 = k0"
  proof (cases "lower k m'")
    case (Some e)
    with new have l': "lower k m' = Some (k1, v1)" by simp
    then have k1: "k \<le> k1" "\<forall>x \<in> dom (look m'). k \<le> x \<longrightarrow> k1 \<le> x"
      using lower_Some [OF assms(2)] by auto
    then have "lower k m \<noteq> None" using lower_None [OF assms(1)] assms(6) leD by blast
    with old have "lower k m = Some (k0, v0)" by auto
    then have "k \<le> k0" "k0 \<in> dom (look m)" "\<forall>x \<in> dom (look m). k \<le> x \<longrightarrow> k0 \<le> x"
      using lower_Some [OF assms(1)] by auto
    with k1 assms(6) dom show ?thesis by (blast intro: order.antisym)
  next
    case None
    with new have f': "first m' = Some (k1, v1)" by simp
    from None have "\<forall>x \<in> dom (look m). x < k" using lower_None [OF assms(2)] dom by blast
    then have "lower k m = None" using lower_None [OF assms(1)] by blast
    with old have "first m = Some (k0, v0)" by simp
    then have "k0 \<in> dom (look m)" "\<forall>x \<in> dom (look m). k0 \<le> x"
      using first_Some [OF assms(1)] by auto
    then have "k1 \<le> k0" "k0 \<le> k1"
      using f' first_Some [OF assms(2), of k1 v1] assms(6) dom by auto
    then show ?thesis by (rule order.antisym)
  qed
  moreover have "look m k0 = Some v0" by (rule ring_lookup_found [OF assms(1) old])
  moreover have "look m' k1 = Some v1" by (rule ring_lookup_found [OF assms(2) new])
  ultimately show ?thesis using eq [OF assms(6)] by simp
qed

end

definition smap_first :: "('k, 'v) smap \<Rightarrow> ('k \<times> 'v) option" where
  \<comment> \<open>\<open>begin()\<close>\<close>
  "smap_first m = (case m of [] \<Rightarrow> None | e # _ \<Rightarrow> Some e)"

lemma smap_first_Some:
  "smap_ok m \<Longrightarrow> smap_first m = Some (k', v) \<longleftrightarrow>
     smap_find m k' = Some v \<and> (\<forall>k'' \<in> dom (smap_find m). k' \<le> k'')"
proof (cases m)
  case (Cons e m')
  moreover obtain k0 v0 where "e = (k0, v0)" by (cases e)
  moreover assume "smap_ok m"
  ultimately have m: "m = (k0, v0) # m'" and gt: "\<forall>x \<in> fst ` set m'. k0 < x"
    by (auto simp: smap_ok_Cons)
  have above: "\<And>x. x \<in> dom (smap_find m') \<Longrightarrow> k0 < x"
    using gt by (auto simp: dom_map_of_conv_image_fst)
  show ?thesis
  proof
    assume "smap_find m k' = Some v \<and> (\<forall>k'' \<in> dom (smap_find m). k' \<le> k'')"
    moreover have "k0 \<in> dom (smap_find m)" by (simp add: m)
    ultimately have "k' \<le> k0" "smap_find m k' = Some v" by auto
    then have "k' = k0" using above [of k'] by (auto simp: m dom_def dest: leD split: if_splits)
    with \<open>smap_find m k' = Some v\<close> show "smap_first m = Some (k', v)" by (simp add: m smap_first_def)
  qed (auto simp: m smap_first_def dest!: above)
qed (simp add: smap_first_def)

interpretation smap: ordered_map smap_ok smap_find smap_insert smap_assign smap_erase
  smap_lower_bound smap_first
proof unfold_locales
  show "smap_first m = None \<longleftrightarrow> dom (smap_find m) = {}" if "smap_ok m" for m :: "('a, 'b) smap"
    by (cases m) (auto simp: smap_first_def)
qed (simp_all add: smap_find_insert smap_find_assign smap_find_erase smap_ok_insert smap_ok_assign
  smap_ok_erase smap_lower_bound_None smap_lower_bound_Some smap_first_Some dom_map_of_conv_image_fst)

end
