(* ===== verification/Rpc_Controller.thy ===== *)
theory Rpc_Controller
  imports Net_Addr
begin

text \<open>
  \<open>net/rpc/rpc_controller.{h,cc}\<close>, \<open>net/rpc/rpc_closure.h\<close>, \<open>common/run_time.{h,cc}\<close> and
  \<open>common/error_code.h\<close>: the error codes, the state of one call on either side, the closure that
  ends a call, and the per-thread record of the request being served.
\<close>

section \<open>Error codes\<close>

abbreviation ERROR_PEER_CLOSED :: int where "ERROR_PEER_CLOSED \<equiv> 10000000"
abbreviation ERROR_FAILED_CONNECT :: int where "ERROR_FAILED_CONNECT \<equiv> 10000001"
abbreviation ERROR_FAILED_GET_REPLY :: int where "ERROR_FAILED_GET_REPLY \<equiv> 10000002"
abbreviation ERROR_FAILED_DESERIALIZE :: int where "ERROR_FAILED_DESERIALIZE \<equiv> 10000003"
abbreviation ERROR_FAILED_SERIALIZE :: int where "ERROR_FAILED_SERIALIZE \<equiv> 10000004"
abbreviation ERROR_FAILED_ENCODE :: int where "ERROR_FAILED_ENCODE \<equiv> 10000005"
abbreviation ERROR_FAILED_DECODE :: int where "ERROR_FAILED_DECODE \<equiv> 10000006"
abbreviation ERROR_RPC_CALL_TIMEOUT :: int where "ERROR_RPC_CALL_TIMEOUT \<equiv> 10000007"
abbreviation ERROR_SERVICE_NOT_FOUND :: int where "ERROR_SERVICE_NOT_FOUND \<equiv> 10000008"
abbreviation ERROR_METHOD_NOT_FOUND :: int where "ERROR_METHOD_NOT_FOUND \<equiv> 10000009"
abbreviation ERROR_PARSE_SERVICE_NAME :: int where "ERROR_PARSE_SERVICE_NAME \<equiv> 10000010"
abbreviation ERROR_RPC_CHANNEL_INIT :: int where "ERROR_RPC_CHANNEL_INIT \<equiv> 10000011"
abbreviation ERROR_RPC_PEER_ADDR :: int where "ERROR_RPC_PEER_ADDR \<equiv> 10000012"

section \<open>The controller\<close>

record rpc_controller =
  rc_error_code :: int
  rc_error_info :: string
  rc_msg_id :: string
  rc_is_failed :: bool
  rc_is_canceled :: bool
  rc_is_finished :: bool
  rc_local_addr :: "ip_net_addr option"
  rc_peer_addr :: "ip_net_addr option"
  rc_timeout :: int
  rc_max_retry :: int

definition rpc_controller_new :: rpc_controller where
  "rpc_controller_new = \<lparr>rc_error_code = 0, rc_error_info = [], rc_msg_id = [],
     rc_is_failed = False, rc_is_canceled = False, rc_is_finished = False,
     rc_local_addr = None, rc_peer_addr = None, rc_timeout = 1000, rc_max_retry = 2\<rparr>"

definition Reset :: "rpc_controller \<Rightarrow> rpc_controller" where
  "Reset c = c\<lparr>rc_error_code := 0, rc_error_info := [], rc_msg_id := [],
     rc_is_failed := False, rc_is_canceled := False, rc_is_finished := False,
     rc_local_addr := None, rc_peer_addr := None, rc_timeout := 1000\<rparr>"

definition Failed :: "rpc_controller \<Rightarrow> bool" where "Failed c = rc_is_failed c"

definition ErrorText :: "rpc_controller \<Rightarrow> string" where "ErrorText c = rc_error_info c"

definition SetFinished :: "bool \<Rightarrow> rpc_controller \<Rightarrow> rpc_controller" where
  "SetFinished v c = c\<lparr>rc_is_finished := v\<rparr>"

definition StartCancel :: "rpc_controller \<Rightarrow> rpc_controller" where
  "StartCancel c = SetFinished True (c\<lparr>rc_is_canceled := True, rc_is_failed := True\<rparr>)"

definition SetFailed :: "string \<Rightarrow> rpc_controller \<Rightarrow> rpc_controller" where
  "SetFailed reason c = c\<lparr>rc_error_info := reason, rc_is_failed := True\<rparr>"

definition IsCanceled :: "rpc_controller \<Rightarrow> bool" where "IsCanceled c = rc_is_canceled c"

definition NotifyOnCancel :: "'cb \<Rightarrow> rpc_controller \<Rightarrow> rpc_controller" where
  \<comment> \<open>the callback is dropped\<close>
  "NotifyOnCancel callback c = c"

definition SetError :: "int \<Rightarrow> string \<Rightarrow> rpc_controller \<Rightarrow> rpc_controller" where
  "SetError code reason c = c\<lparr>rc_error_code := code, rc_error_info := reason, rc_is_failed := True\<rparr>"

definition GetErrorCode :: "rpc_controller \<Rightarrow> int" where "GetErrorCode c = rc_error_code c"

definition GetErrorInfo :: "rpc_controller \<Rightarrow> string" where "GetErrorInfo c = rc_error_info c"

definition SetMsgId :: "string \<Rightarrow> rpc_controller \<Rightarrow> rpc_controller" where
  "SetMsgId i c = c\<lparr>rc_msg_id := i\<rparr>"

definition GetMsgId :: "rpc_controller \<Rightarrow> string" where "GetMsgId c = rc_msg_id c"

definition SetLocalAddr :: "ip_net_addr option \<Rightarrow> rpc_controller \<Rightarrow> rpc_controller" where
  "SetLocalAddr a c = c\<lparr>rc_local_addr := a\<rparr>"

definition SetPeerAddr :: "ip_net_addr option \<Rightarrow> rpc_controller \<Rightarrow> rpc_controller" where
  "SetPeerAddr a c = c\<lparr>rc_peer_addr := a\<rparr>"

definition GetLocalAddr :: "rpc_controller \<Rightarrow> ip_net_addr option" where
  "GetLocalAddr c = rc_local_addr c"

definition GetPeerAddr :: "rpc_controller \<Rightarrow> ip_net_addr option" where
  "GetPeerAddr c = rc_peer_addr c"

definition SetTimeout :: "int \<Rightarrow> rpc_controller \<Rightarrow> rpc_controller" where
  "SetTimeout t c = c\<lparr>rc_timeout := t\<rparr>"

definition GetTimeout :: "rpc_controller \<Rightarrow> int" where "GetTimeout c = rc_timeout c"

definition Finished :: "rpc_controller \<Rightarrow> bool" where "Finished c = rc_is_finished c"

definition GetMaxRetry :: "rpc_controller \<Rightarrow> int" where "GetMaxRetry c = rc_max_retry c"

definition SetMaxRetry :: "int \<Rightarrow> rpc_controller \<Rightarrow> rpc_controller" where
  "SetMaxRetry n c = c\<lparr>rc_max_retry := n\<rparr>"

lemmas controller_defs = Reset_def Failed_def ErrorText_def SetFinished_def StartCancel_def
  SetFailed_def IsCanceled_def NotifyOnCancel_def SetError_def GetErrorCode_def GetErrorInfo_def
  SetMsgId_def GetMsgId_def SetLocalAddr_def SetPeerAddr_def GetLocalAddr_def GetPeerAddr_def
  SetTimeout_def GetTimeout_def Finished_def GetMaxRetry_def SetMaxRetry_def

section \<open>The calls on a controller\<close>

text \<open>Every state-changing call of the class, and what a history of calls says about each
  field: the latest call that mentions the field.\<close>

datatype controller_call =
    Call_Reset | Call_StartCancel | Call_SetFailed string | Call_SetError int string
  | Call_SetMsgId string | Call_SetLocalAddr "ip_net_addr option"
  | Call_SetPeerAddr "ip_net_addr option" | Call_SetTimeout int | Call_SetFinished bool
  | Call_SetMaxRetry int | Call_NotifyOnCancel

fun controller_step :: "controller_call \<Rightarrow> rpc_controller \<Rightarrow> rpc_controller" where
  "controller_step Call_Reset = Reset"
| "controller_step Call_StartCancel = StartCancel"
| "controller_step (Call_SetFailed s) = SetFailed s"
| "controller_step (Call_SetError n s) = SetError n s"
| "controller_step (Call_SetMsgId i) = SetMsgId i"
| "controller_step (Call_SetLocalAddr a) = SetLocalAddr a"
| "controller_step (Call_SetPeerAddr a) = SetPeerAddr a"
| "controller_step (Call_SetTimeout t) = SetTimeout t"
| "controller_step (Call_SetFinished v) = SetFinished v"
| "controller_step (Call_SetMaxRetry n) = SetMaxRetry n"
| "controller_step Call_NotifyOnCancel = NotifyOnCancel ()"

fun failing_call :: "controller_call \<Rightarrow> bool" where
  "failing_call Call_StartCancel = True"
| "failing_call (Call_SetFailed s) = True"
| "failing_call (Call_SetError n s) = True"
| "failing_call _ = False"

definition first_of :: "('a \<Rightarrow> 'b option) \<Rightarrow> 'b \<Rightarrow> 'a list \<Rightarrow> 'b" where
  \<comment> \<open>what the first element of the list says that says anything, or the default\<close>
  "first_of f d xs = (case List.map_filter f xs of [] \<Rightarrow> d | y # _ \<Rightarrow> y)"

definition says_code :: "controller_call \<Rightarrow> int option" where
  "says_code x = (case x of Call_SetError n _ \<Rightarrow> Some n | _ \<Rightarrow> None)"

definition says_info :: "controller_call \<Rightarrow> string option" where
  "says_info x = (case x of Call_SetError _ s \<Rightarrow> Some s | Call_SetFailed s \<Rightarrow> Some s | _ \<Rightarrow> None)"

definition says_finished :: "controller_call \<Rightarrow> bool option" where
  "says_finished x = (case x of Call_SetFinished v \<Rightarrow> Some v | Call_StartCancel \<Rightarrow> Some True | _ \<Rightarrow> None)"

definition says_msg_id :: "controller_call \<Rightarrow> string option" where
  "says_msg_id x = (case x of Call_SetMsgId i \<Rightarrow> Some i | _ \<Rightarrow> None)"

definition says_timeout :: "controller_call \<Rightarrow> int option" where
  "says_timeout x = (case x of Call_SetTimeout n \<Rightarrow> Some n | _ \<Rightarrow> None)"

definition says_local :: "controller_call \<Rightarrow> ip_net_addr option option" where
  "says_local x = (case x of Call_SetLocalAddr a \<Rightarrow> Some a | _ \<Rightarrow> None)"

definition says_peer :: "controller_call \<Rightarrow> ip_net_addr option option" where
  "says_peer x = (case x of Call_SetPeerAddr a \<Rightarrow> Some a | _ \<Rightarrow> None)"

definition says_max_retry :: "controller_call \<Rightarrow> int option" where
  "says_max_retry x = (case x of Call_SetMaxRetry n \<Rightarrow> Some n | _ \<Rightarrow> None)"

lemmas says_defs = says_code_def says_info_def says_finished_def says_msg_id_def says_timeout_def
  says_local_def says_peer_def says_max_retry_def

lemma first_of_simps [simp]:
  "first_of f d [] = d"
  "first_of f d (x # xs) = (case f x of None \<Rightarrow> first_of f d xs | Some y \<Rightarrow> y)"
  by (simp_all add: first_of_def map_filter_simps split: option.splits)

definition since_reset :: "controller_call list \<Rightarrow> controller_call list" where
  \<comment> \<open>the calls after the last \<open>Reset\<close>, the latest one first\<close>
  "since_reset calls = takeWhile (\<lambda>x. x \<noteq> Call_Reset) (rev calls)"

lemma since_reset_simps [simp]:
  "since_reset [] = []"
  "since_reset (xs @ [x]) = (if x = Call_Reset then [] else x # since_reset xs)"
  by (simp_all add: since_reset_def)

lemma controller_fields:
  assumes "c = fold controller_step calls rpc_controller_new"
  shows "c = \<lparr>rc_error_code = first_of says_code 0 (since_reset calls),
    rc_error_info = first_of says_info [] (since_reset calls),
    rc_msg_id = first_of says_msg_id [] (since_reset calls),
    rc_is_failed = list_ex failing_call (since_reset calls),
    rc_is_canceled = (Call_StartCancel \<in> set (since_reset calls)),
    rc_is_finished = first_of says_finished False (since_reset calls),
    rc_local_addr = first_of says_local None (since_reset calls),
    rc_peer_addr = first_of says_peer None (since_reset calls),
    rc_timeout = first_of says_timeout 1000 (since_reset calls),
    rc_max_retry = first_of says_max_retry 2 (rev calls)\<rparr>"
  using assms
proof (induction calls arbitrary: c rule: rev_induct)
  case Nil
  then show ?case by (simp add: rpc_controller_new_def)
next
  case (snoc x xs)
  from snoc.IH [OF refl] snoc.prems show ?case
    by (cases x) (simp_all add: controller_defs says_defs)
qed

text \<open>C17. Whatever calls were made on a controller, what it reports is fixed by their order: it
  reports failure exactly when, since the last \<open>Reset\<close>, one of \<open>SetError\<close>, \<open>SetFailed\<close> or
  \<open>StartCancel\<close> was called, and cancellation exactly when \<open>StartCancel\<close> was; its error
  code is that of the latest \<open>SetError\<close> since then (0 without one), its error text that of the
  latest \<open>SetError\<close> or \<open>SetFailed\<close>, it is finished when the latest of \<open>SetFinished\<close> and
  \<open>StartCancel\<close> says so, and id, addresses and timeout (1000 without a call) are those last set
  since then. Only the retry limit survives a \<open>Reset\<close>: it is the one of the latest \<open>SetMaxRetry\<close>
  of the whole history, before or after any \<open>Reset\<close>, and 2 when there is none.\<close>

theorem controller_history:
  assumes "c = fold controller_step calls rpc_controller_new"
  shows "(Failed c \<longleftrightarrow> (\<exists>x \<in> set (since_reset calls). failing_call x)) \<and>
         (IsCanceled c \<longleftrightarrow> Call_StartCancel \<in> set (since_reset calls)) \<and>
         GetErrorCode c = first_of says_code 0 (since_reset calls) \<and>
         GetErrorInfo c = first_of says_info [] (since_reset calls) \<and>
         ErrorText c = GetErrorInfo c \<and>
         Finished c = first_of says_finished False (since_reset calls) \<and>
         GetMsgId c = first_of says_msg_id [] (since_reset calls) \<and>
         GetLocalAddr c = first_of says_local None (since_reset calls) \<and>
         GetPeerAddr c = first_of says_peer None (since_reset calls) \<and>
         GetTimeout c = first_of says_timeout 1000 (since_reset calls) \<and>
         GetMaxRetry c = first_of says_max_retry 2 (rev calls)"
  by (subst controller_fields [OF assms])+ (simp add: controller_defs list_ex_iff)

theorem controller_history_witness:
  "let c = fold controller_step
     [Call_SetMaxRetry 5, Call_StartCancel, Call_Reset,
      Call_SetError ERROR_RPC_CALL_TIMEOUT ''rpc call timeout'', Call_SetFailed ''late''] rpc_controller_new in
   Failed c \<and> \<not> IsCanceled c \<and> \<not> Finished c \<and> GetErrorCode c = ERROR_RPC_CALL_TIMEOUT \<and>
   GetErrorInfo c = ''late'' \<and> GetTimeout c = 1000 \<and> GetMaxRetry c = 5"
  using controller_history [OF refl, of "[Call_SetMaxRetry 5, Call_StartCancel, Call_Reset,
      Call_SetError ERROR_RPC_CALL_TIMEOUT ''rpc call timeout'', Call_SetFailed ''late'']"]
  by (simp add: since_reset_def says_defs Let_def del: fold_simps)

section \<open>The closure and the run time\<close>

definition RpcClosure_Run :: "('s \<Rightarrow> 's) option \<Rightarrow> 's \<Rightarrow> 's" where
  \<comment> \<open>\<open>Run\<close> of a closure around \<open>m_cb\<close>, on the state the callback works on\<close>
  "RpcClosure_Run m_cb s = (case m_cb of None \<Rightarrow> s | Some cb \<Rightarrow> cb s)"

record run_time =
  rt_msgid :: string
  rt_method_name :: string

definition GetRunTime :: "run_time option \<Rightarrow> run_time \<times> run_time option" where
  \<comment> \<open>the thread's \<open>t_run_time\<close>: created empty on first use\<close>
  "GetRunTime t = (case t of Some r \<Rightarrow> (r, t)
     | None \<Rightarrow> let r = \<lparr>rt_msgid = [], rt_method_name = []\<rparr> in (r, Some r))"

end
