(* ===== verification/Rpc_Dispatcher.thy ===== *)
theory Rpc_Dispatcher
  imports TinyPB_Coder Rpc_Controller Std_Map
begin

text \<open>
  \<open>net/rpc/rpc_dispatcher.{h,cc}\<close>: the table of registered services, the split of a full method
  name, the dispatch of one request, and the registration with its ZooKeeper nodes.  A
  \<open>google::protobuf::Service\<close> is generated code and an argument: its name, its methods, how it parses
  a request, what it hands to \<open>done->Run()\<close> (one response per run; none when it never runs it) and
  how a response serialises.  The connection is an argument too: \<open>reply\<close> acts on its state.  The
  interface \<open>reply_channel\<close> is what the dispatcher relies on.
\<close>

section \<open>Services\<close>

record ('q, 'r) rpc_service =
  sv_name :: string
  sv_methods :: "string list"
  sv_parse :: "string \<Rightarrow> string \<Rightarrow> 'q option"
  sv_call :: "string \<Rightarrow> rpc_controller \<Rightarrow> 'q \<Rightarrow> 'r list"
  sv_serialize :: "'r \<Rightarrow> bool \<times> string"

record ('q, 'r) service_info =
  m_service :: "('q, 'r) rpc_service"
  m_methodMap :: "string list"

type_synonym ('q, 'r) service_map = "(string, ('q, 'r) service_info) smap"

definition FindMethodByName :: "('q, 'r) rpc_service \<Rightarrow> string \<Rightarrow> string option" where
  "FindMethodByName service name = (if name \<in> set (sv_methods service) then Some name else None)"

section \<open>Dispatch\<close>

definition parseServiceFullName :: "string \<Rightarrow> (string \<times> string) option" where
  "parseServiceFullName full_name = (if full_name = [] then None else cut_at (CHR ''.'') full_name)"

definition setTinyPBError :: "int \<Rightarrow> string \<Rightarrow> tinypb \<Rightarrow> tinypb" where
  "setTinyPBError err_code err_text msg =
     msg\<lparr>m_err_code := err_code, m_err_info := err_text, m_err_info_len := wrap32 (int (length err_text))\<rparr>"

definition closure_response :: "('q, 'r) rpc_service \<Rightarrow> 'r \<Rightarrow> tinypb \<Rightarrow> tinypb" where
  \<comment> \<open>what the closure writes into \<open>rsp_protocol\<close> before it replies\<close>
  "closure_response service rsp_msg rsp_protocol =
     (let (done_ok, data) = sv_serialize service rsp_msg;
          rsp_protocol = rsp_protocol\<lparr>m_pb_data := data\<rparr>
      in if \<not> done_ok then setTinyPBError ERROR_FAILED_SERIALIZE ''serilize error'' rsp_protocol
         else rsp_protocol\<lparr>m_err_code := 0, m_err_info := []\<rparr>)"

definition run_closure ::
  "(tinypb list \<Rightarrow> 'c \<Rightarrow> (tinypb list \<times> 'c) res) \<Rightarrow> ('q, 'r) rpc_service \<Rightarrow> 'r \<Rightarrow>
   tinypb \<times> 'c \<Rightarrow> (tinypb \<times> 'c) res" where
  "run_closure reply service rsp_msg = (\<lambda>(rsp_protocol, connection).
     bind_res (reply [closure_response service rsp_msg rsp_protocol] connection) (\<lambda>(msgs, connection).
     Inr (hd msgs, connection)))"

definition dispatch_controller ::
  "ip_net_addr option \<Rightarrow> ip_net_addr option \<Rightarrow> tinypb \<Rightarrow> rpc_controller" where
  "dispatch_controller local_addr peer_addr req_protocol =
     SetMsgId (m_msg_id req_protocol) (SetPeerAddr peer_addr (SetLocalAddr local_addr rpc_controller_new))"

definition dispatch ::
  "(tinypb list \<Rightarrow> 'c \<Rightarrow> (tinypb list \<times> 'c) res) \<Rightarrow> ip_net_addr option \<Rightarrow> ip_net_addr option \<Rightarrow>
   ('q, 'r) service_map \<Rightarrow> tinypb \<Rightarrow> tinypb \<Rightarrow> 'c \<times> run_time option \<Rightarrow>
   (tinypb \<times> 'c \<times> run_time option) res" where
  "dispatch reply local_addr peer_addr service_map req_protocol rsp_protocol = (\<lambda>(connection, rt).
     let rsp_protocol = rsp_protocol\<lparr>m_msg_id := m_msg_id req_protocol,
                                     m_method_name := m_method_name req_protocol\<rparr> in
     case parseServiceFullName (m_method_name req_protocol) of
       None \<Rightarrow> Inr (setTinyPBError ERROR_PARSE_SERVICE_NAME ''parse service name error'' rsp_protocol,
                    connection, rt)
     | Some (service_name, method_name) \<Rightarrow>
     case smap_find service_map service_name of
       None \<Rightarrow> Inr (setTinyPBError ERROR_SERVICE_NOT_FOUND ''service not found'' rsp_protocol, connection, rt)
     | Some si \<Rightarrow>
     case FindMethodByName (m_service si) method_name of
       None \<Rightarrow> Inr (setTinyPBError ERROR_SERVICE_NOT_FOUND ''method not found'' rsp_protocol, connection, rt)
     | Some meth \<Rightarrow>
     case sv_parse (m_service si) meth (m_pb_data req_protocol) of
       None \<Rightarrow> Inr (setTinyPBError ERROR_FAILED_DESERIALIZE ''deserilize error'' rsp_protocol, connection, rt)
     | Some req_msg \<Rightarrow>
         let rpcController = dispatch_controller local_addr peer_addr req_protocol;
             rt = Some ((fst (GetRunTime rt))\<lparr>rt_msgid := m_msg_id req_protocol, rt_method_name := method_name\<rparr>)
         in bind_res (fold_res (run_closure reply (m_service si))
                        (sv_call (m_service si) meth rpcController req_msg) (rsp_protocol, connection))
              (\<lambda>(rsp_protocol, connection). Inr (rsp_protocol, connection, rt)))"

section \<open>Registration\<close>

datatype zk_call = Zk_Start | Zk_Create string "string option" bool \<comment> \<open>path, data, ephemeral\<close>

definition service_info_of :: "('q, 'r) rpc_service \<Rightarrow> ('q, 'r) service_info" where
  \<comment> \<open>the method map keeps one entry per name\<close>
  "service_info_of service = \<lparr>m_service = service, m_methodMap =
     fold (\<lambda>m ms. if m \<in> set ms then ms else ms @ [m]) (sv_methods service) []\<rparr>"

definition method_path_data :: "string \<Rightarrow> int \<Rightarrow> string res" where
  \<comment> \<open>\<open>sprintf\<close> into \<open>char[128]\<close>\<close>
  "method_path_data ip port =
     (let s = ip @ '':'' @ to_string port in if length s < 128 then Inr s else Inl Out_Of_Bounds)"

definition register_nodes ::
  "(string list \<Rightarrow> string list) \<Rightarrow> string \<Rightarrow> int \<Rightarrow> string \<times> ('q, 'r) service_info \<Rightarrow>
   zk_call list \<Rightarrow> zk_call list res" where
  "register_nodes umap_order ip port = (\<lambda>(name, si) zk.
     let service_path = ''/'' @ name in
     fold_res (\<lambda>m zk. bind_res (method_path_data ip port) (\<lambda>d.
         Inr (zk @ [Zk_Create (service_path @ ''/'' @ m) (Some d) True])))
       (umap_order (m_methodMap si)) (zk @ [Zk_Create service_path None False]))"

definition registerService ::
  "(string list \<Rightarrow> string list) \<Rightarrow> string \<Rightarrow> int \<Rightarrow> ('q, 'r) rpc_service \<Rightarrow>
   ('q, 'r) service_map \<times> zk_call list \<Rightarrow> (('q, 'r) service_map \<times> zk_call list) res" where
  \<comment> \<open>\<open>umap_order\<close> is the iteration order of the \<open>unordered_map\<close>, \<open>ip\<close> and \<open>port\<close> the configured ones\<close>
  "registerService umap_order ip port service = (\<lambda>(service_map, zk).
     let service_map = smap_insert (sv_name service) (service_info_of service) service_map in
     bind_res (fold_res (register_nodes umap_order ip port) service_map (zk @ [Zk_Start])) (\<lambda>zk.
     Inr (service_map, zk)))"

section \<open>The connection the dispatcher replies through\<close>

locale reply_channel =
  fixes reply :: "tinypb list \<Rightarrow> 'c \<Rightarrow> (tinypb list \<times> 'c) res"
    and ok :: "'c \<Rightarrow> bool"
    and queued :: "'c \<Rightarrow> char list"
    and room :: "'c \<Rightarrow> int"
  assumes reply_law:
    "ok c \<Longrightarrow> (\<Sum>m\<leftarrow>ms. packet_length (with_msg_id m)) \<le> room c \<Longrightarrow>
       \<exists>c'. reply ms c = Inr (map sent ms, c') \<and> ok c' \<and>
            queued c' = queued c @ concat (map (\<lambda>m. packet (with_msg_id m)) ms) \<and>
            room c - (\<Sum>m\<leftarrow>ms. packet_length (with_msg_id m)) \<le> room c'"
begin

lemma reply_one:
  assumes "ok c" and "packet_length (with_msg_id m) \<le> room c"
  obtains c' where "reply [m] c = Inr ([sent m], c')" and "ok c'"
    and "queued c' = queued c @ packet (with_msg_id m)"
    and "room c - packet_length (with_msg_id m) \<le> room c'"
  using reply_law [of c "[m]"] assms by auto

end

lemma closure_response_fields [simp]:
  "m_msg_id (closure_response s v m) = m_msg_id m"
  "m_method_name (closure_response s v m) = m_method_name m"
  by (simp_all add: closure_response_def setTinyPBError_def Let_def split: prod.split)

lemma with_msg_id_closure:
  "m_msg_id (with_msg_id (closure_response s v m)) = m_msg_id (with_msg_id m)"
  by (simp add: with_msg_id_def)

lemma closure_response_again:
  \<comment> \<open>a second run of the closure sends what it would have sent on the untouched response\<close>
  "m_msg_id (with_msg_id m') = m_msg_id (with_msg_id m) \<Longrightarrow> m_method_name m' = m_method_name m \<Longrightarrow>
   packet (with_msg_id (closure_response s v m')) = packet (with_msg_id (closure_response s v m)) \<and>
   packet_length (with_msg_id (closure_response s v m')) = packet_length (with_msg_id (closure_response s v m))"
  by (auto simp: packet_def packet_length_def with_msg_id_closure)
    (auto simp: closure_response_def setTinyPBError_def Let_def split: prod.splits)

context reply_channel
begin

lemma run_closures:
  assumes "ok c" and "(\<Sum>v\<leftarrow>vs. packet_length (with_msg_id (closure_response s v m))) \<le> room c"
  shows "\<exists>m' c'. fold_res (run_closure reply s) vs (m, c) = Inr (m', c') \<and> ok c' \<and>
           m' = (if vs = [] then m else m') \<and>
           m_msg_id (with_msg_id m') = m_msg_id (with_msg_id m) \<and> m_method_name m' = m_method_name m \<and>
           queued c' = queued c @ concat (map (\<lambda>v. packet (with_msg_id (closure_response s v m))) vs) \<and>
           room c - (\<Sum>v\<leftarrow>vs. packet_length (with_msg_id (closure_response s v m))) \<le> room c' \<and>
           (vs \<noteq> [] \<longrightarrow> packet (with_msg_id m') = packet (with_msg_id (closure_response s (last vs) m)) \<and>
              packet_length (with_msg_id m') = packet_length (with_msg_id (closure_response s (last vs) m)))"
  using assms
proof (induction vs arbitrary: m c)
  case (Cons v vs)
  let ?r = "closure_response s v m"
  have rest: "0 \<le> (\<Sum>v\<leftarrow>vs. packet_length (with_msg_id (closure_response s v m)))"
    by (intro sum_list_nonneg) auto
  with Cons.prems(2) have "packet_length (with_msg_id ?r) \<le> room c" by simp
  from reply_one [OF Cons.prems(1) this] obtain c1 where
    c1: "reply [?r] c = Inr ([sent ?r], c1)" "ok c1" "queued c1 = queued c @ packet (with_msg_id ?r)"
      "room c - packet_length (with_msg_id ?r) \<le> room c1" .
  have m1: "m_msg_id (with_msg_id (sent ?r)) = m_msg_id (with_msg_id m)"
    "m_method_name (sent ?r) = m_method_name m"
    by (simp_all add: sent_def with_msg_id_def)
  note again = closure_response_again [OF m1]
  have pk: "packet (with_msg_id (sent ?r)) = packet (with_msg_id ?r)"
    "packet_length (with_msg_id (sent ?r)) = packet_length (with_msg_id ?r)"
    by (simp_all add: sent_def with_msg_id_def packet_def packet_length_def)
  have "(\<Sum>v\<leftarrow>vs. packet_length (with_msg_id (closure_response s v (sent ?r)))) \<le> room c1"
    using Cons.prems(2) c1(4) by (simp add: again)
  from Cons.IH [OF c1(2) this] obtain m' c' where IH:
    "fold_res (run_closure reply s) vs (sent ?r, c1) = Inr (m', c')" "ok c'"
    "vs = [] \<Longrightarrow> m' = sent ?r"
    "m_msg_id (with_msg_id m') = m_msg_id (with_msg_id m)" "m_method_name m' = m_method_name m"
    "queued c' = queued c1 @ concat (map (\<lambda>v. packet (with_msg_id (closure_response s v (sent ?r)))) vs)"
    "room c1 - (\<Sum>v\<leftarrow>vs. packet_length (with_msg_id (closure_response s v (sent ?r)))) \<le> room c'"
    "vs \<noteq> [] \<Longrightarrow> packet (with_msg_id m') = packet (with_msg_id (closure_response s (last vs) (sent ?r)))"
    "vs \<noteq> [] \<Longrightarrow> packet_length (with_msg_id m') = packet_length (with_msg_id (closure_response s (last vs) (sent ?r)))"
    using m1 by (auto split: if_splits)
  have "fold_res (run_closure reply s) (v # vs) (m, c) = Inr (m', c')"
    using c1(1) IH(1) by (simp add: run_closure_def)
  moreover have "packet (with_msg_id m') = packet (with_msg_id (closure_response s (last (v # vs)) m)) \<and>
      packet_length (with_msg_id m') = packet_length (with_msg_id (closure_response s (last (v # vs)) m))"
    using IH(3,8,9) pk by (cases "vs = []") (auto simp: again)
  ultimately show ?case using IH(2,4,5,6,7) c1(3,4) m1 by (auto simp: again)
qed simp

end

text \<open>
  The specification of \<open>dispatch\<close>: the messages it replies while the method runs, and the response
  it leaves.
\<close>

definition dispatch_outcome ::
  "ip_net_addr option \<Rightarrow> ip_net_addr option \<Rightarrow> ('q, 'r) service_map \<Rightarrow> tinypb \<Rightarrow> tinypb list \<times> tinypb" where
  "dispatch_outcome local_addr peer_addr services req =
     (let base = tinypb_new\<lparr>m_msg_id := m_msg_id req, m_method_name := m_method_name req\<rparr> in
      case parseServiceFullName (m_method_name req) of
        None \<Rightarrow> ([], setTinyPBError ERROR_PARSE_SERVICE_NAME ''parse service name error'' base)
      | Some (service_name, method_name) \<Rightarrow>
      case smap_find services service_name of
        None \<Rightarrow> ([], setTinyPBError ERROR_SERVICE_NOT_FOUND ''service not found'' base)
      | Some si \<Rightarrow>
      case FindMethodByName (m_service si) method_name of
        None \<Rightarrow> ([], setTinyPBError ERROR_SERVICE_NOT_FOUND ''method not found'' base)
      | Some meth \<Rightarrow>
      case sv_parse (m_service si) meth (m_pb_data req) of
        None \<Rightarrow> ([], setTinyPBError ERROR_FAILED_DESERIALIZE ''deserilize error'' base)
      | Some q \<Rightarrow>
          let rs = map (\<lambda>v. closure_response (m_service si) v base)
                     (sv_call (m_service si) meth (dispatch_controller local_addr peer_addr req) q)
          in (rs, if rs = [] then base else last rs))"

context reply_channel
begin

lemma dispatch_refines:
  assumes "ok c" and "dispatch_outcome la pa services req = (rs, final)"
    and "(\<Sum>m\<leftarrow>rs. packet_length (with_msg_id m)) \<le> room c"
  shows "\<exists>rsp c' rt'. dispatch reply la pa services req tinypb_new (c, rt) = Inr (rsp, c', rt') \<and> ok c' \<and>
           queued c' = queued c @ concat (map (\<lambda>m. packet (with_msg_id m)) rs) \<and>
           room c - (\<Sum>m\<leftarrow>rs. packet_length (with_msg_id m)) \<le> room c' \<and>
           packet (with_msg_id rsp) = packet (with_msg_id final) \<and>
           packet_length (with_msg_id rsp) = packet_length (with_msg_id final)"
proof -
  let ?base = "tinypb_new\<lparr>m_msg_id := m_msg_id req, m_method_name := m_method_name req\<rparr>"
  show ?thesis
  proof (cases "\<exists>sn mn si q. parseServiceFullName (m_method_name req) = Some (sn, mn) \<and>
      smap_find services sn = Some si \<and> FindMethodByName (m_service si) mn = Some mn \<and>
      sv_parse (m_service si) mn (m_pb_data req) = Some q")
    case False
    then show ?thesis
      using assms
      by (auto simp: dispatch_def dispatch_outcome_def FindMethodByName_def Let_def
          split: option.splits prod.splits if_splits)
  next
    case True
    then obtain sn mn si q where found: "parseServiceFullName (m_method_name req) = Some (sn, mn)"
      "smap_find services sn = Some si" "FindMethodByName (m_service si) mn = Some mn"
      "sv_parse (m_service si) mn (m_pb_data req) = Some q" by blast
    let ?vs = "sv_call (m_service si) mn (dispatch_controller la pa req) q"
    let ?f = "\<lambda>v. closure_response (m_service si) v ?base"
    have "dispatch_outcome la pa services req =
        (map ?f ?vs, if map ?f ?vs = [] then ?base else last (map ?f ?vs))"
      using found by (simp add: dispatch_outcome_def Let_def)
    then have pair: "rs = map ?f ?vs \<and>
        final = (if map ?f ?vs = [] then ?base else last (map ?f ?vs))"
      using assms(2) by (simp only: prod.inject)
    then have rs: "rs = map ?f ?vs" by (rule conjunct1)
    have "final = (if rs = [] then ?base else last rs)" using pair unfolding rs by (rule conjunct2)
    note rs = rs this
    have last: "?vs \<noteq> [] \<Longrightarrow> final = ?f (last ?vs)" using rs by (simp add: last_map)
    have "(\<Sum>v\<leftarrow>?vs. packet_length (with_msg_id (?f v))) \<le> room c" using assms(3) rs(1) by (simp add: comp_def)
    from run_closures [OF assms(1) this] obtain m' c' where run:
      "fold_res (run_closure reply (m_service si)) ?vs (?base, c) = Inr (m', c')" "ok c'"
      "?vs = [] \<Longrightarrow> m' = ?base"
      "queued c' = queued c @ concat (map (\<lambda>v. packet (with_msg_id (?f v))) ?vs)"
      "room c - (\<Sum>v\<leftarrow>?vs. packet_length (with_msg_id (?f v))) \<le> room c'"
      "?vs \<noteq> [] \<Longrightarrow> packet (with_msg_id m') = packet (with_msg_id (?f (last ?vs)))"
      "?vs \<noteq> [] \<Longrightarrow> packet_length (with_msg_id m') = packet_length (with_msg_id (?f (last ?vs)))"
      by (auto split: if_splits)
    have "packet (with_msg_id m') = packet (with_msg_id final) \<and>
        packet_length (with_msg_id m') = packet_length (with_msg_id final)"
      using run(3,6,7) last rs by (cases "?vs = []") auto
    with run(1,2,4,5) found show ?thesis
      by (simp add: dispatch_def Let_def rs(1) comp_def)
  qed
qed

end

lemma dispatch_preserves:
  assumes "dispatch reply la pa services req rsp (c, rt) = Inr (rsp', c', rt')" and "P c"
    and "\<And>ms u ms' u'. reply ms u = Inr (ms', u') \<Longrightarrow> P u \<Longrightarrow> P u'"
  shows "P c'"
proof -
  have fold: "P u'" if "fold_res (run_closure reply s) vs (m, u) = Inr (m', u')" "P u" for s vs m u m' u'
    using fold_res_invariant [OF that(1), of "\<lambda>(m, u). P u"] that(2) assms(3)
    by (fastforce simp: run_closure_def bind_res_eq_Inr)
  show ?thesis
    using assms(1,2) fold
    by (auto simp: dispatch_def Let_def bind_res_eq_Inr split: option.splits prod.splits)
qed

section \<open>Refused requests\<close>

definition refusal :: "tinypb \<Rightarrow> tinypb \<Rightarrow> int \<Rightarrow> string \<Rightarrow> tinypb" where
  "refusal req rsp code err_text = rsp\<lparr>m_msg_id := m_msg_id req, m_method_name := m_method_name req,
     m_err_code := code, m_err_info := err_text, m_err_info_len := int (length err_text)\<rparr>"

lemma parseServiceFullName_None: "parseServiceFullName n = None \<longleftrightarrow> CHR ''.'' \<notin> set n"
  by (auto simp: parseServiceFullName_def cut_at_None)

lemma parseServiceFullName_Some:
  "parseServiceFullName n = Some (s, m) \<longleftrightarrow> n = s @ ''.'' @ m \<and> CHR ''.'' \<notin> set s"
  by (auto simp: parseServiceFullName_def cut_at_Some)

text \<open>C15. Every refused request gets an error response under its own message id and method name,
  without touching the connection or the thread's run time: a name without a dot, an unknown
  service, a method the service does not have (answered with the service-not-found code: the code
  for a missing method is never used) and a payload that does not parse.\<close>

theorem dispatch_refusals:
  shows "(CHR ''.'' \<notin> set (m_method_name req) \<longrightarrow>
            dispatch reply la pa services req rsp (c, rt) =
              Inr (refusal req rsp ERROR_PARSE_SERVICE_NAME ''parse service name error'', c, rt)) \<and>
         (m_method_name req = s @ ''.'' @ m \<and> CHR ''.'' \<notin> set s \<and> smap_find services s = None \<longrightarrow>
            dispatch reply la pa services req rsp (c, rt) =
              Inr (refusal req rsp ERROR_SERVICE_NOT_FOUND ''service not found'', c, rt)) \<and>
         (m_method_name req = s @ ''.'' @ m \<and> CHR ''.'' \<notin> set s \<and> smap_find services s = Some si \<and>
          m \<notin> set (sv_methods (m_service si)) \<longrightarrow>
            dispatch reply la pa services req rsp (c, rt) =
              Inr (refusal req rsp ERROR_SERVICE_NOT_FOUND ''method not found'', c, rt)) \<and>
         (m_method_name req = s @ ''.'' @ m \<and> CHR ''.'' \<notin> set s \<and> smap_find services s = Some si \<and>
          m \<in> set (sv_methods (m_service si)) \<and> sv_parse (m_service si) m (m_pb_data req) = None \<longrightarrow>
            dispatch reply la pa services req rsp (c, rt) =
              Inr (refusal req rsp ERROR_FAILED_DESERIALIZE ''deserilize error'', c, rt))"
proof -
  have "parseServiceFullName (m_method_name req) = None" if "CHR ''.'' \<notin> set (m_method_name req)"
    using that by (simp add: parseServiceFullName_None)
  moreover have "parseServiceFullName (m_method_name req) = Some (s, m)"
    if "m_method_name req = s @ ''.'' @ m" "CHR ''.'' \<notin> set s"
    using that by (simp add: parseServiceFullName_Some)
  ultimately show ?thesis
    by (auto simp: dispatch_def FindMethodByName_def setTinyPBError_def refusal_def wrap32_in)
qed

theorem dispatch_refusals_witness:
  "dispatch (\<lambda>ms c. Inr (ms, c)) None None ([] :: (unit, unit) service_map)
     (tinypb_new\<lparr>m_method_name := ''Order.makeOrder''\<rparr>) tinypb_new ((), None) =
   Inr (refusal (tinypb_new\<lparr>m_method_name := ''Order.makeOrder''\<rparr>) tinypb_new
     ERROR_SERVICE_NOT_FOUND ''service not found'', (), None)"
  using dispatch_refusals [of "tinypb_new\<lparr>m_method_name := ''Order.makeOrder''\<rparr>" _ _ _
      "[] :: (unit, unit) service_map" tinypb_new "()" None "''Order''" "''makeOrder''"]
  by simp

section \<open>The registered services\<close>

definition node_calls ::
  "(string list \<Rightarrow> string list) \<Rightarrow> string \<Rightarrow> string \<times> ('q, 'r) service_info \<Rightarrow> zk_call list" where
  "node_calls umap_order d = (\<lambda>(name, si). Zk_Create (''/'' @ name) None False #
     map (\<lambda>m. Zk_Create (''/'' @ name @ ''/'' @ m) (Some d) True) (umap_order (m_methodMap si)))"

lemma register_nodes_eq:
  assumes "method_path_data ip port = Inr d"
  shows "register_nodes umap_order ip port e zk = Inr (zk @ node_calls umap_order d e)"
proof -
  obtain name si where e: "e = (name, si)" by (cases e)
  have "fold_res (\<lambda>m zk. bind_res (method_path_data ip port) (\<lambda>d.
          Inr (zk @ [Zk_Create ((''/'' @ name) @ ''/'' @ m) (Some d) True]))) ms zk' =
        Inr (zk' @ map (\<lambda>m. Zk_Create (''/'' @ name @ ''/'' @ m) (Some d) True) ms)" for ms zk'
    by (induction ms arbitrary: zk') (simp_all add: assms)
  then show ?thesis by (simp add: e register_nodes_def node_calls_def)
qed

lemma registerService_eq:
  assumes "method_path_data ip port = Inr d"
  shows "registerService umap_order ip port s (services, zk) =
     (let services = smap_insert (sv_name s) (service_info_of s) services in
      Inr (services, zk @ Zk_Start # concat (map (node_calls umap_order d) services)))"
proof -
  have "fold_res (register_nodes umap_order ip port) kvs zk =
      Inr (zk @ concat (map (node_calls umap_order d) kvs))" for kvs :: "('a, 'b) service_map" and zk
    by (subst fold_res_pure [OF register_nodes_eq [OF assms]]) (simp add: fold_append_map)
  then show ?thesis by (simp add: registerService_def Let_def)
qed

lemma set_methodMap: "set (m_methodMap (service_info_of s)) = set (sv_methods s)"
proof -
  have "set (fold (\<lambda>m ms. if m \<in> set ms then ms else ms @ [m]) xs acc) = set acc \<union> set xs" for xs acc :: "string list"
    by (induction xs arbitrary: acc) auto
  then show ?thesis by (simp add: service_info_of_def)
qed

lemma register_all:
  assumes "method_path_data ip port = Inr d"
  shows "\<exists>zk'. fold_res (registerService umap_order ip port) svs (services, zk) =
           Inr (fold (\<lambda>(k, v). smap_insert k v) (map (\<lambda>s. (sv_name s, service_info_of s)) svs) services, zk') \<and>
           set zk \<subseteq> set zk' \<and>
           (svs \<noteq> [] \<longrightarrow> (\<forall>e \<in> set (fold (\<lambda>(k, v). smap_insert k v)
              (map (\<lambda>s. (sv_name s, service_info_of s)) svs) services). set (node_calls umap_order d e) \<subseteq> set zk'))"
proof (induction svs arbitrary: services zk)
  case (Cons s svs)
  let ?m = "smap_insert (sv_name s) (service_info_of s) services"
  let ?zk = "zk @ Zk_Start # concat (map (node_calls umap_order d) ?m)"
  have step: "registerService umap_order ip port s (services, zk) = Inr (?m, ?zk)"
    by (simp add: registerService_eq [OF assms] Let_def)
  from Cons.IH [of ?m ?zk] show ?case
    by (cases "svs = []") (auto simp: step)
qed simp

text \<open>C16. Registering services one by one never faults as long as the configured address fits its
  buffer; the table then maps every name to the first service registered under it, and ZooKeeper
  has been asked for a permanent node for each registered service and an ephemeral node, holding
  \<open>ip:port\<close>, for each of its methods.\<close>

theorem register_services:
  assumes "length (ip @ '':'' @ to_string port) < 128" and "\<And>ms. set (umap_order ms) = set ms"
  shows "\<exists>services zk. fold_res (registerService umap_order ip port) svs ([], []) = Inr (services, zk) \<and>
           smap_ok services \<and>
           (\<forall>n. map_option m_service (smap_find services n) = find (\<lambda>s. sv_name s = n) svs) \<and>
           (\<forall>s \<in> set svs. Zk_Create (''/'' @ sv_name s) None False \<in> set zk) \<and>
           (\<forall>n si. smap_find services n = Some si \<longrightarrow> (\<forall>m \<in> set (sv_methods (m_service si)).
              Zk_Create (''/'' @ n @ ''/'' @ m) (Some (ip @ '':'' @ to_string port)) True \<in> set zk))"
proof -
  let ?d = "ip @ '':'' @ to_string port"
  let ?kvs = "map (\<lambda>s. (sv_name s, service_info_of s)) svs"
  let ?m = "fold (\<lambda>(k, v). smap_insert k v) ?kvs []"
  have d: "method_path_data ip port = Inr ?d" using assms(1) by (simp add: method_path_data_def)
  obtain zk where zk: "fold_res (registerService umap_order ip port) svs ([], []) = Inr (?m, zk)"
    "svs \<noteq> [] \<Longrightarrow> \<forall>e \<in> set ?m. set (node_calls umap_order ?d e) \<subseteq> set zk"
    using register_all [OF d, of umap_order svs "[]" "[]"] by blast
  have ok: "smap_ok ?m" and find: "smap_find ?m n = map_of ?kvs n" for n
    using smap.ins_all [of "[]" ?kvs n] by simp_all
  have svc: "map_option m_service (map_of ?kvs n) = find (\<lambda>s. sv_name s = n) svs" for n
    by (induction svs) (auto simp: service_info_of_def)
  have nodes: "set (node_calls umap_order ?d (n, si)) \<subseteq> set zk" if "smap_find ?m n = Some si" for n si
    using zk(2) map_of_SomeD [OF that] by (cases "svs = []") auto
  have "Zk_Create (''/'' @ sv_name s) None False \<in> set zk" if "s \<in> set svs" for s
  proof -
    have "map_of ?kvs (sv_name s) \<noteq> None"
      using that unfolding map_of_eq_None_iff by (force simp: image_image)
    then obtain si where "smap_find ?m (sv_name s) = Some si" unfolding find by blast
    from nodes [OF this] show ?thesis by (simp add: node_calls_def)
  qed
  moreover have "Zk_Create (''/'' @ n @ ''/'' @ m) (Some ?d) True \<in> set zk"
    if "smap_find ?m n = Some si" "m \<in> set (sv_methods (m_service si))" for n si m
  proof -
    have "m_methodMap si = m_methodMap (service_info_of (m_service si))"
      using that(1) unfolding find by (auto dest!: map_of_SomeD simp: service_info_of_def)
    with that(2) have "m \<in> set (umap_order (m_methodMap si))" by (simp add: assms(2) set_methodMap)
    with nodes [OF that(1)] show ?thesis by (auto simp: node_calls_def)
  qed
  ultimately show ?thesis using zk(1) ok svc find by (intro exI [of _ ?m] exI [of _ zk]) simp
qed

theorem register_services_witness:
  "\<exists>services zk. fold_res (registerService (\<lambda>ms. ms) ''127.0.0.1'' 12345)
       [\<lparr>sv_name = ''Order'', sv_methods = [''makeOrder''], sv_parse = \<lambda>m s. Some (),
         sv_call = \<lambda>m c q. [()], sv_serialize = \<lambda>r. (True, [])\<rparr>] ([], []) = Inr (services, zk) \<and>
     Zk_Create ''/Order'' None False \<in> set zk"
  using register_services [of "''127.0.0.1''" 12345 "\<lambda>ms. ms"
      "[\<lparr>sv_name = ''Order'', sv_methods = [''makeOrder''], sv_parse = \<lambda>m s. Some (),
         sv_call = \<lambda>m c q. [()], sv_serialize = \<lambda>r. (True, [])\<rparr>]"]
  by (fastforce simp: to_string_def dec.simps)

end
