(* ===== verification/Fd_Event.thy ===== *)
theory Fd_Event
  imports Netrpc_Prelude
begin

text \<open>
  \<open>net/fd_event.{h,cc}\<close> and \<open>net/fd_event_group.{h,cc}\<close>: what an event loop knows of a file
  descriptor, and the process-wide table of these objects.  A \<open>std::function\<close> is named by the
  constructor of \<open>callback\<close> for the member function it is bound to; \<open>nullptr\<close> is \<open>None\<close>.
\<close>

unbundle bit_operations_syntax

datatype callback =
    TcpConnection_onRead int     \<comment> \<open>bound to the connection on this descriptor\<close>
  | TcpConnection_onWrite int
  | TcpServer_onAccept
  | TcpServer_ClearClientTimerFunc
  | TcpClient_onConnect int
  | RpcChannel_onTimeout nat     \<comment> \<open>the timer lambda of \<open>CallMethod\<close>, bound to the controller\<close>
  | Logger_syncLoop
  | Timer_onTimer
  | Wakeup_read                  \<comment> \<open>the lambda of \<open>initWakeUpFdEvent\<close>\<close>
  | User_callback nat

datatype TriggerEvent = IN_EVENT | OUT_EVENT | ERROR_EVENT

abbreviation EPOLLIN :: "32 word" where "EPOLLIN \<equiv> 1"
abbreviation EPOLLOUT :: "32 word" where "EPOLLOUT \<equiv> 4"
abbreviation EPOLLERR :: "32 word" where "EPOLLERR \<equiv> 8"
abbreviation O_NONBLOCK :: "32 word" where "O_NONBLOCK \<equiv> 2048"

record fd_event =
  fe_fd :: int
  fe_events :: "32 word"       \<comment> \<open>\<open>m_listen_events.events\<close>\<close>
  fe_data_ptr :: bool          \<comment> \<open>\<open>m_listen_events.data.ptr\<close> points at the object\<close>
  fe_read_callback :: "callback option"
  fe_write_callback :: "callback option"
  fe_error_callback :: "callback option"

definition fd_event_new :: "int \<Rightarrow> fd_event" where
  "fd_event_new fd = \<lparr>fe_fd = fd, fe_events = 0, fe_data_ptr = False, fe_read_callback = None,
     fe_write_callback = None, fe_error_callback = None\<rparr>"

definition fd_handler :: "TriggerEvent \<Rightarrow> fd_event \<Rightarrow> callback option" where
  "fd_handler event e = (case event of IN_EVENT \<Rightarrow> fe_read_callback e
     | OUT_EVENT \<Rightarrow> fe_write_callback e | ERROR_EVENT \<Rightarrow> fe_error_callback e)"

definition fd_listen :: "TriggerEvent \<Rightarrow> callback option \<Rightarrow> callback option \<Rightarrow> fd_event \<Rightarrow> fd_event" where
  "fd_listen event_type callback error_callback e =
     (let e = (if event_type = IN_EVENT
               then e\<lparr>fe_events := fe_events e OR EPOLLIN, fe_read_callback := callback\<rparr>
               else e\<lparr>fe_events := fe_events e OR EPOLLOUT, fe_write_callback := callback\<rparr>);
          e = (if fe_error_callback e = None then e\<lparr>fe_error_callback := error_callback\<rparr>
               else e\<lparr>fe_error_callback := None\<rparr>)
      in e\<lparr>fe_data_ptr := True\<rparr>)"

definition fd_cancle :: "TriggerEvent \<Rightarrow> fd_event \<Rightarrow> fd_event" where
  "fd_cancle event_type e =
     (if event_type = IN_EVENT then e\<lparr>fe_events := fe_events e AND NOT EPOLLIN\<rparr>
      else e\<lparr>fe_events := fe_events e AND NOT EPOLLOUT\<rparr>)"

definition setNonBlock :: "32 word \<Rightarrow> 32 word option" where
  \<comment> \<open>from the result of \<open>fcntl(F_GETFL)\<close>: the argument of \<open>fcntl(F_SETFL)\<close>, if it is called\<close>
  "setNonBlock flag = (if flag AND O_NONBLOCK \<noteq> 0 then None else Some (flag OR O_NONBLOCK))"

lemma fe_fd_simps [simp]:
  "fe_fd (fd_event_new fd) = fd" "fe_fd (fd_listen t cb ecb e) = fe_fd e" "fe_fd (fd_cancle t e) = fe_fd e"
  by (simp_all add: fd_event_new_def fd_listen_def fd_cancle_def Let_def)

section \<open>The interest of a descriptor\<close>

definition wants_in :: "fd_event \<Rightarrow> bool" where "wants_in e = bit (fe_events e) 0"

definition wants_out :: "fd_event \<Rightarrow> bool" where "wants_out e = bit (fe_events e) 2"

lemma bit_EPOLLOUT: "bit (4 :: 32 word) n \<longleftrightarrow> n = 2"
proof -
  have "(4 :: 32 word) = 2 ^ 2" by simp
  then show ?thesis by (simp only: bit_exp_iff) (auto simp: possible_bit_def)
qed

lemmas epoll_bits = wants_in_def wants_out_def bit_or_iff bit_and_iff bit_not_iff bit_1_iff bit_EPOLLOUT

lemma wants_listen [simp]:
  "wants_in (fd_listen t cb ecb e) \<longleftrightarrow> t = IN_EVENT \<or> wants_in e"
  "wants_out (fd_listen t cb ecb e) \<longleftrightarrow> t \<noteq> IN_EVENT \<or> wants_out e"
  by (auto simp: fd_listen_def epoll_bits Let_def)

lemma wants_cancle [simp]:
  "wants_in (fd_cancle t e) \<longleftrightarrow> t \<noteq> IN_EVENT \<and> wants_in e"
  "wants_out (fd_cancle t e) \<longleftrightarrow> t = IN_EVENT \<and> wants_out e"
  by (auto simp: fd_cancle_def epoll_bits)

lemma wants_new [simp]: "\<not> wants_in (fd_event_new fd)" "\<not> wants_out (fd_event_new fd)"
  by (simp_all add: fd_event_new_def wants_in_def wants_out_def)

lemma handler_listen [simp]:
  "fd_handler IN_EVENT (fd_listen t cb ecb e) = (if t = IN_EVENT then cb else fd_handler IN_EVENT e)"
  "fd_handler OUT_EVENT (fd_listen t cb ecb e) = (if t \<noteq> IN_EVENT then cb else fd_handler OUT_EVENT e)"
  "fd_handler ERROR_EVENT (fd_listen t cb ecb e) = (if fd_handler ERROR_EVENT e = None then ecb else None)"
  by (auto simp: fd_handler_def fd_listen_def Let_def)

lemma handler_cancle [simp]: "fd_handler t' (fd_cancle t e) = fd_handler t' e"
  by (cases t') (simp_all add: fd_handler_def fd_cancle_def)

lemma handler_new [simp]: "fd_handler t (fd_event_new fd) = None"
  by (cases t) (simp_all add: fd_handler_def fd_event_new_def)

datatype fd_call = Listen TriggerEvent "callback option" "callback option" | Cancle TriggerEvent

fun fd_step :: "fd_call \<Rightarrow> fd_event \<Rightarrow> fd_event" where
  "fd_step (Listen t cb ecb) = fd_listen t cb ecb"
| "fd_step (Cancle t) = fd_cancle t"

fun on_in_side :: "fd_call \<Rightarrow> bool" where
  "on_in_side (Listen t cb ecb) = (t = IN_EVENT)"
| "on_in_side (Cancle t) = (t = IN_EVENT)"

fun is_listen :: "fd_call \<Rightarrow> bool" where
  "is_listen (Listen t cb ecb) = True"
| "is_listen (Cancle t) = False"

fun listen_callback :: "fd_call \<Rightarrow> callback option" where
  "listen_callback (Listen t cb ecb) = cb"
| "listen_callback (Cancle t) = None"

definition interested :: "fd_call list \<Rightarrow> bool" where
  \<comment> \<open>the last call of the list is a \<open>listen\<close>\<close>
  "interested calls \<longleftrightarrow> calls \<noteq> [] \<and> is_listen (last calls)"

definition last_callback :: "fd_call list \<Rightarrow> callback option" where
  "last_callback calls = (case rev (filter is_listen calls) of [] \<Rightarrow> None | c # _ \<Rightarrow> listen_callback c)"

lemma interested_snoc [simp]: "interested (calls @ [c]) = is_listen c" "interested [] = False"
  by (simp_all add: interested_def)

lemma last_callback_snoc [simp]:
  "last_callback (calls @ [c]) = (if is_listen c then listen_callback c else last_callback calls)"
  "last_callback [] = None"
  by (simp_all add: last_callback_def)

text \<open>After any sequence of \<open>listen\<close> and \<open>cancle\<close> calls on a new object the kernel is asked
  for input exactly when the last call about input was a \<open>listen\<close>, for output exactly when the
  last call about output (or, by the code's \<open>else\<close>, about errors) was, and each handler is the
  callback of the last \<open>listen\<close> on its side.  A second \<open>listen\<close> with an error callback removes the
  error callback instead of replacing it.\<close>

theorem fd_event_interest:
  "let e = fold fd_step calls (fd_event_new fd) in
   wants_in e = interested (filter on_in_side calls) \<and>
   wants_out e = interested (filter (\<lambda>c. \<not> on_in_side c) calls) \<and>
   fd_handler IN_EVENT e = last_callback (filter on_in_side calls) \<and>
   fd_handler OUT_EVENT e = last_callback (filter (\<lambda>c. \<not> on_in_side c) calls) \<and>
   fd_handler ERROR_EVENT (fd_listen t cb (Some ecb) (fd_listen t' cb' (Some ecb') (fd_event_new fd))) = None"
proof (induction calls rule: rev_induct)
  case (snoc c calls)
  then show ?case by (cases c) (auto simp: Let_def)
qed simp

section \<open>The table of descriptors\<close>

record fd_event_group =
  feg_size :: int
  feg_events :: "fd_event list"

definition fd_event_group_new :: "int \<Rightarrow> fd_event_group" where
  "fd_event_group_new sz = \<lparr>feg_size = sz, feg_events = map fd_event_new [0..sz - 1]\<rparr>"

definition getFdEvent :: "int \<Rightarrow> fd_event_group \<Rightarrow> (fd_event \<times> fd_event_group) res" where
  "getFdEvent fd g =
     (if to_size fd < int (length (feg_events g))
      then bind_res (at_index (feg_events g) fd) (\<lambda>e. Inr (e, g))
      else
        bind_res (one_and_half fd) (\<lambda>new_size.
        let g = g\<lparr>feg_events := feg_events g @
                    map fd_event_new [int (length (feg_events g))..new_size - 1]\<rparr> in
        bind_res (at_index (feg_events g) fd) (\<lambda>e. Inr (e, g))))"

definition set_fd_event :: "fd_event \<Rightarrow> fd_event_group \<Rightarrow> fd_event_group" where
  \<comment> \<open>a write through a pointer handed out by \<open>getFdEvent\<close>\<close>
  "set_fd_event e g = g\<lparr>feg_events := (feg_events g)[nat (fe_fd e) := e]\<rparr>"

definition GetFdEventGroup :: "fd_event_group option \<Rightarrow> fd_event_group" where
  "GetFdEventGroup g = (case g of Some g \<Rightarrow> g | None \<Rightarrow> fd_event_group_new 128)"

definition fd_group_ok :: "fd_event_group \<Rightarrow> bool" where
  "fd_group_ok g \<longleftrightarrow> map fe_fd (feg_events g) = map int [0..<length (feg_events g)] \<and>
     int (length (feg_events g)) \<le> INT_MAX"

lemma upto_int: "0 \<le> n \<Longrightarrow> [0..n - 1] = map int [0..<nat n]"
  by (rule nth_equalityI) auto

lemma fd_group_ok_new: "0 \<le> n \<Longrightarrow> n \<le> INT_MAX \<Longrightarrow> fd_group_ok (fd_event_group_new n)"
  by (simp add: fd_group_ok_def fd_event_group_new_def upto_int o_def)

lemma fd_group_ok_nth: "fd_group_ok g \<Longrightarrow> i < length (feg_events g) \<Longrightarrow> fe_fd (feg_events g ! i) = int i"
  by (metis (no_types, lifting) add_0 diff_zero fd_group_ok_def length_map length_upt nth_map nth_upt)

lemma fd_group_ok_set:
  assumes "fd_group_ok g" and "0 \<le> fe_fd e"
  shows "fd_group_ok (set_fd_event e g)"
proof -
  have "(map int [0..<length (feg_events g)])[nat (fe_fd e) := fe_fd e] = map int [0..<length (feg_events g)]"
    using assms(2) by (cases "nat (fe_fd e) < length (feg_events g)")
      (auto intro!: nth_equalityI simp: nth_list_update)
  then show ?thesis using assms by (simp add: fd_group_ok_def set_fd_event_def map_update)
qed

lemma fd_group_ok_grow:
  assumes "fd_group_ok g" and "int (length (feg_events g)) \<le> n" and "n \<le> INT_MAX"
  shows "fd_group_ok (g\<lparr>feg_events := feg_events g @ map fd_event_new [int (length (feg_events g))..n - 1]\<rparr>)"
proof -
  let ?l = "length (feg_events g)"
  have "[int ?l..n - 1] = map int [?l..<nat n]" by (rule nth_equalityI) auto
  moreover have "map int [0..<nat n] = map int [0..<?l] @ map int [?l..<nat n]"
    using assms(2) upt_add_eq_append [of 0 ?l "nat n - ?l"] by simp
  ultimately show ?thesis using assms by (simp add: fd_group_ok_def o_def)
qed

text \<open>For every valid descriptor the table hands out the object of that descriptor, growing by
  half when needed and keeping the objects already handed out at their places; for a negative
  descriptor, such as the \<open>-1\<close> of a failed \<open>accept\<close>, it reads before the start of its vector.\<close>

theorem fd_group_lookup:
  assumes "fd_group_ok g" and "2 \<le> length (feg_events g)" and "fd \<le> 1431655765"
  shows "(0 \<le> fd \<longrightarrow> (\<exists>e g'. getFdEvent fd g = Inr (e, g') \<and> fe_fd e = fd \<and> fd_group_ok g' \<and>
            (\<exists>new. feg_events g' = feg_events g @ new) \<and> feg_events g' ! nat fd = e \<and>
            (fd < int (length (feg_events g)) \<longrightarrow> g' = g))) \<and>
         (- 1431655765 \<le> fd \<and> fd < 0 \<longrightarrow> getFdEvent fd g = Inl Out_Of_Bounds)"
proof (intro conjI impI)
  let ?l = "length (feg_events g)"
  assume nonneg: "0 \<le> fd"
  then have sz: "to_size fd = fd" using assms(3) by (intro to_size_in) simp_all
  show "\<exists>e g'. getFdEvent fd g = Inr (e, g') \<and> fe_fd e = fd \<and> fd_group_ok g' \<and>
      (\<exists>new. feg_events g' = feg_events g @ new) \<and> feg_events g' ! nat fd = e \<and> (fd < int ?l \<longrightarrow> g' = g)"
  proof (cases "fd < int ?l")
    case True
    then have "at_index (feg_events g) fd = Inr (feg_events g ! nat fd)"
      using nonneg by (intro at_index_in)
    moreover have "fe_fd (feg_events g ! nat fd) = fd"
      using True nonneg fd_group_ok_nth [OF assms(1), of "nat fd"] by simp
    ultimately show ?thesis using True sz assms(1) by (simp add: getFdEvent_def)
  next
    case False
    let ?n = "3 * fd div 2"
    let ?g = "g\<lparr>feg_events := feg_events g @ map fd_event_new [int ?l..?n - 1]\<rparr>"
    have n: "fd < ?n" using False assms(2) by presburger
    moreover have n_max: "?n \<le> INT_MAX" using assms(3) by presburger
    ultimately have ok: "fd_group_ok ?g" using False assms(1) by (intro fd_group_ok_grow) simp_all
    have len: "int (length (feg_events ?g)) = ?n" using False n by simp
    then have at: "at_index (feg_events ?g) fd = Inr (feg_events ?g ! nat fd)"
      using nonneg n by (intro at_index_in) simp_all
    have "fe_fd (feg_events ?g ! nat fd) = fd"
      using fd_group_ok_nth [OF ok, of "nat fd"] len n nonneg by simp
    with at ok False sz one_and_half_in [OF nonneg assms(3)] show ?thesis
      by (intro exI [of _ "feg_events ?g ! nat fd"] exI [of _ ?g]) (simp add: getFdEvent_def)
  qed
next
  assume fd: "- 1431655765 \<le> fd \<and> fd < 0"
  then have "to_size fd = fd + 18446744073709551616" by (intro to_size_neg) simp_all
  moreover have "int (length (feg_events g)) \<le> INT_MAX" using assms(1) by (simp add: fd_group_ok_def)
  ultimately have sz: "\<not> to_size fd < int (length (feg_events g))" using fd by linarith
  define q where "q = 3 * (- fd) div 2"
  have "0 \<le> q" "q \<le> INT_MAX" using fd unfolding q_def by presburger+
  then have "chk32 (- q) = Inr (- q)" by (intro chk32_in) simp_all
  then have "one_and_half fd = Inr (- q)"
    using fd unfolding one_and_half_def q_def by (simp only: not_le [symmetric] if_False)
  with sz fd show "getFdEvent fd g = Inl Out_Of_Bounds" by (simp add: getFdEvent_def at_index_def)
qed

theorem fd_group_lookup_witness:
  "getFdEvent (- 1) (GetFdEventGroup None) = Inl Out_Of_Bounds"
  using fd_group_lookup [of "GetFdEventGroup None" "- 1"] fd_group_ok_new [of 128]
  by (simp add: GetFdEventGroup_def fd_event_group_new_def)

section \<open>What the users of the table rely on\<close>

text \<open>A connection takes the object of its descriptor out of the table and changes it through the pointer:
  the table then holds the changed object, and the objects of the other descriptors as they were.\<close>

locale fd_table =
  fixes ok :: "'t \<Rightarrow> bool"
    and held :: "'t \<Rightarrow> int set"
    and look :: "'t \<Rightarrow> int \<Rightarrow> fd_event"
    and get :: "int \<Rightarrow> 't \<Rightarrow> (fd_event \<times> 't) res"
    and put :: "fd_event \<Rightarrow> 't \<Rightarrow> 't"
    and limit :: int
  assumes get_law: "ok t \<Longrightarrow> 0 \<le> fd \<Longrightarrow> fd \<le> limit \<Longrightarrow> \<exists>t'. get fd t = Inr (look t' fd, t') \<and> ok t' \<and>
      fd \<in> held t' \<and> held t \<subseteq> held t' \<and> (\<forall>fd'\<in>held t. look t' fd' = look t fd')"
    and look_law: "ok t \<Longrightarrow> fd \<in> held t \<Longrightarrow> fe_fd (look t fd) = fd"
    and put_law: "ok t \<Longrightarrow> fe_fd e \<in> held t \<Longrightarrow> ok (put e t) \<and> held (put e t) = held t \<and>
      (\<forall>fd\<in>held t. look (put e t) fd = (if fd = fe_fd e then e else look t fd))"
begin

lemma update:
  assumes "ok t" and "0 \<le> fd" and "fd \<le> limit" and "\<And>e. fe_fd (f e) = fe_fd e"
  obtains e t' where "get fd t = Inr (e, t')" and "fe_fd e = fd" and "ok (put (f e) t')"
    and "fd \<in> held (put (f e) t')" and "look (put (f e) t') fd = f e" and "held t \<subseteq> held (put (f e) t')"
    and "\<And>fd'. fd' \<in> held t \<Longrightarrow> fd' \<noteq> fd \<Longrightarrow> look (put (f e) t') fd' = look t fd'"
proof -
  from get_law [OF assms(1-3)] obtain t' where t': "get fd t = Inr (look t' fd, t')" "ok t'" "fd \<in> held t'"
    "held t \<subseteq> held t'" "\<forall>fd'\<in>held t. look t' fd' = look t fd'" by blast
  have fd: "fe_fd (look t' fd) = fd" by (rule look_law [OF t'(2,3)])
  with assms(4) t'(3) have "fe_fd (f (look t' fd)) \<in> held t'" by simp
  from put_law [OF t'(2) this] t' fd assms(4) show thesis by (intro that [OF t'(1) fd]) auto
qed

end

lemma fd_table_get:
  assumes "fd_group_ok g \<and> 2 \<le> length (feg_events g)" and "0 \<le> fd" and "fd \<le> 1431655765"
  shows "\<exists>g'. getFdEvent fd g = Inr (feg_events g' ! nat fd, g') \<and>
    (fd_group_ok g' \<and> 2 \<le> length (feg_events g')) \<and> fd \<in> {0..<int (length (feg_events g'))} \<and>
    {0..<int (length (feg_events g))} \<subseteq> {0..<int (length (feg_events g'))} \<and>
    (\<forall>fd'\<in>{0..<int (length (feg_events g))}. feg_events g' ! nat fd' = feg_events g ! nat fd')"
proof -
  obtain e g' where g': "getFdEvent fd g = Inr (e, g')" "fd_group_ok g'"
    "\<exists>new. feg_events g' = feg_events g @ new" "feg_events g' ! nat fd = e"
    using fd_group_lookup [of g fd] assms by blast
  moreover have "fd < int (length (feg_events g'))"
    using g'(1) assms(2) by (auto simp: getFdEvent_def bind_res_eq_Inr at_index_Inr split: if_splits)
  ultimately show ?thesis using assms by (intro exI [of _ g']) (auto simp: nth_append)
qed

interpretation fds: fd_table "\<lambda>g. fd_group_ok g \<and> 2 \<le> length (feg_events g)"
  "\<lambda>g. {0..<int (length (feg_events g))}" "\<lambda>g fd. feg_events g ! nat fd" getFdEvent set_fd_event 1431655765
proof
  fix g fd and e :: fd_event
  assume g: "fd_group_ok g \<and> 2 \<le> length (feg_events g)"
  show "fd \<in> {0..<int (length (feg_events g))} \<Longrightarrow> fe_fd (feg_events g ! nat fd) = fd"
    using g fd_group_ok_nth [of g "nat fd"] by (simp add: nat_less_iff)
  assume e: "fe_fd e \<in> {0..<int (length (feg_events g))}"
  then have "nat (fe_fd e) < length (feg_events g)" by auto
  with g e fd_group_ok_set [of g e] show "(fd_group_ok (set_fd_event e g) \<and> 2 \<le> length (feg_events (set_fd_event e g))) \<and>
      {0..<int (length (feg_events (set_fd_event e g)))} = {0..<int (length (feg_events g))} \<and>
      (\<forall>fd\<in>{0..<int (length (feg_events g))}.
        feg_events (set_fd_event e g) ! nat fd = (if fd = fe_fd e then e else feg_events g ! nat fd))"
    by (auto simp: set_fd_event_def nth_list_update)
qed (rule fd_table_get)

end
