(* ===== verification/Timer.thy ===== *)
theory Timer
  imports Fd_Event
begin

text \<open>
  \<open>net/timer_event.{h,cc}\<close> and \<open>net/timer.{h,cc}\<close>: timed tasks and the timer an event loop watches.
  Timer events are shared pointers, so they live in a store and the multimap holds their
  identities.  \<open>clock k\<close> is the result of the \<open>k\<close>-th call of \<open>getNowMs\<close>; the state counts the calls.
  \<open>tm_armed\<close> is the absolute time at which the \<open>timerfd\<close> will fire.
\<close>

section \<open>State\<close>

record timer_event =
  te_arrive_time :: int
  te_interval :: int
  te_is_repeated :: bool
  te_is_cancled :: bool
  te_task :: "callback option"

record timer =
  tm_fd_event :: fd_event
  tm_pending_events :: "(int \<times> nat) list"     \<comment> \<open>the multimap, in key order\<close>
  tm_store :: "nat \<Rightarrow> timer_event"
  tm_calls :: nat                              \<comment> \<open>calls of \<open>getNowMs\<close> so far\<close>
  tm_armed :: "int option"
  tm_settime :: "(int \<times> int) list"            \<comment> \<open>arguments of \<open>timerfd_settime\<close>: seconds, nanoseconds\<close>

type_synonym clock = "nat \<Rightarrow> int"

definition getNowMs :: "clock \<Rightarrow> timer \<Rightarrow> int \<times> timer" where
  "getNowMs clock t = (clock (tm_calls t), t\<lparr>tm_calls := Suc (tm_calls t)\<rparr>)"

definition timer_new :: "int \<Rightarrow> timer" where
  \<comment> \<open>\<open>fd\<close> is the result of \<open>timerfd_create\<close>\<close>
  "timer_new fd = \<lparr>tm_fd_event = fd_listen IN_EVENT (Some Timer_onTimer) None (fd_event_new fd),
     tm_pending_events = [], tm_store = (\<lambda>_. \<lparr>te_arrive_time = 0, te_interval = 0,
       te_is_repeated = False, te_is_cancled = False, te_task = None\<rparr>),
     tm_calls = 0, tm_armed = None, tm_settime = []\<rparr>"

section \<open>Timer events\<close>

definition resetArriveTime_event :: "clock \<Rightarrow> nat \<Rightarrow> timer \<Rightarrow> timer" where
  "resetArriveTime_event clock i t =
     (let (now, t) = getNowMs clock t;
          e = tm_store t i
      in t\<lparr>tm_store := (tm_store t)(i := e\<lparr>te_arrive_time := now + te_interval e\<rparr>)\<rparr>)"

definition TimerEvent_new :: "clock \<Rightarrow> nat \<Rightarrow> int \<Rightarrow> bool \<Rightarrow> callback option \<Rightarrow> timer \<Rightarrow> timer" where
  \<comment> \<open>a new object at the unused place \<open>i\<close> of the store\<close>
  "TimerEvent_new clock i interval is_repeated cb t =
     resetArriveTime_event clock i (t\<lparr>tm_store := (tm_store t)(i := \<lparr>te_arrive_time = 0,
       te_interval = interval, te_is_repeated = is_repeated, te_is_cancled = False, te_task = cb\<rparr>)\<rparr>)"

definition setCancled :: "bool \<Rightarrow> nat \<Rightarrow> timer \<Rightarrow> timer" where
  "setCancled v i t = t\<lparr>tm_store := (tm_store t)(i := (tm_store t i)\<lparr>te_is_cancled := v\<rparr>)\<rparr>"

section \<open>The timer\<close>

fun multimap_emplace :: "int \<Rightarrow> nat \<Rightarrow> (int \<times> nat) list \<Rightarrow> (int \<times> nat) list" where
  "multimap_emplace k v [] = [(k, v)]"
| "multimap_emplace k v ((k', v') # m) =
     (if k < k' then (k, v) # (k', v') # m else (k', v') # multimap_emplace k v m)"

definition timer_resetArriveTime :: "clock \<Rightarrow> timer \<Rightarrow> timer" where
  "timer_resetArriveTime clock t =
     (case tm_pending_events t of
        [] \<Rightarrow> t
      | (_, i) # _ \<Rightarrow>
          let (now, t) = getNowMs clock t;
              arrive = te_arrive_time (tm_store t i);
              interval = (if arrive > now then arrive - now else 100)
          in t\<lparr>tm_settime := tm_settime t @ [(interval div 1000, interval mod 1000 * 1000000)],
               tm_armed := Some (now + interval)\<rparr>)"

definition addTimerEvent :: "clock \<Rightarrow> nat \<Rightarrow> timer \<Rightarrow> timer" where
  "addTimerEvent clock event t =
     (let arrive = te_arrive_time (tm_store t event);
          is_reset_timerfd = (case tm_pending_events t of [] \<Rightarrow> True
                              | (_, i) # _ \<Rightarrow> te_arrive_time (tm_store t i) > arrive);
          t = t\<lparr>tm_pending_events := multimap_emplace arrive event (tm_pending_events t)\<rparr>
      in if is_reset_timerfd then timer_resetArriveTime clock t else t)"

fun erase_in_range :: "int \<Rightarrow> nat \<Rightarrow> (int \<times> nat) list \<Rightarrow> (int \<times> nat) list" where
  \<comment> \<open>the first entry with key \<open>k\<close> that holds \<open>event\<close>\<close>
  "erase_in_range k event [] = []"
| "erase_in_range k event ((k', i) # m) =
     (if k' = k \<and> i = event then m else (k', i) # erase_in_range k event m)"

definition deleteTimerEvent :: "nat \<Rightarrow> timer \<Rightarrow> timer" where
  "deleteTimerEvent event t =
     (let t = setCancled True event t in
      t\<lparr>tm_pending_events := erase_in_range (te_arrive_time (tm_store t event)) event (tm_pending_events t)\<rparr>)"

definition onTimer :: "clock \<Rightarrow> timer \<Rightarrow> (int \<times> callback option) list \<times> timer" where
  \<comment> \<open>the callbacks to run, in order, and the state in which they run; a timer that fired is disarmed\<close>
  "onTimer clock t =
     (let (now, t) = getNowMs clock (t\<lparr>tm_armed := None\<rparr>);
          due = takeWhile (\<lambda>(k, i). k \<le> now) (tm_pending_events t);
          tmps = filter (\<lambda>i. \<not> te_is_cancled (tm_store t i)) (map snd due);
          tasks = map (\<lambda>i. (te_arrive_time (tm_store t i), te_task (tm_store t i))) tmps;
          t = t\<lparr>tm_pending_events := dropWhile (\<lambda>(k, i). k \<le> now) (tm_pending_events t)\<rparr>;
          t = fold (\<lambda>i t. if te_is_repeated (tm_store t i)
                then addTimerEvent clock i (resetArriveTime_event clock i t) else t) tmps t
      in (tasks, timer_resetArriveTime clock t))"

section \<open>The multimap\<close>

lemma set_emplace [simp]: "set (multimap_emplace k v m) = insert (k, v) (set m)"
  by (induction k v m rule: multimap_emplace.induct) auto

lemma sorted_emplace: "sorted (map fst m) \<Longrightarrow> sorted (map fst (multimap_emplace k v m))"
  by (induction k v m rule: multimap_emplace.induct) (auto simp: less_imp_le not_less)

lemma emplace_ids: "v \<notin> snd ` set m \<Longrightarrow> distinct (map snd m) \<Longrightarrow> distinct (map snd (multimap_emplace k v m))"
  by (induction k v m rule: multimap_emplace.induct) auto

lemma hd_emplace:
  "fst (hd (multimap_emplace k v m)) = (if m = [] then k else min k (fst (hd m)))" "multimap_emplace k v m \<noteq> []"
  by (induction k v m rule: multimap_emplace.induct) auto

lemma set_erase_subset: "set (erase_in_range k i m) \<subseteq> set m"
  by (induction k i m rule: erase_in_range.induct) auto

lemma erase_hd: "m' = erase_in_range k i m \<Longrightarrow> m' \<noteq> [] \<Longrightarrow> sorted (map fst m) \<Longrightarrow> m \<noteq> [] \<and> fst (hd m) \<le> fst (hd m')"
  by (cases "(k, i, m)" rule: erase_in_range.cases) (auto split: if_splits simp: neq_Nil_conv)

lemma sorted_erase: "sorted (map fst m) \<Longrightarrow> sorted (map fst (erase_in_range k i m))"
  using set_erase_subset by (induction k i m rule: erase_in_range.induct) fastforce+

lemma distinct_erase: "distinct (map snd m) \<Longrightarrow> distinct (map snd (erase_in_range k i m))"
  using set_erase_subset by (induction k i m rule: erase_in_range.induct) fastforce+

lemma erase_gone: "distinct (map snd m) \<Longrightarrow> (k, i) \<in> set m \<Longrightarrow> i \<notin> snd ` set (erase_in_range k i m)"
  by (induction k i m rule: erase_in_range.induct) force+

section \<open>Invariant\<close>

definition timer_wf :: "timer \<Rightarrow> bool" where
  "timer_wf t \<longleftrightarrow> sorted (map fst (tm_pending_events t)) \<and> distinct (map snd (tm_pending_events t)) \<and>
     (\<forall>(k, i) \<in> set (tm_pending_events t). te_arrive_time (tm_store t i) = k)"

definition timer_armed :: "clock \<Rightarrow> timer \<Rightarrow> bool" where
  \<comment> \<open>a timer is running, and fires no later than the first pending event is due or, when that time
      has passed already, 100 milliseconds from now\<close>
  "timer_armed clock t \<longleftrightarrow> (tm_pending_events t \<noteq> [] \<longrightarrow>
     (\<exists>d. tm_armed t = Some d \<and>
          d \<le> max (fst (hd (tm_pending_events t))) (clock (tm_calls t) + 100)))"

definition settime_ok :: "timer \<Rightarrow> bool" where
  \<comment> \<open>a zero time would disarm the \<open>timerfd\<close>\<close>
  "settime_ok t \<longleftrightarrow> (\<forall>(s, n) \<in> set (tm_settime t). 0 \<le> s \<and> 0 \<le> n \<and> n < 1000000000 \<and> (0 < s \<or> 0 < n))"

inductive timer_step :: "clock \<Rightarrow> timer \<Rightarrow> timer \<Rightarrow> bool" for clock :: clock where
  step_add: "i \<notin> snd ` set (tm_pending_events t) \<Longrightarrow>
     timer_step clock t (addTimerEvent clock i (TimerEvent_new clock i interval rep cb t))"
| step_delete: "timer_step clock t (deleteTimerEvent i t)"
| step_cancel: "timer_step clock t (setCancled v i t)"
| step_fire: "timer_step clock t (snd (onTimer clock t))"

inductive_cases timer_stepE: "timer_step clock t t'"

lemma getNowMs_simps [simp]: "getNowMs clock t = (clock (tm_calls t), t\<lparr>tm_calls := Suc (tm_calls t)\<rparr>)"
  by (simp add: getNowMs_def)

lemma reset_event_simps [simp]:
  "tm_pending_events (resetArriveTime_event clock i t) = tm_pending_events t"
  "tm_settime (resetArriveTime_event clock i t) = tm_settime t"
  "tm_armed (resetArriveTime_event clock i t) = tm_armed t"
  "tm_calls (resetArriveTime_event clock i t) = Suc (tm_calls t)"
  "j \<noteq> i \<Longrightarrow> tm_store (resetArriveTime_event clock i t) j = tm_store t j"
  "te_arrive_time (tm_store (resetArriveTime_event clock i t) i) = clock (tm_calls t) + te_interval (tm_store t i)"
  "te_is_repeated (tm_store (resetArriveTime_event clock i t) j) = te_is_repeated (tm_store t j)"
  "te_is_cancled (tm_store (resetArriveTime_event clock i t) j) = te_is_cancled (tm_store t j)"
  "te_interval (tm_store (resetArriveTime_event clock i t) j) = te_interval (tm_store t j)"
  "te_task (tm_store (resetArriveTime_event clock i t) j) = te_task (tm_store t j)"
  by (simp_all add: resetArriveTime_event_def Let_def)

lemma timer_reset_simps [simp]:
  "tm_pending_events (timer_resetArriveTime clock t) = tm_pending_events t"
  "tm_store (timer_resetArriveTime clock t) = tm_store t"
  by (auto simp: timer_resetArriveTime_def Let_def split: list.split)

lemma timer_reset_calls: "tm_calls t \<le> tm_calls (timer_resetArriveTime clock t)"
  by (auto simp: timer_resetArriveTime_def Let_def split: list.split)

lemma add_simps [simp]:
  "tm_pending_events (addTimerEvent clock i t) =
     multimap_emplace (te_arrive_time (tm_store t i)) i (tm_pending_events t)"
  "tm_store (addTimerEvent clock i t) = tm_store t"
  by (simp_all add: addTimerEvent_def Let_def)

lemma setCancled_simps [simp]:
  "tm_pending_events (setCancled v i t) = tm_pending_events t"
  "tm_armed (setCancled v i t) = tm_armed t" "tm_calls (setCancled v i t) = tm_calls t"
  "tm_settime (setCancled v i t) = tm_settime t"
  "te_arrive_time (tm_store (setCancled v i t) j) = te_arrive_time (tm_store t j)"
  by (simp_all add: setCancled_def)

subsection \<open>Well-formedness\<close>

lemma wf_reset_other: "timer_wf t \<Longrightarrow> i \<notin> snd ` set (tm_pending_events t) \<Longrightarrow> timer_wf (resetArriveTime_event clock i t)"
proof -
  assume wf: "timer_wf t" and i: "i \<notin> snd ` set (tm_pending_events t)"
  have "te_arrive_time (tm_store (resetArriveTime_event clock i t) j) = k"
    if "(k, j) \<in> set (tm_pending_events t)" for k j
  proof -
    have "j \<noteq> i" using that i by force
    with that wf show ?thesis by (auto simp: timer_wf_def)
  qed
  with wf show ?thesis by (auto simp: timer_wf_def)
qed

lemma wf_add: "timer_wf t \<Longrightarrow> i \<notin> snd ` set (tm_pending_events t) \<Longrightarrow> timer_wf (addTimerEvent clock i t)"
  by (auto simp: timer_wf_def sorted_emplace emplace_ids)

lemma wf_new:
  "timer_wf t \<Longrightarrow> i \<notin> snd ` set (tm_pending_events t) \<Longrightarrow> timer_wf (TimerEvent_new clock i n r cb t)"
  unfolding TimerEvent_new_def by (rule wf_reset_other) (force simp: timer_wf_def)+

lemma TimerEvent_new_simps [simp]:
  "tm_pending_events (TimerEvent_new clock i n r cb t) = tm_pending_events t"
  "tm_settime (TimerEvent_new clock i n r cb t) = tm_settime t"
  "tm_armed (TimerEvent_new clock i n r cb t) = tm_armed t"
  "tm_calls (TimerEvent_new clock i n r cb t) = Suc (tm_calls t)"
  "te_arrive_time (tm_store (TimerEvent_new clock i n r cb t) i) = clock (tm_calls t) + n"
  by (simp_all add: TimerEvent_new_def)

lemma wf_delete: "timer_wf t \<Longrightarrow> timer_wf (deleteTimerEvent i t)"
  using set_erase_subset
  by (fastforce simp: timer_wf_def deleteTimerEvent_def Let_def sorted_erase distinct_erase)

lemma wf_cancel: "timer_wf t \<Longrightarrow> timer_wf (setCancled v i t)"
  by (simp add: timer_wf_def)

text \<open>The loop that puts the repeated events back.\<close>

abbreviation readd :: "clock \<Rightarrow> nat \<Rightarrow> timer \<Rightarrow> timer" where
  "readd clock i t \<equiv> (if te_is_repeated (tm_store t i)
     then addTimerEvent clock i (resetArriveTime_event clock i t) else t)"

lemma add_calls: "tm_calls t \<le> tm_calls (addTimerEvent clock i t)"
  using timer_reset_calls [of "t\<lparr>tm_pending_events := multimap_emplace (te_arrive_time (tm_store t i)) i (tm_pending_events t)\<rparr>"]
  by (simp add: addTimerEvent_def Let_def)

definition readd_spec :: "clock \<Rightarrow> nat list \<Rightarrow> timer \<Rightarrow> timer \<Rightarrow> bool" where
  "readd_spec clock is t t' \<longleftrightarrow> timer_wf t' \<and> tm_calls t \<le> tm_calls t' \<and>
     set (tm_pending_events t') = set (tm_pending_events t) \<union>
       {(te_arrive_time (tm_store t' i), i) | i. i \<in> set is \<and> te_is_repeated (tm_store t i)} \<and>
     (\<forall>i. i \<notin> set is \<longrightarrow> tm_store t' i = tm_store t i) \<and>
     (\<forall>i \<in> set is. te_is_repeated (tm_store t i) \<longrightarrow>
        (\<exists>k \<ge> tm_calls t. te_arrive_time (tm_store t' i) = clock k + te_interval (tm_store t i)))"

lemma readd_one:
  assumes "timer_wf t" and "i \<notin> snd ` set (tm_pending_events t)"
  shows "readd_spec clock [i] t (readd clock i t)"
  using assms add_calls [of "resetArriveTime_event clock i t" clock i]
  by (auto simp: readd_spec_def intro!: wf_add wf_reset_other)

lemma readd_trans:
  assumes "readd_spec clock [i] t u" and "readd_spec clock js u t'" and "i \<notin> set js"
  shows "readd_spec clock (i # js) t t'"
proof -
  have same: "tm_store u j = tm_store t j" if "j \<in> set js" for j
    using that assms(1,3) by (auto simp: readd_spec_def)
  have i: "tm_store t' i = tm_store u i" using assms(2,3) by (auto simp: readd_spec_def)
  have "\<exists>k \<ge> tm_calls t. te_arrive_time (tm_store t' j) = clock k + te_interval (tm_store t j)"
    if "j \<in> set (i # js)" "te_is_repeated (tm_store t j)" for j
  proof (cases "j = i")
    case True
    with assms(1) that i show ?thesis by (auto simp: readd_spec_def)
  next
    case False
    with that same [of j] assms(2) obtain k where
      "tm_calls u \<le> k" "te_arrive_time (tm_store t' j) = clock k + te_interval (tm_store t j)"
      by (auto simp: readd_spec_def)
    moreover have "tm_calls t \<le> tm_calls u" using assms(1) by (simp add: readd_spec_def)
    ultimately show ?thesis by (meson order_trans)
  qed
  moreover have "set (tm_pending_events t') = set (tm_pending_events t) \<union>
       {(te_arrive_time (tm_store t' j), j) | j. j \<in> set (i # js) \<and> te_is_repeated (tm_store t j)}"
    using assms(1,2) same i by (auto simp: readd_spec_def)
  ultimately show ?thesis using assms by (auto simp: readd_spec_def)
qed

lemma fold_readd:
  assumes "timer_wf t" and "distinct is" and "set is \<inter> snd ` set (tm_pending_events t) = {}"
  shows "readd_spec clock is t (fold (readd clock) is t)"
  using assms
proof (induction "is" arbitrary: t)
  case Nil
  then show ?case by (simp add: readd_spec_def)
next
  case (Cons i js)
  have one: "readd_spec clock [i] t (readd clock i t)" using Cons.prems by (intro readd_one) auto
  then have "set js \<inter> snd ` set (tm_pending_events (readd clock i t)) = {}"
    using Cons.prems(2,3) unfolding readd_spec_def by auto
  moreover have "timer_wf (readd clock i t)" using one by (simp add: readd_spec_def)
  ultimately have "readd_spec clock js (readd clock i t) (fold (readd clock) js (readd clock i t))"
    using Cons.IH Cons.prems(2) by simp
  from readd_trans [OF one this] Cons.prems(2) show ?case by simp
qed

subsection \<open>A tick of the timer\<close>

definition due_events :: "int \<Rightarrow> timer \<Rightarrow> (int \<times> nat) list" where
  "due_events now t = filter (\<lambda>(k, i). k \<le> now \<and> \<not> te_is_cancled (tm_store t i)) (tm_pending_events t)"

lemma sorted_takeWhile_filter:
  assumes "sorted (map fst m)"
  shows "takeWhile (\<lambda>(k, i). k \<le> now) m = filter (\<lambda>(k, i). k \<le> now) (m :: (int \<times> nat) list)"
    and "dropWhile (\<lambda>(k, i). k \<le> now) m = filter (\<lambda>(k, i). \<not> k \<le> now) (m :: (int \<times> nat) list)"
proof -
  have "takeWhile (\<lambda>(k, i). k \<le> now) m = filter (\<lambda>(k, i). k \<le> now) m \<and>
        dropWhile (\<lambda>(k, i). k \<le> now) m = filter (\<lambda>(k, i). \<not> k \<le> now) m"
    using assms
  proof (induction m)
    case (Cons e m)
    obtain k i where e: "e = (k, i)" by (cases e)
    show ?case
    proof (cases "k \<le> now")
      case False
      have "\<not> fst x \<le> now" if "x \<in> set m" for x using that Cons.prems False e by fastforce
      then have "filter (\<lambda>(k, i). k \<le> now) m = []" "filter (\<lambda>(k, i). \<not> k \<le> now) m = m"
        by (auto simp: filter_empty_conv filter_id_conv)
      with False e show ?thesis by simp
    qed (use Cons e in simp)
  qed simp
  then show "takeWhile (\<lambda>(k, i). k \<le> now) m = filter (\<lambda>(k, i). k \<le> now) m"
    and "dropWhile (\<lambda>(k, i). k \<le> now) m = filter (\<lambda>(k, i). \<not> k \<le> now) m" by simp_all
qed

lemma onTimer_tasks:
  assumes "timer_wf t"
  shows "fst (onTimer clock t) = map (\<lambda>(k, i). (k, te_task (tm_store t i))) (due_events (clock (tm_calls t)) t)"
proof -
  have "filter (\<lambda>i. \<not> te_is_cancled (tm_store t i)) (map snd (filter (\<lambda>(k, i). k \<le> now) m)) =
      map snd (filter (\<lambda>(k, i). k \<le> now \<and> \<not> te_is_cancled (tm_store t i)) m)" for now and m :: "(int \<times> nat) list"
    by (induction m) auto
  then show ?thesis
    using assms by (auto simp: onTimer_def Let_def sorted_takeWhile_filter timer_wf_def due_events_def)
qed

lemma onTimer_state:
  assumes "timer_wf t" and now_def: "now = clock (tm_calls t)"
  shows "\<exists>u. snd (onTimer clock t) = timer_resetArriveTime clock u \<and>
           readd_spec clock (map snd (due_events now t))
             (t\<lparr>tm_armed := None, tm_calls := Suc (tm_calls t),
                tm_pending_events := filter (\<lambda>(k, i). \<not> k \<le> now) (tm_pending_events t)\<rparr>) u"
proof -
  let ?is = "map snd (due_events now t)"
  let ?t = "t\<lparr>tm_armed := None, tm_calls := Suc (tm_calls t),
                tm_pending_events := filter (\<lambda>(k, i). \<not> k \<le> now) (tm_pending_events t)\<rparr>"
  have "filter (\<lambda>i. \<not> te_is_cancled (tm_store t i)) (map snd (filter (\<lambda>(k, i). k \<le> now) m)) =
      map snd (filter (\<lambda>(k, i). k \<le> now \<and> \<not> te_is_cancled (tm_store t i)) m)" for m :: "(int \<times> nat) list"
    by (induction m) auto
  then have eq: "snd (onTimer clock t) = timer_resetArriveTime clock (fold (readd clock) ?is ?t)"
    using assms(1) by (simp add: onTimer_def Let_def sorted_takeWhile_filter timer_wf_def due_events_def now_def)
  have "timer_wf ?t"
    using assms(1) by (auto simp: timer_wf_def distinct_map_filter sorted_filter)
  moreover have "distinct ?is" using assms(1) by (simp add: timer_wf_def due_events_def distinct_map_filter)
  moreover have key: "te_arrive_time (tm_store t i) = k" if "(k, i) \<in> set (tm_pending_events t)" for k i
    using that assms(1) by (auto simp: timer_wf_def)
  have "k = k'" if "(k, i) \<in> set (tm_pending_events t)" "(k', i) \<in> set (tm_pending_events t)" for k k' i
    using that key [of k i] key [of k' i] by simp
  then have "set ?is \<inter> snd ` set (tm_pending_events ?t) = {}"
    by (auto simp: due_events_def) metis
  ultimately show ?thesis using eq fold_readd by blast
qed

subsection \<open>The timer is always armed\<close>

lemma wf_cong: "tm_pending_events t' = tm_pending_events t \<Longrightarrow> tm_store t' = tm_store t \<Longrightarrow> timer_wf t' = timer_wf t"
  by (simp add: timer_wf_def)

lemma reset_armed:
  assumes "mono clock" and "timer_wf t"
  shows "timer_armed clock (timer_resetArriveTime clock t)"
proof (cases "tm_pending_events t")
  case (Cons e m)
  obtain k i where e: "e = (k, i)" by (cases e)
  have "te_arrive_time (tm_store t i) = k" using assms(2) Cons e by (simp add: timer_wf_def)
  moreover have "clock (tm_calls t) \<le> clock (Suc (tm_calls t))" using assms(1) by (simp add: mono_def)
  ultimately show ?thesis
    using Cons e by (auto simp: timer_armed_def timer_resetArriveTime_def Let_def)
qed (simp add: timer_armed_def)

lemma add_armed:
  assumes "mono clock" and "timer_wf t" and "timer_armed clock t" and "i \<notin> snd ` set (tm_pending_events t)"
  shows "timer_armed clock (addTimerEvent clock i t)"
proof -
  let ?k = "te_arrive_time (tm_store t i)"
  let ?t = "t\<lparr>tm_pending_events := multimap_emplace ?k i (tm_pending_events t)\<rparr>"
  have "timer_wf (addTimerEvent clock i t)" using assms(2,4) by (rule wf_add)
  then have wf: "timer_wf ?t" by (subst wf_cong [of _ "addTimerEvent clock i t"]) simp_all
  consider "addTimerEvent clock i t = timer_resetArriveTime clock ?t"
    | j k' m where "addTimerEvent clock i t = ?t" "tm_pending_events t = (k', j) # m"
        "te_arrive_time (tm_store t j) \<le> ?k"
  proof (cases "tm_pending_events t")
    case Nil
    then show ?thesis using that(1) by (simp add: addTimerEvent_def Let_def)
  next
    case (Cons e m)
    obtain k' j where "e = (k', j)" by (cases e)
    with Cons that show ?thesis
      by (cases "te_arrive_time (tm_store t j) \<le> ?k") (simp_all add: addTimerEvent_def Let_def not_less)
  qed
  then show ?thesis
  proof cases
    case 1
    then show ?thesis using reset_armed [OF assms(1) wf] by simp
  next
    case 2
    moreover from this assms(2) have "k' \<le> ?k" by (simp add: timer_wf_def)
    ultimately show ?thesis
      using assms(3) hd_emplace [of ?k i "tm_pending_events t"] by (auto simp: timer_armed_def)
  qed
qed

lemma calls_armed:
  assumes "mono clock" and "timer_armed clock t" and "tm_pending_events t' = tm_pending_events t"
    and "tm_armed t' = tm_armed t" and "tm_calls t \<le> tm_calls t'"
  shows "timer_armed clock t'"
proof -
  have "clock (tm_calls t) \<le> clock (tm_calls t')" using assms(1,5) by (simp add: mono_def)
  then show ?thesis using assms(2-4) by (fastforce simp: timer_armed_def)
qed

lemma delete_armed:
  assumes "timer_wf t" and "timer_armed clock t"
  shows "timer_armed clock (deleteTimerEvent i t)"
proof -
  let ?m = "erase_in_range (te_arrive_time (tm_store t i)) i (tm_pending_events t)"
  have "?m \<noteq> [] \<Longrightarrow> tm_pending_events t \<noteq> [] \<and> fst (hd (tm_pending_events t)) \<le> fst (hd ?m)"
    using assms(1) by (intro erase_hd [OF refl]) (simp_all add: timer_wf_def)
  with assms(2) show ?thesis
    by (fastforce simp: timer_armed_def deleteTimerEvent_def Let_def)
qed

lemma step_wf: "timer_step clock t t' \<Longrightarrow> timer_wf t \<Longrightarrow> timer_wf t'"
proof (induction rule: timer_step.induct)
  case (step_add i t interval rep cb)
  then show ?case by (intro wf_add wf_new) simp_all
next
  case (step_fire t)
  then obtain u where "snd (onTimer clock t) = timer_resetArriveTime clock u" "timer_wf u"
    using onTimer_state [of t _ clock] unfolding readd_spec_def by blast
  then show ?case by (subst wf_cong [of _ u]) simp_all
qed (simp_all add: wf_delete wf_cancel)

lemma step_armed:
  assumes "mono clock"
  shows "timer_step clock t t' \<Longrightarrow> timer_wf t \<Longrightarrow> timer_armed clock t \<Longrightarrow> timer_armed clock t'"
proof (induction rule: timer_step.induct)
  case (step_add i t interval rep cb)
  then have "timer_armed clock (TimerEvent_new clock i interval rep cb t)"
    by (intro calls_armed [OF assms step_add(3)]) simp_all
  with step_add assms show ?case by (intro add_armed wf_new) simp_all
next
  case (step_fire t)
  then obtain u where "snd (onTimer clock t) = timer_resetArriveTime clock u" "timer_wf u"
    using onTimer_state [of t _ clock] unfolding readd_spec_def by blast
  then show ?case using reset_armed [OF assms] by simp
next
  case (step_cancel t v i)
  then show ?case by (intro calls_armed [OF assms step_cancel(2)]) simp_all
qed (simp add: delete_armed)

lemma reset_settime: "settime_ok t \<Longrightarrow> settime_ok (timer_resetArriveTime clock t)"
proof (cases "tm_pending_events t")
  case (Cons e m)
  have "0 \<le> n div 1000" "0 \<le> n mod 1000 * 1000000" "n mod 1000 * 1000000 < 1000000000"
    "0 < n div 1000 \<or> 0 < n mod 1000 * 1000000" if "0 < n" for n :: int
    using that pos_mod_bound [of 1000 n] pos_mod_sign [of 1000 n] div_mult_mod_eq [of n 1000]
      pos_imp_zdiv_nonneg_iff [of 1000 n] by linarith+
  then show "settime_ok t \<Longrightarrow> settime_ok (timer_resetArriveTime clock t)"
    using Cons by (cases e) (auto simp: settime_ok_def timer_resetArriveTime_def Let_def)
qed (simp add: timer_resetArriveTime_def)

lemma settime_cong: "tm_settime t' = tm_settime t \<Longrightarrow> settime_ok t' = settime_ok t"
  by (simp add: settime_ok_def)

lemma add_settime: "settime_ok t \<Longrightarrow> settime_ok (addTimerEvent clock i t)"
  unfolding addTimerEvent_def Let_def
  by (auto intro!: reset_settime simp: settime_cong [of "tm_pending_events_update _ t" t] split: list.split)

lemma step_settime: "timer_step clock t t' \<Longrightarrow> settime_ok t \<Longrightarrow> settime_ok t'"
proof (induction rule: timer_step.induct)
  case (step_add i t interval rep cb)
  then show ?case by (intro add_settime) (simp add: settime_ok_def)
next
  case (step_fire t)
  have fold: "settime_ok (fold (readd clock) is u)" if "settime_ok u" for "is" u
    using that
  proof (induction "is" arbitrary: u)
    case (Cons j js)
    have "settime_ok (readd clock j u)"
      using Cons.prems
      by (auto intro!: add_settime simp: settime_cong [of "resetArriveTime_event clock j u" u])
    with Cons.IH show ?case by simp
  qed simp
  have "settime_ok (t\<lparr>tm_armed := None, tm_calls := n, tm_pending_events := m\<rparr>)" for n m
    using step_fire by (simp add: settime_ok_def)
  then show ?case by (simp add: onTimer_def Let_def reset_settime fold)
qed (simp_all add: settime_ok_def deleteTimerEvent_def Let_def)

section \<open>Properties\<close>

text \<open>C18. A tick of the timer runs exactly the pending events that are due and not cancelled, in
  the order of their times; afterwards nothing due is pending, everything later is still pending,
  and of the events that ran exactly the repeated ones are pending again, at a reading of the
  clock after the tick plus their interval.\<close>

theorem timer_tick:
  assumes "timer_wf t" and "now = clock (tm_calls t)" and "onTimer clock t = (tasks, t')"
  shows "tasks = map (\<lambda>(k, i). (k, te_task (tm_store t i))) (due_events now t) \<and>
         timer_wf t' \<and>
         (\<exists>again. set (tm_pending_events t') = {(k, i) \<in> set (tm_pending_events t). now < k} \<union> again \<and>
            snd ` again = {i \<in> snd ` set (due_events now t). te_is_repeated (tm_store t i)} \<and>
            (\<forall>(k, i) \<in> again. \<exists>n > tm_calls t. k = clock n + te_interval (tm_store t i)))"
proof -
  let ?is = "map snd (due_events now t)"
  obtain u where u: "t' = timer_resetArriveTime clock u"
    "readd_spec clock ?is (t\<lparr>tm_armed := None, tm_calls := Suc (tm_calls t),
        tm_pending_events := filter (\<lambda>(k, i). \<not> k \<le> now) (tm_pending_events t)\<rparr>) u"
    using onTimer_state [where clock = clock, OF assms(1,2)] assms(3) by auto
  let ?again = "{(te_arrive_time (tm_store u i), i) | i. i \<in> set ?is \<and> te_is_repeated (tm_store t i)}"
  have "set (tm_pending_events t') = {(k, i) \<in> set (tm_pending_events t). now < k} \<union> ?again"
    using u by (auto simp: readd_spec_def)
  moreover have "snd ` ?again = {i \<in> snd ` set (due_events now t). te_is_repeated (tm_store t i)}"
    by force
  moreover have "\<forall>(k, i) \<in> ?again. \<exists>n > tm_calls t. k = clock n + te_interval (tm_store t i)"
    using u(2) by (auto simp: readd_spec_def Suc_le_eq)
  moreover have "timer_wf t'" using u wf_cong [of t' u] by (simp add: readd_spec_def)
  moreover have "tasks = map (\<lambda>(k, i). (k, te_task (tm_store t i))) (due_events now t)"
    using onTimer_tasks [OF assms(1), of clock] assms(2,3) by simp
  ultimately show ?thesis by blast
qed

theorem timer_tick_witness:
  "fst (onTimer (\<lambda>_. 20) ((timer_new 3)\<lparr>tm_pending_events := [(10, 0), (30, 1)],
     tm_store := (\<lambda>i. \<lparr>te_arrive_time = 10 + 20 * int i, te_interval = 10, te_is_repeated = True,
       te_is_cancled = False, te_task = Some (User_callback i)\<rparr>)\<rparr>)) = [(10, Some (User_callback 0))]"
proof -
  define w where "w = (timer_new 3)\<lparr>tm_pending_events := [(10, 0), (30, 1)],
     tm_store := (\<lambda>i. \<lparr>te_arrive_time = 10 + 20 * int i, te_interval = 10, te_is_repeated = True,
       te_is_cancled = False, te_task = Some (User_callback i)\<rparr>)\<rparr>"
  have "timer_wf w" by (simp add: w_def timer_wf_def)
  from timer_tick [OF this, of 20 "\<lambda>_. 20" "fst (onTimer (\<lambda>_. 20) w)" "snd (onTimer (\<lambda>_. 20) w)"]
  have "fst (onTimer (\<lambda>_. 20) w) = map (\<lambda>(k, i). (k, te_task (tm_store w i))) (due_events 20 w)" by simp
  also have "\<dots> = [(10, Some (User_callback 0))]" by (simp add: w_def due_events_def)
  finally show ?thesis by (simp add: w_def)
qed

text \<open>C19. No timed task is forgotten: under a clock that never goes back, whatever sequence of new
  events, deletions, cancellations and ticks runs, while an event is pending the \<open>timerfd\<close> is armed
  for a moment no later than the first event's time, or 100 ms from now when that time has passed,
  and it was always armed with a valid, non-zero time.\<close>

theorem timer_never_forgets:
  assumes "mono clock" and "(timer_step clock)\<^sup>*\<^sup>* (timer_new fd) t"
  shows "timer_wf t \<and> timer_armed clock t \<and> settime_ok t"
  using assms(2)
proof (induction rule: rtranclp_induct)
  case base
  show ?case by (simp add: timer_new_def timer_wf_def timer_armed_def settime_ok_def)
next
  case (step t t')
  then show ?case using step_wf step_armed [OF assms(1)] step_settime by blast
qed

theorem timer_never_forgets_witness:
  "timer_armed (\<lambda>n. int n) (addTimerEvent (\<lambda>n. int n) 0
     (TimerEvent_new (\<lambda>n. int n) 0 5000 False (Some (User_callback 0)) (timer_new 3)))"
proof -
  have "timer_step (\<lambda>n. int n) (timer_new 3) (addTimerEvent (\<lambda>n. int n) 0
     (TimerEvent_new (\<lambda>n. int n) 0 5000 False (Some (User_callback 0)) (timer_new 3)))"
    by (rule step_add) (simp add: timer_new_def)
  then show ?thesis
    using timer_never_forgets [OF _ r_into_rtranclp] by (simp add: mono_def)
qed

end
