(* ===== verification/Event_Loop.thy ===== *)
theory Event_Loop
  imports Timer
begin

text \<open>
  \<open>net/eventloop.{h,cc}\<close> and \<open>net/wakeup_fd_event.{h,cc}\<close>: the reactor each thread runs.  The system
  calls it makes are recorded in order.  Two views of it are given: the operations as functions on
  the object, with \<open>loop\<close> as a function of the results \<open>epoll_wait\<close> returns, and the interleaving of
  \<open>loop\<close> with \<open>addTask\<close> calls of other threads as a step relation, in which taking the mutex, the
  write to the wake-up descriptor and the wait are separate steps.
\<close>

section \<open>State\<close>

datatype loop_task = Task_Run callback | Task_Add_Epoll int | Task_Delete_Epoll int

datatype epoll_op = EPOLL_CTL_ADD | EPOLL_CTL_MOD | EPOLL_CTL_DEL

datatype sys_call =
    Sys_Epoll_Ctl epoll_op int "32 word"
  | Sys_Write int "char list"

record event_loop =
  el_thread_id :: int
  el_epoll_fd :: int
  el_wakeup_fd_event :: fd_event
  el_quit :: bool
  el_listen_fds :: "int set"
  el_pending_tasks :: "loop_task option list"    \<comment> \<open>\<open>None\<close> is an empty \<open>std::function\<close>\<close>
  el_timer :: timer
  el_is_looping :: bool
  el_calls :: "sys_call list"

section \<open>Operations\<close>

definition WakeUpFdEvent_wakeup :: "fd_event \<Rightarrow> sys_call" where
  "WakeUpFdEvent_wakeup e = Sys_Write (fe_fd e) (CHR ''a'' # replicate 7 NUL)"

definition EventLoop_wakeup :: "event_loop \<Rightarrow> event_loop" where
  "EventLoop_wakeup el = el\<lparr>el_calls := el_calls el @ [WakeUpFdEvent_wakeup (el_wakeup_fd_event el)]\<rparr>"

definition push_task :: "loop_task option \<Rightarrow> event_loop \<Rightarrow> event_loop" where
  \<comment> \<open>the block of \<open>addTask\<close> under the mutex\<close>
  "push_task cb el = el\<lparr>el_pending_tasks := el_pending_tasks el @ [cb]\<rparr>"

definition addTask :: "loop_task option \<Rightarrow> bool \<Rightarrow> event_loop \<Rightarrow> event_loop" where
  "addTask cb is_wake_up el =
     (let el = push_task cb el in if is_wake_up then EventLoop_wakeup el else el)"

definition ADD_TO_EPOLL :: "fd_event \<Rightarrow> event_loop \<Rightarrow> event_loop" where
  "ADD_TO_EPOLL event el =
     (let op = (if fe_fd event \<in> el_listen_fds el then EPOLL_CTL_MOD else EPOLL_CTL_ADD)
      in el\<lparr>el_calls := el_calls el @ [Sys_Epoll_Ctl op (fe_fd event) (fe_events event)],
            el_listen_fds := insert (fe_fd event) (el_listen_fds el)\<rparr>)"

definition DELETE_TO_EPOLL :: "fd_event \<Rightarrow> event_loop \<Rightarrow> event_loop" where
  "DELETE_TO_EPOLL event el =
     (if fe_fd event \<notin> el_listen_fds el then el
      else el\<lparr>el_calls := el_calls el @ [Sys_Epoll_Ctl EPOLL_CTL_DEL (fe_fd event) 0],
              el_listen_fds := el_listen_fds el - {fe_fd event}\<rparr>)"

definition isInLoopThread :: "int \<Rightarrow> event_loop \<Rightarrow> bool" where
  \<comment> \<open>\<open>tid\<close> is \<open>getThreadId()\<close> of the caller\<close>
  "isInLoopThread tid el \<longleftrightarrow> tid = el_thread_id el"

definition addEpollEvent :: "int \<Rightarrow> fd_event \<Rightarrow> event_loop \<Rightarrow> event_loop" where
  "addEpollEvent tid event el =
     (if isInLoopThread tid el then ADD_TO_EPOLL event el
      else addTask (Some (Task_Add_Epoll (fe_fd event))) True el)"

definition deleteEpollEvent :: "int \<Rightarrow> fd_event \<Rightarrow> event_loop \<Rightarrow> event_loop" where
  "deleteEpollEvent tid event el =
     (if isInLoopThread tid el then DELETE_TO_EPOLL event el
      else addTask (Some (Task_Delete_Epoll (fe_fd event))) True el)"

definition EventLoop_stop :: "event_loop \<Rightarrow> event_loop" where
  "EventLoop_stop el = EventLoop_wakeup (el\<lparr>el_quit := True\<rparr>)"

definition EventLoop_addTimerEvent :: "clock \<Rightarrow> nat \<Rightarrow> event_loop \<Rightarrow> event_loop" where
  "EventLoop_addTimerEvent clock event el = el\<lparr>el_timer := addTimerEvent clock event (el_timer el)\<rparr>"

definition initWakeUpFdEvent :: "int \<Rightarrow> event_loop \<Rightarrow> event_loop option" where
  \<comment> \<open>\<open>None\<close> is \<open>exit(0)\<close>; the argument is the result of \<open>eventfd\<close>\<close>
  "initWakeUpFdEvent wakeup_fd el =
     (if wakeup_fd < 0 then None
      else let e = fd_listen IN_EVENT (Some Wakeup_read) None (fd_event_new wakeup_fd)
           in Some (addEpollEvent (el_thread_id el) e (el\<lparr>el_wakeup_fd_event := e\<rparr>)))"

definition initTimer :: "int \<Rightarrow> event_loop \<Rightarrow> event_loop" where
  "initTimer timer_fd el =
     (let el = el\<lparr>el_timer := timer_new timer_fd\<rparr>
      in addEpollEvent (el_thread_id el) (tm_fd_event (el_timer el)) el)"

definition EventLoop_new :: "event_loop option \<Rightarrow> int \<Rightarrow> int \<Rightarrow> int \<Rightarrow> int \<Rightarrow> event_loop option" where
  "EventLoop_new t_current_eventloop tid epoll_fd wakeup_fd timer_fd =
     (if t_current_eventloop \<noteq> None then None
      else if epoll_fd = - 1 then None
      else case initWakeUpFdEvent wakeup_fd
             \<lparr>el_thread_id = tid, el_epoll_fd = epoll_fd, el_wakeup_fd_event = fd_event_new 0,
              el_quit = False, el_listen_fds = {}, el_pending_tasks = [], el_timer = timer_new 0,
              el_is_looping = False, el_calls = []\<rparr> of
             None \<Rightarrow> None
           | Some el \<Rightarrow> Some (initTimer timer_fd el))"

definition GetCurrentEventLoop :: "event_loop option \<Rightarrow> int \<Rightarrow> int \<Rightarrow> int \<Rightarrow> int \<Rightarrow> event_loop option" where
  "GetCurrentEventLoop t_current_eventloop tid epoll_fd wakeup_fd timer_fd =
     (case t_current_eventloop of Some el \<Rightarrow> Some el
      | None \<Rightarrow> EventLoop_new None tid epoll_fd wakeup_fd timer_fd)"

section \<open>The loop\<close>

text \<open>
  The world of a running loop: the loop, the \<open>FdEvent\<close> objects by descriptor, and whatever else the
  callbacks work on.  \<open>call cb\<close> is the effect of the function \<open>cb\<close> is bound to.  A result of
  \<open>epoll_wait\<close> is \<open>None\<close> for an error, or the ready entries with the descriptor of their object
  (\<open>None\<close> for a null pointer).
\<close>

record 'w loop_world =
  lw_loop :: event_loop
  lw_events :: "int \<Rightarrow> fd_event"
  lw_rest :: 'w

type_synonym ready = "int option \<times> 32 word"

definition with_loop :: "(event_loop \<Rightarrow> event_loop) \<Rightarrow> 'w loop_world \<Rightarrow> 'w loop_world" where
  "with_loop f w = w\<lparr>lw_loop := f (lw_loop w)\<rparr>"

fun run_task :: "(callback \<Rightarrow> 'w loop_world \<Rightarrow> 'w loop_world) \<Rightarrow> loop_task option \<Rightarrow> 'w loop_world \<Rightarrow> 'w loop_world" where
  "run_task call None w = w"
| "run_task call (Some (Task_Run cb)) w = call cb w"
| "run_task call (Some (Task_Add_Epoll fd)) w = with_loop (ADD_TO_EPOLL (lw_events w fd)) w"
| "run_task call (Some (Task_Delete_Epoll fd)) w = with_loop (DELETE_TO_EPOLL (lw_events w fd)) w"

definition run_pending :: "(callback \<Rightarrow> 'w loop_world \<Rightarrow> 'w loop_world) \<Rightarrow> 'w loop_world \<Rightarrow> 'w loop_world" where
  "run_pending call w =
     (let tmp_tasks = el_pending_tasks (lw_loop w);
          w = with_loop (el_pending_tasks_update (\<lambda>_. [])) w
      in fold (run_task call) tmp_tasks w)"

definition handle_ready :: "ready \<Rightarrow> 'w loop_world \<Rightarrow> 'w loop_world" where
  "handle_ready trigger_event w =
     (case trigger_event of
        (None, _) \<Rightarrow> w
      | (Some fd, events) \<Rightarrow>
          let fd_event = lw_events w fd;
              w = (if events AND EPOLLIN \<noteq> 0
                   then with_loop (addTask (map_option Task_Run (fd_handler IN_EVENT fd_event)) False) w else w);
              w = (if events AND EPOLLOUT \<noteq> 0
                   then with_loop (addTask (map_option Task_Run (fd_handler OUT_EVENT fd_event)) False) w else w)
          in if events AND EPOLLERR \<noteq> 0
             then let w = with_loop (deleteEpollEvent (el_thread_id (lw_loop w)) fd_event) w
                  in if fd_handler ERROR_EVENT fd_event \<noteq> None
                     then with_loop (addTask (map_option Task_Run (fd_handler OUT_EVENT fd_event)) False) w
                     else w
             else w)"

fun loop_rounds ::
  "(callback \<Rightarrow> 'w loop_world \<Rightarrow> 'w loop_world) \<Rightarrow> ready list option list \<Rightarrow> 'w loop_world \<Rightarrow> 'w loop_world" where
  "loop_rounds call [] w = w"
| "loop_rounds call (rt # waits) w =
     (if el_quit (lw_loop w) then w
      else let w = run_pending call w
           in loop_rounds call waits (case rt of None \<Rightarrow> w | Some result_events \<Rightarrow> fold handle_ready result_events w))"

definition EventLoop_loop ::
  "(callback \<Rightarrow> 'w loop_world \<Rightarrow> 'w loop_world) \<Rightarrow> ready list option list \<Rightarrow> 'w loop_world \<Rightarrow> 'w loop_world" where
  \<comment> \<open>as far as the results of \<open>epoll_wait\<close> given reach\<close>
  "EventLoop_loop call waits w =
     loop_rounds call waits (with_loop (el_is_looping_update (\<lambda>_. True)) w)"

lemmas loop_op_defs = addTask_def push_task_def EventLoop_wakeup_def ADD_TO_EPOLL_def
  DELETE_TO_EPOLL_def isInLoopThread_def addEpollEvent_def deleteEpollEvent_def Let_def

lemma lw_with_loop [simp]: "lw_loop (with_loop f w) = f (lw_loop w)" "lw_events (with_loop f w) = lw_events w"
  "lw_rest (with_loop f w) = lw_rest w"
  by (simp_all add: with_loop_def)

section \<open>The kernel's view of the registrations\<close>

text \<open>
  \<open>registered calls fd\<close> is the registration the issued calls leave for \<open>fd\<close>; \<open>ctl_ok\<close> says that no call
  could be refused for a descriptor already registered (\<open>ADD\<close>) or not registered (\<open>MOD\<close>, \<open>DEL\<close>).
\<close>

fun registered :: "sys_call list \<Rightarrow> int \<Rightarrow> 32 word option" where
  \<comment> \<open>the calls from the most recent backwards\<close>
  "registered [] fd = None"
| "registered (Sys_Epoll_Ctl op fd' ev # calls) fd =
     (if fd' = fd then (if op = EPOLL_CTL_DEL then None else Some ev) else registered calls fd)"
| "registered (Sys_Write fd' bs # calls) fd = registered calls fd"

fun ctl_ok :: "sys_call list \<Rightarrow> bool" where
  "ctl_ok [] = True"
| "ctl_ok (Sys_Epoll_Ctl op fd ev # calls) =
     (ctl_ok calls \<and> (registered calls fd = None \<longleftrightarrow> op = EPOLL_CTL_ADD))"
| "ctl_ok (Sys_Write fd bs # calls) = ctl_ok calls"

definition loop_in_sync :: "event_loop \<Rightarrow> bool" where
  "loop_in_sync el \<longleftrightarrow> ctl_ok (rev (el_calls el)) \<and> el_listen_fds el = dom (registered (rev (el_calls el)))"

datatype loop_call =
    Call_add int fd_event | Call_delete int fd_event | Call_addTask "loop_task option" bool
  | Call_stop | Call_run_pending

fun loop_call_step :: "loop_call \<Rightarrow> unit loop_world \<Rightarrow> unit loop_world" where
  \<comment> \<open>the first argument of \<open>Call_add\<close> and \<open>Call_delete\<close> is the calling thread; an \<open>FdEvent\<close> is shared\<close>
  "loop_call_step (Call_add tid e) w =
     with_loop (addEpollEvent tid e) (w\<lparr>lw_events := (lw_events w)(fe_fd e := e)\<rparr>)"
| "loop_call_step (Call_delete tid e) w =
     with_loop (deleteEpollEvent tid e) (w\<lparr>lw_events := (lw_events w)(fe_fd e := e)\<rparr>)"
| "loop_call_step (Call_addTask t wake) w = with_loop (addTask t wake) w"
| "loop_call_step Call_stop w = with_loop EventLoop_stop w"
| "loop_call_step Call_run_pending w = run_pending (\<lambda>cb w. w) w"

lemma in_sync_add: "loop_in_sync el \<Longrightarrow> loop_in_sync (ADD_TO_EPOLL e el)"
  by (auto simp: loop_in_sync_def ADD_TO_EPOLL_def Let_def split: if_splits)

lemma in_sync_delete: "loop_in_sync el \<Longrightarrow> loop_in_sync (DELETE_TO_EPOLL e el)"
  by (auto simp: loop_in_sync_def DELETE_TO_EPOLL_def split: if_splits)

lemma registered_write [simp]: "registered (Sys_Write fd bs # calls) = registered calls"
  by (simp add: fun_eq_iff)

lemma in_sync_wakeup: "loop_in_sync (EventLoop_wakeup el) = loop_in_sync el"
  by (simp add: loop_in_sync_def EventLoop_wakeup_def WakeUpFdEvent_wakeup_def)

lemma in_sync_cong:
  "el_calls el' = el_calls el \<Longrightarrow> el_listen_fds el' = el_listen_fds el \<Longrightarrow> loop_in_sync el' = loop_in_sync el"
  by (simp add: loop_in_sync_def)

lemma in_sync_addTask: "loop_in_sync (addTask t wake el) = loop_in_sync el"
  by (auto simp: addTask_def push_task_def Let_def in_sync_wakeup in_sync_cong [of "el_pending_tasks_update _ el" el])

lemma in_sync_epoll:
  "loop_in_sync el \<Longrightarrow> loop_in_sync (addEpollEvent tid e el)"
  "loop_in_sync el \<Longrightarrow> loop_in_sync (deleteEpollEvent tid e el)"
  by (simp_all add: addEpollEvent_def deleteEpollEvent_def in_sync_addTask in_sync_add in_sync_delete)

lemma in_sync_run_task: "loop_in_sync (lw_loop w) \<Longrightarrow> loop_in_sync (lw_loop (run_task (\<lambda>cb w. w) t w))"
  by (cases t; cases "the t") (auto simp: in_sync_add in_sync_delete)

lemma in_sync_run_pending: "loop_in_sync (lw_loop w) \<Longrightarrow> loop_in_sync (lw_loop (run_pending (\<lambda>cb w. w) w))"
proof -
  have "loop_in_sync (lw_loop u) \<Longrightarrow> loop_in_sync (lw_loop (fold (run_task (\<lambda>cb w. w)) ts u))" for ts and u :: "'a loop_world"
    by (induction ts arbitrary: u) (simp_all add: in_sync_run_task)
  moreover assume "loop_in_sync (lw_loop w)"
  ultimately show ?thesis
    by (simp add: run_pending_def Let_def in_sync_cong [of "el_pending_tasks_update _ (lw_loop w)" "lw_loop w"])
qed

lemma in_sync_handle_ready: "loop_in_sync (lw_loop w) \<Longrightarrow> loop_in_sync (lw_loop (handle_ready r w))"
  by (cases r) (auto simp: handle_ready_def Let_def in_sync_addTask in_sync_epoll split: option.split)

lemma EventLoop_new_in_sync:
  assumes "EventLoop_new None tid epoll_fd wakeup_fd timer_fd = Some el"
  shows "loop_in_sync el"
proof -
  have init: "el_calls el = [] \<Longrightarrow> el_listen_fds el = {} \<Longrightarrow> loop_in_sync el" for el
    by (simp add: loop_in_sync_def dom_def)
  have timer: "loop_in_sync (el\<lparr>el_timer := t\<rparr>) = loop_in_sync el" for el t
    by (intro in_sync_cong) simp_all
  show ?thesis
    using assms unfolding EventLoop_new_def initWakeUpFdEvent_def initTimer_def Let_def
    by (auto split: if_splits intro!: in_sync_epoll simp: timer init)
qed

text \<open>C22. The loop's own set of descriptors never disagrees with the registrations it asked the kernel
  for: after any calls of \<open>addEpollEvent\<close>, \<open>deleteEpollEvent\<close>, \<open>addTask\<close> and \<open>stop\<close>, from the loop's
  thread or any other, and any runs of the queued tasks, no \<open>epoll_ctl\<close> call was an \<open>ADD\<close> of a
  registered descriptor or a \<open>MOD\<close> or \<open>DEL\<close> of one that is not.\<close>

theorem epoll_in_sync:
  assumes "EventLoop_new None tid epoll_fd wakeup_fd timer_fd = Some el"
  shows "loop_in_sync (lw_loop (fold loop_call_step calls \<lparr>lw_loop = el, lw_events = ev, lw_rest = ()\<rparr>))"
proof -
  have "loop_in_sync el" using assms by (rule EventLoop_new_in_sync)
  moreover have "loop_in_sync (lw_loop (fold loop_call_step calls w))" if "loop_in_sync (lw_loop w)" for w
    using that
  proof (induction calls arbitrary: w)
    case (Cons c calls)
    then have "loop_in_sync (lw_loop (loop_call_step c w))"
      by (cases c) (simp_all add: in_sync_epoll in_sync_addTask in_sync_run_pending EventLoop_stop_def
          in_sync_wakeup in_sync_cong [of "el_quit_update _ (lw_loop w)" "lw_loop w"])
    with Cons.IH show ?case by simp
  qed simp
  ultimately show ?thesis by simp
qed

theorem epoll_in_sync_witness:
  "\<exists>el. EventLoop_new None 1 3 4 5 = Some el \<and>
     loop_in_sync (lw_loop (fold loop_call_step [Call_add 2 (fd_event_new 7), Call_run_pending]
       \<lparr>lw_loop = el, lw_events = fd_event_new, lw_rest = ()\<rparr>))"
proof -
  obtain el where "EventLoop_new None 1 3 4 5 = Some el"
    by (simp add: EventLoop_new_def initWakeUpFdEvent_def Let_def)
  with epoll_in_sync [OF this] show ?thesis by blast
qed

section \<open>What a ready descriptor queues\<close>

definition ready_tasks :: "fd_event \<Rightarrow> 32 word \<Rightarrow> loop_task option list" where
  "ready_tasks e events =
     (if events AND EPOLLIN \<noteq> 0 then [map_option Task_Run (fd_handler IN_EVENT e)] else []) @
     (if events AND EPOLLOUT \<noteq> 0 then [map_option Task_Run (fd_handler OUT_EVENT e)] else []) @
     (if events AND EPOLLERR \<noteq> 0 \<and> fd_handler ERROR_EVENT e \<noteq> None
      then [map_option Task_Run (fd_handler OUT_EVENT e)] else [])"

lemma handle_ready_pending:
  "el_pending_tasks (lw_loop (handle_ready (Some fd, events) w)) =
     el_pending_tasks (lw_loop w) @ ready_tasks (lw_events w fd) events"
  by (simp add: handle_ready_def ready_tasks_def loop_op_defs)

lemma handle_ready_null [simp]: "handle_ready (None, events) w = w"
  by (simp add: handle_ready_def)

lemma handle_ready_listen:
  "el_listen_fds (lw_loop (handle_ready (Some fd, events) w)) =
     (if events AND EPOLLERR \<noteq> 0 then el_listen_fds (lw_loop w) - {fe_fd (lw_events w fd)}
      else el_listen_fds (lw_loop w))"
  by (auto simp: handle_ready_def loop_op_defs)

lemma handle_ready_events [simp]: "lw_events (handle_ready r w) = lw_events w"
  by (cases r) (simp add: handle_ready_def Let_def split: option.split)

lemma fold_handle_ready:
  "el_pending_tasks (lw_loop (fold handle_ready rs w)) = el_pending_tasks (lw_loop w) @
     concat (map (\<lambda>(p, events). case p of None \<Rightarrow> [] | Some fd \<Rightarrow> ready_tasks (lw_events w fd) events) rs)"
proof (induction rs arbitrary: w)
  case (Cons r rs)
  obtain p events where r: "r = (p, events)" by (cases r)
  with Cons.IH [of "handle_ready r w"] show ?case
    unfolding handle_ready_events by (cases p) (simp_all add: handle_ready_pending)
qed simp

definition errored_fds :: "(int \<Rightarrow> fd_event) \<Rightarrow> ready list \<Rightarrow> int list" where
  \<comment> \<open>the descriptors reported with an error\<close>
  "errored_fds ev results = concat (map (\<lambda>(p, events). case p of None \<Rightarrow> []
     | Some fd \<Rightarrow> if events AND EPOLLERR \<noteq> 0 then [fe_fd (ev fd)] else []) results)"

lemma errored_fds_Cons:
  "set (errored_fds ev (r # results)) = (case r of (None, _) \<Rightarrow> {}
     | (Some fd, events) \<Rightarrow> if events AND EPOLLERR \<noteq> 0 then {fe_fd (ev fd)} else {}) \<union> set (errored_fds ev results)"
  by (cases r) (simp add: errored_fds_def split: option.split)

lemma fold_handle_ready_listen:
  "el_listen_fds (lw_loop (fold handle_ready rs w)) = el_listen_fds (lw_loop w) - set (errored_fds (lw_events w) rs)"
proof (induction rs arbitrary: w)
  case (Cons r rs)
  obtain p events where r: "r = (p, events)" by (cases r)
  with Cons.IH [of "handle_ready r w"] show ?case
    unfolding handle_ready_events errored_fds_Cons by (cases p) (auto simp: handle_ready_listen)
qed (simp add: errored_fds_def)

lemma fold_handle_ready_in_sync:
  "loop_in_sync (lw_loop w) \<Longrightarrow> loop_in_sync (lw_loop (fold handle_ready rs w))"
  by (induction rs arbitrary: w) (simp_all add: in_sync_handle_ready)

lemma handle_ready_rest [simp]: "lw_rest (handle_ready r w) = lw_rest w"
  by (cases r) (simp add: handle_ready_def Let_def split: option.split)

lemma fold_handle_ready_rest [simp]:
  "lw_events (fold handle_ready rs w) = lw_events w" "lw_rest (fold handle_ready rs w) = lw_rest w"
  by (induction rs arbitrary: w) simp_all

lemma in_sync_gone: "loop_in_sync el \<Longrightarrow> fd \<notin> el_listen_fds el \<Longrightarrow> registered (rev (el_calls el)) fd = None"
  by (auto simp: loop_in_sync_def)

text \<open>C23. One turn of the loop whose callbacks do not queue work themselves runs the queued tasks, in
  order, runs no handler of a ready descriptor in the same turn, and leaves in the queue exactly the
  handlers of the ready descriptors, in the order \<open>epoll_wait\<close> reported them.  Exactly the descriptors
  reported in error leave the set, and when the set agreed with the registrations after the tasks (as
  C22 has it), they are no longer registered with the kernel.  If such a descriptor has an error
  callback, the handler queued for it is the write handler: the error callback itself is never run.\<close>

theorem loop_turn_tasks:
  assumes "\<not> el_quit (lw_loop w)"
    and "\<And>t w. el_pending_tasks (lw_loop (run_task call t w)) = el_pending_tasks (lw_loop w)"
    and "fold (run_task call) (el_pending_tasks (lw_loop w))
           (with_loop (el_pending_tasks_update (\<lambda>_. []) \<circ> el_is_looping_update (\<lambda>_. True)) w) = u"
    and "EventLoop_loop call [Some results] w = v"
  shows "lw_rest v = lw_rest u \<and> lw_events v = lw_events u \<and>
         el_pending_tasks (lw_loop v) =
           concat (map (\<lambda>(p, events). case p of None \<Rightarrow> [] | Some fd \<Rightarrow> ready_tasks (lw_events u fd) events) results) \<and>
         el_listen_fds (lw_loop v) = el_listen_fds (lw_loop u) - set (errored_fds (lw_events u) results) \<and>
         (loop_in_sync (lw_loop u) \<longrightarrow> loop_in_sync (lw_loop v) \<and>
            (\<forall>fd \<in> set (errored_fds (lw_events u) results). registered (rev (el_calls (lw_loop v))) fd = None)) \<and>
         (\<forall>e ecb. fd_handler ERROR_EVENT e = Some ecb \<longrightarrow>
            ready_tasks e EPOLLERR = [map_option Task_Run (fd_handler OUT_EVENT e)])"
proof -
  have empty: "el_pending_tasks (lw_loop (fold (run_task call) ts v)) = el_pending_tasks (lw_loop v)" for ts v
    by (induction ts arbitrary: v) (simp_all add: assms(2))
  have v: "v = fold handle_ready results u"
    using assms by (simp add: EventLoop_loop_def run_pending_def with_loop_def Let_def flip: assms(3,4))
  have "el_pending_tasks (lw_loop u) = []" by (simp add: empty flip: assms(3))
  then have "el_pending_tasks (lw_loop v) = concat (map (\<lambda>(p, events). case p of None \<Rightarrow> []
      | Some fd \<Rightarrow> ready_tasks (lw_events u fd) events) results)" by (simp add: v fold_handle_ready)
  moreover have "ready_tasks e EPOLLERR = [map_option Task_Run (fd_handler OUT_EVENT e)]"
    if "fd_handler ERROR_EVENT e = Some ecb" for e ecb
    using that by (simp add: ready_tasks_def)
  ultimately show ?thesis
    using fold_handle_ready_in_sync [of u results] in_sync_gone [of "lw_loop v"]
    by (simp add: v fold_handle_ready_listen)
qed

theorem loop_turn_tasks_witness:
  "\<exists>el. EventLoop_new None 1 3 4 5 = Some el \<and> el_listen_fds el = {4, 5} \<and>
     (let v = EventLoop_loop (\<lambda>cb w. w) [Some [(Some 4, EPOLLIN), (Some 5, EPOLLERR)]]
       \<lparr>lw_loop = el, lw_events = (\<lambda>fd. fd_listen IN_EVENT (Some Wakeup_read) None (fd_event_new fd)), lw_rest = ()\<rparr>
      in el_pending_tasks (lw_loop v) = [Some (Task_Run Wakeup_read)] \<and> el_listen_fds (lw_loop v) = {4} \<and>
         registered (rev (el_calls (lw_loop v))) 5 = None)"
proof -
  obtain el where el: "EventLoop_new None 1 3 4 5 = Some el" "\<not> el_quit el" "el_pending_tasks el = []"
      "el_listen_fds el = {4, 5}"
    by (auto simp: EventLoop_new_def initWakeUpFdEvent_def initTimer_def loop_op_defs timer_new_def)
  note sync = EventLoop_new_in_sync [OF el(1)]
  let ?ev = "\<lambda>fd. fd_listen IN_EVENT (Some Wakeup_read) None (fd_event_new fd)"
  let ?w = "\<lparr>lw_loop = el, lw_events = ?ev, lw_rest = ()\<rparr>"
  let ?u = "with_loop (el_pending_tasks_update (\<lambda>_. []) \<circ> el_is_looping_update (\<lambda>_. True)) ?w"
  have "el_pending_tasks (lw_loop (run_task (\<lambda>cb w. w) t w)) = el_pending_tasks (lw_loop w)" for t and w :: "unit loop_world"
    by (cases t; cases "the t") (auto simp: ADD_TO_EPOLL_def DELETE_TO_EPOLL_def Let_def)
  moreover have "loop_in_sync (lw_loop ?u)" using sync by (simp add: loop_in_sync_def)
  moreover have "set (errored_fds (lw_events ?u) [(Some 4, EPOLLIN), (Some 5, EPOLLERR)]) = {5}"
    by (simp add: errored_fds_def)
  ultimately show ?thesis
    using loop_turn_tasks [of ?w "\<lambda>cb w. w" ?u "[(Some 4, EPOLLIN), (Some 5, EPOLLERR)]", OF _ _ _ refl] el
    by (auto simp: ready_tasks_def Let_def)
qed

section \<open>The loop among other threads\<close>

text \<open>
  The interleaving view.  \<open>lc_counter\<close> is the number of unread writes to the wake-up descriptor,
  \<open>lc_writers\<close> the number of threads between the mutex block of \<open>addTask\<close> (or the assignment in
  \<open>stop\<close>) and their write to it.  The two histories record what was queued and what was run.  The
  wake-up handler, run like every handler as a task of the next turn, reads the descriptor empty.
\<close>

datatype loop_pc = At_Test | Running | Waiting | Returned

record loop_conc =
  lc_loop :: event_loop
  lc_tmp_tasks :: "loop_task option list"
  lc_pc :: loop_pc
  lc_counter :: nat
  lc_writers :: nat
  lc_queued :: "loop_task option list"
  lc_run :: "loop_task option list"

datatype conc_event =
    Ev_push "loop_task option" bool       \<comment> \<open>\<open>addTask\<close>, the block under the mutex\<close>
  | Ev_wakeup                             \<comment> \<open>its write to the wake-up descriptor, or that of \<open>stop\<close>\<close>
  | Ev_stop                               \<comment> \<open>\<open>m_quit = true\<close>\<close>
  | Ev_swap | Ev_return                   \<comment> \<open>the test of \<open>m_quit\<close> and the swap of the queues\<close>
  | Ev_task                               \<comment> \<open>the next task of \<open>tmp_tasks\<close>\<close>
  | Ev_wait                               \<comment> \<open>the call of \<open>epoll_wait\<close>\<close>
  | Ev_ready bool "loop_task option list" \<comment> \<open>its return, with the wake-up descriptor or not, and other handlers\<close>

abbreviation wakeup_handler :: "loop_task option" where "wakeup_handler \<equiv> Some (Task_Run Wakeup_read)"

fun conc_do :: "conc_event \<Rightarrow> loop_conc \<Rightarrow> loop_conc option" where
  "conc_do (Ev_push t wake) s =
     Some (s\<lparr>lc_loop := push_task t (lc_loop s), lc_queued := lc_queued s @ [t],
             lc_writers := (if wake then Suc (lc_writers s) else lc_writers s)\<rparr>)"
| "conc_do Ev_wakeup s =
     (if lc_writers s = 0 then None
      else Some (s\<lparr>lc_loop := EventLoop_wakeup (lc_loop s), lc_writers := lc_writers s - 1,
                   lc_counter := Suc (lc_counter s)\<rparr>))"
| "conc_do Ev_stop s =
     Some (s\<lparr>lc_loop := (lc_loop s)\<lparr>el_quit := True\<rparr>, lc_writers := Suc (lc_writers s)\<rparr>)"
| "conc_do Ev_swap s =
     (if lc_pc s = At_Test \<and> \<not> el_quit (lc_loop s)
      then Some (s\<lparr>lc_tmp_tasks := el_pending_tasks (lc_loop s),
                   lc_loop := (lc_loop s)\<lparr>el_pending_tasks := []\<rparr>, lc_pc := Running\<rparr>) else None)"
| "conc_do Ev_return s =
     (if lc_pc s = At_Test \<and> el_quit (lc_loop s) then Some (s\<lparr>lc_pc := Returned\<rparr>) else None)"
| "conc_do Ev_task s =
     (case lc_tmp_tasks s of [] \<Rightarrow> None
      | t # ts \<Rightarrow> if lc_pc s = Running
          then Some (s\<lparr>lc_tmp_tasks := ts, lc_run := lc_run s @ [t],
                       lc_counter := (if t = wakeup_handler then 0 else lc_counter s)\<rparr>) else None)"
| "conc_do Ev_wait s =
     (if lc_pc s = Running \<and> lc_tmp_tasks s = [] then Some (s\<lparr>lc_pc := Waiting\<rparr>) else None)"
| "conc_do (Ev_ready wake ts) s =
     (if lc_pc s = Waiting \<and> (wake \<longrightarrow> 0 < lc_counter s) \<and> wakeup_handler \<notin> set ts
      then let ts = (if wake then wakeup_handler # ts else ts) in
           Some (s\<lparr>lc_loop := fold push_task ts (lc_loop s), lc_queued := lc_queued s @ ts, lc_pc := At_Test\<rparr>)
      else None)"

fun conc_run :: "conc_event list \<Rightarrow> loop_conc \<Rightarrow> loop_conc option" where
  "conc_run [] s = Some s"
| "conc_run (e # es) s = (case conc_do e s of None \<Rightarrow> None | Some s \<Rightarrow> conc_run es s)"

definition conc_init :: "event_loop \<Rightarrow> loop_conc" where
  "conc_init el = \<lparr>lc_loop = el, lc_tmp_tasks = [], lc_pc = At_Test, lc_counter = 0, lc_writers = 0,
     lc_queued = el_pending_tasks el, lc_run = []\<rparr>"

definition conc_inv :: "loop_conc \<Rightarrow> bool" where
  "conc_inv s \<longleftrightarrow> lc_queued s = lc_run s @ lc_tmp_tasks s @ el_pending_tasks (lc_loop s) \<and>
     (lc_pc s \<noteq> Running \<longrightarrow> lc_tmp_tasks s = [])"

lemma push_task_pending [simp]: "el_pending_tasks (push_task t el) = el_pending_tasks el @ [t]"
  by (simp add: push_task_def)

lemma fold_push_task: "el_pending_tasks (fold push_task ts el) = el_pending_tasks el @ ts"
  by (induction ts arbitrary: el) simp_all

lemma conc_do_inv: "conc_do e s = Some s' \<Longrightarrow> conc_inv s \<Longrightarrow> conc_inv s'"
  by (cases e) (auto simp: conc_inv_def EventLoop_wakeup_def fold_push_task Let_def split: if_splits list.splits)

text \<open>C20. Under every interleaving of the loop with threads that queue tasks, wake it up and stop it,
  tasks are run in the order in which they were queued, each exactly once and none lost: what was
  queued is what has run, then the rest of the current turn, then the queue; and the loop waits or
  tests for its end only after its whole turn has run.\<close>

theorem loop_fifo:
  assumes "conc_run es (conc_init el) = Some s"
  shows "lc_queued s = lc_run s @ lc_tmp_tasks s @ el_pending_tasks (lc_loop s) \<and>
         (lc_pc s \<noteq> Running \<longrightarrow> lc_tmp_tasks s = [])"
proof -
  have "conc_run es u = Some s \<Longrightarrow> conc_inv u \<Longrightarrow> conc_inv s" for u
    by (induction es arbitrary: u) (auto split: option.splits dest: conc_do_inv)
  with assms show ?thesis by (fastforce simp: conc_inv_def conc_init_def)
qed

lemma EventLoop_new_fresh:
  "EventLoop_new None tid epoll_fd wakeup_fd timer_fd = Some el \<Longrightarrow> \<not> el_quit el \<and> el_pending_tasks el = []"
  by (auto simp: EventLoop_new_def initWakeUpFdEvent_def initTimer_def loop_op_defs split: if_splits)

theorem loop_fifo_witness:
  "\<exists>el s. EventLoop_new None 1 3 4 5 = Some el \<and>
     conc_run [Ev_push None True, Ev_wakeup, Ev_swap, Ev_task] (conc_init el) = Some s \<and>
     lc_queued s = lc_run s @ lc_tmp_tasks s @ el_pending_tasks (lc_loop s)"
proof -
  obtain el where el: "EventLoop_new None 1 3 4 5 = Some el"
    by (simp add: EventLoop_new_def initWakeUpFdEvent_def Let_def)
  have "\<exists>s. conc_run [Ev_push None True, Ev_wakeup, Ev_swap, Ev_task] (conc_init el) = Some s"
    using EventLoop_new_fresh [OF el] by (simp add: conc_init_def EventLoop_wakeup_def push_task_def)
  with el loop_fifo show ?thesis by blast
qed

text \<open>C21. A wake-up can be lost.  A task queued with a wake-up while the loop runs the turn whose
  wake-up handler has not run yet is signalled, then the handler reads the descriptor empty, and
  the loop goes to wait: the task stays queued with no signal left and no thread about to send one,
  until the ten-second timeout or an unrelated event.\<close>

theorem wakeup_lost:
  assumes "EventLoop_new None tid epoll_fd wakeup_fd timer_fd = Some el" and "first \<noteq> wakeup_handler"
  shows "\<exists>s. conc_run
           [Ev_push first True, Ev_wakeup, Ev_swap, Ev_task, Ev_wait, Ev_ready True [], Ev_swap,
            Ev_push (Some (Task_Run cb)) True, Ev_wakeup, Ev_task, Ev_wait] (conc_init el) = Some s \<and>
           lc_pc s = Waiting \<and> el_pending_tasks (lc_loop s) = [Some (Task_Run cb)] \<and>
           lc_counter s = 0 \<and> lc_writers s = 0 \<and> \<not> el_quit (lc_loop s)"
  using EventLoop_new_fresh [OF assms(1)] assms(2)
  by (simp add: conc_init_def EventLoop_wakeup_def push_task_def Let_def)

theorem wakeup_lost_witness:
  "\<exists>el s. EventLoop_new None 1 3 4 5 = Some el \<and> lc_pc s = Waiting \<and>
     conc_run [Ev_push None True, Ev_wakeup, Ev_swap, Ev_task, Ev_wait, Ev_ready True [], Ev_swap,
       Ev_push (Some (Task_Run (User_callback 1))) True, Ev_wakeup, Ev_task, Ev_wait] (conc_init el) = Some s"
proof -
  obtain el where el: "EventLoop_new None 1 3 4 5 = Some el"
    by (simp add: EventLoop_new_def initWakeUpFdEvent_def Let_def)
  from wakeup_lost [OF this, of None] el show ?thesis by blast
qed

end
