(* ===== verification/Tcp_Connection.thy ===== *)
theory Tcp_Connection
  imports Rpc_Dispatcher Event_Loop
begin

text \<open>
  \<open>net/tcp/tcp_connection.{h,cc}\<close>: one connection, on the server or on the client.  The world of its
  member functions is the connection, its \<open>FdEvent\<close>, its event loop, the thread's run time and the
  socket.  The system calls on the socket (\<open>read\<close>, \<open>write\<close>, \<open>shutdown\<close>) are arguments acting on the
  socket's state; the \<open>std::function\<close>s of a client are values of a type \<open>'d\<close>, run by the argument
  \<open>run\<close>.  Functions whose loops need not end are \<open>res option\<close>: \<open>None\<close> is a call that never returns.
\<close>

section \<open>State\<close>

datatype TcpState = NotConnected | Connected | HalfClosing | Closed

datatype TcpConnectionType = TcpConnectionByServer | TcpConnectionByClient

record 'd tcp_connection =
  tc_local_addr :: "ip_net_addr option"
  tc_peer_addr :: "ip_net_addr option"
  tc_in_buffer :: tcp_buffer
  tc_out_buffer :: tcp_buffer
  tc_state :: TcpState
  tc_fd :: int
  tc_connection_type :: TcpConnectionType
  tc_write_dones :: "(tinypb \<times> 'd) list"
  tc_read_dones :: "(string, 'd) smap"

record ('d, 'k) conn_world =
  cw_conn :: "'d tcp_connection"
  cw_fd_event :: fd_event
  cw_loop :: event_loop
  cw_tid :: int                      \<comment> \<open>the thread that runs the member function\<close>
  cw_run_time :: "run_time option"
  cw_sock :: 'k

datatype read_ret = Read_Bytes "char list" \<comment> \<open>empty at the end of the stream\<close> | Read_Again | Read_Fail

datatype write_ret = Wrote int | Write_Again | Write_Fail

type_synonym 'k sys_read = "'k \<Rightarrow> int \<Rightarrow> read_ret \<times> 'k"
type_synonym 'k sys_write = "'k \<Rightarrow> char list \<Rightarrow> write_ret \<times> 'k"
type_synonym ('d, 'k) sys_run =
  "'d \<Rightarrow> tinypb \<Rightarrow> ('d, 'k) conn_world \<Rightarrow> ('d, 'k) conn_world res option"

abbreviation with_conn :: "('d tcp_connection \<Rightarrow> 'd tcp_connection) \<Rightarrow> ('d, 'k) conn_world \<Rightarrow> ('d, 'k) conn_world" where
  "with_conn f w \<equiv> w\<lparr>cw_conn := f (cw_conn w)\<rparr>"

definition bind_ro :: "'a res option \<Rightarrow> ('a \<Rightarrow> 'b res option) \<Rightarrow> 'b res option" where
  "bind_ro m f = (case m of None \<Rightarrow> None | Some (Inl e) \<Rightarrow> Some (Inl e) | Some (Inr x) \<Rightarrow> f x)"

lemma bind_ro_simps [simp]:
  "bind_ro None f = None" "bind_ro (Some (Inl e)) f = Some (Inl e)" "bind_ro (Some (Inr x)) f = f x"
  by (simp_all add: bind_ro_def)

section \<open>Epoll registration and state\<close>

definition update_epoll :: "('d, 'k) conn_world \<Rightarrow> ('d, 'k) conn_world" where
  \<comment> \<open>\<open>m_eventloop->addEpollEvent(m_fd_event)\<close>\<close>
  "update_epoll w = w\<lparr>cw_loop := addEpollEvent (cw_tid w) (cw_fd_event w) (cw_loop w)\<rparr>"

definition listenWrite :: "('d, 'k) conn_world \<Rightarrow> ('d, 'k) conn_world" where
  "listenWrite w = update_epoll (w\<lparr>cw_fd_event :=
     fd_listen OUT_EVENT (Some (TcpConnection_onWrite (tc_fd (cw_conn w)))) None (cw_fd_event w)\<rparr>)"

definition listenRead :: "('d, 'k) conn_world \<Rightarrow> ('d, 'k) conn_world" where
  "listenRead w = update_epoll (w\<lparr>cw_fd_event :=
     fd_listen IN_EVENT (Some (TcpConnection_onRead (tc_fd (cw_conn w)))) None (cw_fd_event w)\<rparr>)"

definition TcpConnection_new ::
  "event_loop \<Rightarrow> int \<Rightarrow> int \<Rightarrow> ip_net_addr option \<Rightarrow> ip_net_addr option \<Rightarrow> TcpConnectionType \<Rightarrow>
   fd_event \<Rightarrow> int \<Rightarrow> run_time option \<Rightarrow> 'k \<Rightarrow> ('d, 'k) conn_world res" where
  \<comment> \<open>\<open>event\<close> is \<open>getFdEvent(fd)\<close>; the descriptor is made non-blocking\<close>
  "TcpConnection_new eventloop fd buffer_size peer_addr local_addr type event tid rt sock =
     bind_res (tcp_buffer_init buffer_size) (\<lambda>in_buffer.
     bind_res (tcp_buffer_init buffer_size) (\<lambda>out_buffer.
     let w = \<lparr>cw_conn = \<lparr>tc_local_addr = local_addr, tc_peer_addr = peer_addr, tc_in_buffer = in_buffer,
                tc_out_buffer = out_buffer, tc_state = NotConnected, tc_fd = fd,
                tc_connection_type = type, tc_write_dones = [], tc_read_dones = []\<rparr>,
              cw_fd_event = event, cw_loop = eventloop, cw_tid = tid, cw_run_time = rt, cw_sock = sock\<rparr>
     in Inr (if type = TcpConnectionByServer then listenRead w else w)))"

definition setState :: "TcpState \<Rightarrow> ('d, 'k) conn_world \<Rightarrow> ('d, 'k) conn_world" where
  \<comment> \<open>the argument is not used\<close>
  "setState state w = with_conn (tc_state_update (\<lambda>_. Connected)) w"

definition getState :: "('d, 'k) conn_world \<Rightarrow> TcpState" where
  "getState w = tc_state (cw_conn w)"

definition TcpConnection_clear :: "('d, 'k) conn_world \<Rightarrow> ('d, 'k) conn_world" where
  "TcpConnection_clear w =
     (if tc_state (cw_conn w) = Closed then w
      else let e = fd_cancle OUT_EVENT (fd_cancle IN_EVENT (cw_fd_event w));
               w = w\<lparr>cw_fd_event := e, cw_loop := deleteEpollEvent (cw_tid w) e (cw_loop w)\<rparr>
           in with_conn (tc_state_update (\<lambda>_. Closed)) w)"

definition TcpConnection_shutdown :: "('k \<Rightarrow> 'k) \<Rightarrow> ('d, 'k) conn_world \<Rightarrow> ('d, 'k) conn_world" where
  "TcpConnection_shutdown sys_shutdown w =
     (if tc_state (cw_conn w) = Closed \<or> tc_state (cw_conn w) = NotConnected then w
      else with_conn (tc_state_update (\<lambda>_. HalfClosing)) w\<lparr>cw_sock := sys_shutdown (cw_sock w)\<rparr>)"

definition setConnectionType :: "TcpConnectionType \<Rightarrow> ('d, 'k) conn_world \<Rightarrow> ('d, 'k) conn_world" where
  "setConnectionType type w = with_conn (tc_connection_type_update (\<lambda>_. type)) w"

definition pushSendMessage :: "tinypb \<Rightarrow> 'd \<Rightarrow> ('d, 'k) conn_world \<Rightarrow> ('d, 'k) conn_world" where
  "pushSendMessage message done_cb w =
     with_conn (tc_write_dones_update (\<lambda>ds. ds @ [(message, done_cb)])) w"

definition pushReadMessage :: "string \<Rightarrow> 'd \<Rightarrow> ('d, 'k) conn_world \<Rightarrow> ('d, 'k) conn_world" where
  "pushReadMessage msg_id done_cb w = with_conn (tc_read_dones_update (smap_insert msg_id done_cb)) w"

section \<open>Reading\<close>

text \<open>The loop of \<open>onRead\<close>: returns \<open>is_read_all\<close>, \<open>is_close\<close>, the input buffer and the socket.\<close>

partial_function (option) read_loop ::
  "'k sys_read \<Rightarrow> tcp_buffer \<Rightarrow> 'k \<Rightarrow> (bool \<times> bool \<times> tcp_buffer \<times> 'k) res option" where
  "read_loop sys_read b sock =
     (case (if writeAble b = 0 then resizeBuffer b (wrap32 (2 * int (length (m_buffer b)))) else Inr b) of
        Inl e \<Rightarrow> Some (Inl e)
      | Inr b \<Rightarrow>
          let read_count = writeAble b; write_index = writeIndex b in
          (case sys_read sock read_count of
             (Read_Bytes bs, sock) \<Rightarrow>
               if bs = [] then Some (Inr (False, True, b, sock))
               else (case bind_res (write_bytes (m_buffer b) write_index bs) (\<lambda>v.
                            moveWriteIndex (b\<lparr>m_buffer := v\<rparr>) (int (length bs))) of
                       Inl e \<Rightarrow> Some (Inl e)
                     | Inr b \<Rightarrow>
                         if int (length bs) = read_count then read_loop sys_read b sock
                         else if int (length bs) < read_count then Some (Inr (True, False, b, sock))
                         else read_loop sys_read b sock)
           | (Read_Again, sock) \<Rightarrow> Some (Inr (True, False, b, sock))
           | (Read_Fail, sock) \<Rightarrow> read_loop sys_read b sock))"

section \<open>Serving and answering\<close>

definition TcpConnection_reply ::
  "tinypb list \<Rightarrow> ('d, 'k) conn_world \<Rightarrow> (tinypb list \<times> ('d, 'k) conn_world) res" where
  "TcpConnection_reply replay_messages w =
     bind_res (TinyPBCoder_encode replay_messages (tc_out_buffer (cw_conn w))) (\<lambda>(msgs, out_buffer).
     Inr (msgs, listenWrite (with_conn (tc_out_buffer_update (\<lambda>_. out_buffer)) w)))"

definition serve_one ::
  "('q, 'r) service_map \<Rightarrow> tinypb \<Rightarrow> tinypb list \<times> ('d, 'k) conn_world \<Rightarrow>
   (tinypb list \<times> ('d, 'k) conn_world) res" where
  \<comment> \<open>one turn of the \<open>for\<close> loop of \<open>excute\<close>\<close>
  "serve_one services request = (\<lambda>(replay_messages, w).
     bind_res (dispatch TcpConnection_reply (tc_local_addr (cw_conn w)) (tc_peer_addr (cw_conn w))
                 services request tinypb_new (w, cw_run_time w)) (\<lambda>(message, w, rt).
     Inr (replay_messages @ [message], w\<lparr>cw_run_time := rt\<rparr>)))"

fun run_read_dones :: "('d, 'k) sys_run \<Rightarrow> tinypb list \<Rightarrow> ('d, 'k) conn_world \<Rightarrow> ('d, 'k) conn_world res option" where
  "run_read_dones run [] w = Some (Inr w)"
| "run_read_dones run (m # result) w =
     (case smap_find (tc_read_dones (cw_conn w)) (m_msg_id m) of
        None \<Rightarrow> run_read_dones run result w
      | Some done_cb \<Rightarrow>
          bind_ro (run done_cb m w) (\<lambda>w.
          run_read_dones run result (with_conn (tc_read_dones_update (smap_erase (m_msg_id m))) w)))"

definition excute ::
  "('d, 'k) sys_run \<Rightarrow> ('q, 'r) service_map \<Rightarrow> ('d, 'k) conn_world \<Rightarrow> ('d, 'k) conn_world res option" where
  "excute run services w =
     bind_ro (TinyPBCoder_decode [] (tc_in_buffer (cw_conn w))) (\<lambda>(result, in_buffer).
     let w = with_conn (tc_in_buffer_update (\<lambda>_. in_buffer)) w in
     if tc_connection_type (cw_conn w) = TcpConnectionByServer
     then Some (bind_res (fold_res (serve_one services) result ([], w)) (\<lambda>(replay_messages, w).
                bind_res (TinyPBCoder_encode replay_messages (tc_out_buffer (cw_conn w))) (\<lambda>(_, out_buffer).
                Inr (listenWrite (with_conn (tc_out_buffer_update (\<lambda>_. out_buffer)) w)))))
     else run_read_dones run result w)"

definition onRead ::
  "'k sys_read \<Rightarrow> ('d, 'k) sys_run \<Rightarrow> ('q, 'r) service_map \<Rightarrow> ('d, 'k) conn_world \<Rightarrow> ('d, 'k) conn_world res option" where
  "onRead sys_read run services w =
     (if tc_state (cw_conn w) \<noteq> Connected then Some (Inr w)
      else bind_ro (read_loop sys_read (tc_in_buffer (cw_conn w)) (cw_sock w))
             (\<lambda>(is_read_all, is_close, in_buffer, sock).
           let w = (with_conn (tc_in_buffer_update (\<lambda>_. in_buffer)) w)\<lparr>cw_sock := sock\<rparr> in
           if is_close then Some (Inr (TcpConnection_clear w)) else excute run services w))"

section \<open>Writing\<close>

partial_function (option) write_loop ::
  "'k sys_write \<Rightarrow> tcp_buffer \<Rightarrow> 'k \<Rightarrow> (bool \<times> 'k) res option" where
  \<comment> \<open>\<open>is_write_all\<close> and the socket; the buffer is only read\<close>
  "write_loop sys_write b sock =
     (if readAble b = 0 then Some (Inr (True, sock))
      else let write_size = readAble b; read_index = readIndex b in
        (case read_bytes (m_buffer b) read_index write_size of
           Inl e \<Rightarrow> Some (Inl e)
         | Inr bs \<Rightarrow>
             (case sys_write sock bs of
                (Wrote rt, sock) \<Rightarrow>
                  if rt \<ge> write_size then Some (Inr (True, sock)) else write_loop sys_write b sock
              | (Write_Again, sock) \<Rightarrow> Some (Inr (False, sock))
              | (Write_Fail, sock) \<Rightarrow> write_loop sys_write b sock)))"

partial_function (option) run_write_dones ::
  "('d, 'k) sys_run \<Rightarrow> nat \<Rightarrow> ('d, 'k) conn_world \<Rightarrow> ('d, 'k) conn_world res option" where
  "run_write_dones run i w =
     (if i < length (tc_write_dones (cw_conn w))
      then (case run (snd (tc_write_dones (cw_conn w) ! i)) (fst (tc_write_dones (cw_conn w) ! i)) w of
              None \<Rightarrow> None
            | Some r \<Rightarrow> (case r of Inl e \<Rightarrow> Some (Inl e) | Inr w \<Rightarrow> run_write_dones run (Suc i) w))
      else Some (Inr w))"

definition onWrite ::
  "'k sys_write \<Rightarrow> ('d, 'k) sys_run \<Rightarrow> ('d, 'k) conn_world \<Rightarrow> ('d, 'k) conn_world res option" where
  "onWrite sys_write run w =
     (if tc_state (cw_conn w) \<noteq> Connected then Some (Inr w)
      else
        bind_ro
          (if tc_connection_type (cw_conn w) = TcpConnectionByClient
           then Some (bind_res (TinyPBCoder_encode (map fst (tc_write_dones (cw_conn w)))
                        (tc_out_buffer (cw_conn w))) (\<lambda>(msgs, out_buffer).
                  Inr (with_conn (\<lambda>c. c\<lparr>tc_out_buffer := out_buffer,
                    tc_write_dones := zip msgs (map snd (tc_write_dones c))\<rparr>) w)))
           else Some (Inr w)) (\<lambda>w.
        bind_ro (write_loop sys_write (tc_out_buffer (cw_conn w)) (cw_sock w)) (\<lambda>(is_write_all, sock).
        let w = w\<lparr>cw_sock := sock\<rparr>;
            w = (if is_write_all
                 then update_epoll (w\<lparr>cw_fd_event := fd_cancle OUT_EVENT (cw_fd_event w)\<rparr>) else w)
        in if tc_connection_type (cw_conn w) = TcpConnectionByClient
           then bind_ro (run_write_dones run 0 w) (\<lambda>w.
                Some (Inr (with_conn (tc_write_dones_update (\<lambda>_. [])) w)))
           else Some (Inr w))))"

section \<open>Invariants of the loops\<close>

text \<open>What each turn keeps, the loop keeps: proved by fixpoint induction, for the loops that need not end.\<close>

lemma bind_ro_eq: "bind_ro m f = Some (Inr y) \<longleftrightarrow> (\<exists>x. m = Some (Inr x) \<and> f x = Some (Inr y))"
  by (auto simp: bind_ro_def split: option.splits sum.splits)

lemma read_loop_invariant:
  assumes "read_loop sr b k = Some (Inr (all, close, b', k'))" and "P b k"
    and resize: "\<And>b c k. P b k \<Longrightarrow> resizeBuffer b (wrap32 (2 * int (length (m_buffer b)))) = Inr c \<Longrightarrow> P c k"
    and sock: "\<And>b k. P b k \<Longrightarrow> P b (snd (sr k (writeAble b)))"
    and store: "\<And>b k bs v c. P b k \<Longrightarrow> write_bytes (m_buffer b) (m_write_index b) bs = Inr v \<Longrightarrow>
      moveWriteIndex (b\<lparr>m_buffer := v\<rparr>) (int (length bs)) = Inr c \<Longrightarrow> P c k"
  shows "P b' k'"
proof -
  let ?goal = "\<lambda>b k r. case r of Inl e \<Rightarrow> True | Inr (all, close, b', k') \<Rightarrow> P b' k'"
  have "sr' = sr \<longrightarrow> P b k \<longrightarrow> ?goal b k r" if "read_loop sr' b k = Some r" for sr' b k r
  proof (rule read_loop.raw_induct [OF _ that])
    fix loop :: "'a sys_read \<Rightarrow> tcp_buffer \<Rightarrow> 'a \<Rightarrow> (bool \<times> bool \<times> tcp_buffer \<times> 'a) res option"
    fix sr' b k r
    assume IH: "\<And>sr' b k r. loop sr' b k = Some r \<Longrightarrow> sr' = sr \<longrightarrow> P b k \<longrightarrow> ?goal b k r"
    assume eq: "(case if writeAble b = 0 then resizeBuffer b (wrap32 (2 * int (length (m_buffer b)))) else Inr b of
        Inl e \<Rightarrow> Some (Inl e)
      | Inr b \<Rightarrow>
          let read_count = writeAble b; write_index = writeIndex b in
          case sr' k read_count of
             (Read_Bytes bs, k) \<Rightarrow>
               if bs = [] then Some (Inr (False, True, b, k))
               else (case bind_res (write_bytes (m_buffer b) write_index bs) (\<lambda>v.
                            moveWriteIndex (b\<lparr>m_buffer := v\<rparr>) (int (length bs))) of
                       Inl e \<Rightarrow> Some (Inl e)
                     | Inr b \<Rightarrow>
                         if int (length bs) = read_count then loop sr' b k
                         else if int (length bs) < read_count then Some (Inr (True, False, b, k))
                         else loop sr' b k)
           | (Read_Again, k) \<Rightarrow> Some (Inr (True, False, b, k))
           | (Read_Fail, k) \<Rightarrow> loop sr' b k) = Some r"
    show "sr' = sr \<longrightarrow> P b k \<longrightarrow> ?goal b k r"
    proof (intro impI)
      assume sr: "sr' = sr" and P: "P b k"
      show "?goal b k r"
      proof (cases "if writeAble b = 0 then resizeBuffer b (wrap32 (2 * int (length (m_buffer b)))) else Inr b")
        case (Inr b1)
        then have "P b1 k" using P resize [OF P, of b1] by (auto split: if_splits)
        obtain rr k1 where rr: "sr k (writeAble b1) = (rr, k1)" by fastforce
        with sock [OF \<open>P b1 k\<close>] have P1: "P b1 k1" by simp
        have step: "P b2 k1 \<Longrightarrow> loop sr b2 k1 = Some r \<Longrightarrow> ?goal b2 k1 r" for b2
          using IH by blast
        show ?thesis
        proof (cases rr)
          case (Read_Bytes bs)
          let ?put = "bind_res (write_bytes (m_buffer b1) (writeIndex b1) bs) (\<lambda>v.
            moveWriteIndex (b1\<lparr>m_buffer := v\<rparr>) (int (length bs)))"
          show ?thesis
          proof (cases ?put)
            case put: (Inr c)
            then have "P c k1" using store [OF P1] by (auto simp: bind_res_eq_Inr writeIndex_def)
            with eq P1 step [of c] show ?thesis
              unfolding Inr sr Let_def sum.case rr Read_Bytes prod.case read_ret.case put
              by (auto split: if_splits)
          next
            case (Inl e)
            with eq P1 show ?thesis
              unfolding Inr sr Let_def sum.case rr Read_Bytes prod.case read_ret.case Inl
              by (auto split: if_splits)
          qed
        qed (use eq P1 step Inr sr in \<open>auto simp: rr Let_def\<close>)
      qed (use eq in auto)
    qed
  qed
  with assms(1,2) show ?thesis by fastforce
qed

lemma run_write_dones_invariant:
  assumes "run_write_dones run i w = Some (Inr w')" and "P w"
    and each: "\<And>d m w w'. P w \<Longrightarrow> run d m w = Some (Inr w') \<Longrightarrow> P w'"
  shows "P w'"
proof -
  have "rn = run \<longrightarrow> P w \<longrightarrow> (case r of Inl e \<Rightarrow> True | Inr w' \<Rightarrow> P w')"
    if "run_write_dones rn i w = Some r" for rn i w r
  proof (rule run_write_dones.raw_induct [OF _ that])
    fix dones :: "('a, 'b) sys_run \<Rightarrow> nat \<Rightarrow> ('a, 'b) conn_world \<Rightarrow> ('a, 'b) conn_world res option"
    fix rn i w r
    assume IH: "\<And>rn i w r. dones rn i w = Some r \<Longrightarrow> rn = run \<longrightarrow> P w \<longrightarrow>
        (case r of Inl e \<Rightarrow> True | Inr w' \<Rightarrow> P w')"
    assume eq: "(if i < length (tc_write_dones (cw_conn w))
      then (case rn (snd (tc_write_dones (cw_conn w) ! i)) (fst (tc_write_dones (cw_conn w) ! i)) w of
              None \<Rightarrow> None
            | Some (Inl e) \<Rightarrow> Some (Inl e) | Some (Inr w) \<Rightarrow> dones rn (Suc i) w)
      else Some (Inr w)) = Some r"
    show "rn = run \<longrightarrow> P w \<longrightarrow> (case r of Inl e \<Rightarrow> True | Inr w' \<Rightarrow> P w')"
      using eq by (auto split: if_splits option.splits sum.splits dest!: IH dest: each)
  qed
  with assms(1,2) show ?thesis by fastforce
qed

lemma run_read_dones_invariant:
  assumes "run_read_dones run ms w = Some (Inr w')" and "P w"
    and each: "\<And>d m w w'. P w \<Longrightarrow> run d m w = Some (Inr w') \<Longrightarrow>
      P (with_conn (tc_read_dones_update (smap_erase (m_msg_id m))) w')"
  shows "P w'"
  using assms(1,2)
proof (induction ms arbitrary: w)
  case (Cons m ms)
  then show ?case by (auto simp: bind_ro_eq split: option.splits dest: each)
qed simp

section \<open>The connection as a reply channel\<close>

abbreviation out_ok :: "('d, 'k) conn_world \<Rightarrow> bool" where
  "out_ok w \<equiv> buf_inv (tc_out_buffer (cw_conn w))"

abbreviation out_bytes :: "('d, 'k) conn_world \<Rightarrow> char list" where
  "out_bytes w \<equiv> contents (tc_out_buffer (cw_conn w))"

definition out_room :: "('d, 'k) conn_world \<Rightarrow> int" where
  "out_room w = WRITE_LIMIT - m_write_index (tc_out_buffer (cw_conn w))"

abbreviation cost :: "tinypb list \<Rightarrow> int" where
  "cost ms \<equiv> (\<Sum>m\<leftarrow>ms. packet_length (with_msg_id m))"

lemma listenWrite_conn [simp]:
  "cw_conn (listenWrite w) = cw_conn w" "cw_sock (listenWrite w) = cw_sock w"
  "cw_tid (listenWrite w) = cw_tid w" "cw_run_time (listenWrite w) = cw_run_time w"
  by (simp_all add: listenWrite_def update_epoll_def)

lemma encode_in_world:
  assumes "out_ok w" and "cost ms \<le> out_room w"
  obtains b where "TinyPBCoder_encode ms (tc_out_buffer (cw_conn w)) = Inr (map sent ms, b)"
    and "buf_inv b" and "contents b = out_bytes w @ concat (map (\<lambda>m. packet (with_msg_id m)) ms)"
    and "out_room w - cost ms \<le> WRITE_LIMIT - m_write_index b"
proof -
  have "m_write_index (tc_out_buffer (cw_conn w)) + cost ms \<le> WRITE_LIMIT"
    using assms(2) by (simp add: out_room_def)
  from encode_appends [OF assms(1) this] show thesis by (auto simp: out_room_def intro: that)
qed

interpretation conn: reply_channel TcpConnection_reply out_ok out_bytes out_room
proof
  fix c :: "('d, 'k) conn_world" and ms
  assume ok: "out_ok c" and fits: "cost ms \<le> out_room c"
  obtain b where "TinyPBCoder_encode ms (tc_out_buffer (cw_conn c)) = Inr (map sent ms, b)"
    "buf_inv b" "contents b = out_bytes c @ concat (map (\<lambda>m. packet (with_msg_id m)) ms)"
    "out_room c - cost ms \<le> WRITE_LIMIT - m_write_index b"
    by (rule encode_in_world [OF ok fits])
  then show "\<exists>c'. TcpConnection_reply ms c = Inr (map sent ms, c') \<and> out_ok c' \<and>
      out_bytes c' = out_bytes c @ concat (map wire ms) \<and> out_room c - cost ms \<le> out_room c'"
    by (simp add: TcpConnection_reply_def out_room_def)
qed

section \<open>Serving\<close>

text \<open>
  What a server sends for a list of requests: the replies made while each method runs, and then,
  by the \<open>encode\<close> at the end of \<open>excute\<close>, every response once more.
\<close>

definition outcomes ::
  "('d, 'k) conn_world \<Rightarrow> ('q, 'r) service_map \<Rightarrow> tinypb \<Rightarrow> tinypb list \<times> tinypb" where
  "outcomes w services req =
     dispatch_outcome (tc_local_addr (cw_conn w)) (tc_peer_addr (cw_conn w)) services req"

definition served :: "('d, 'k) conn_world \<Rightarrow> ('q, 'r) service_map \<Rightarrow> tinypb list \<Rightarrow> tinypb list" where
  "served w services reqs =
     concat (map (\<lambda>r. fst (outcomes w services r)) reqs) @ map (\<lambda>r. snd (outcomes w services r)) reqs"

definition same_conn :: "('d, 'k) conn_world \<Rightarrow> ('d, 'k) conn_world \<Rightarrow> bool" where
  \<comment> \<open>the members that serving a request leaves alone\<close>
  "same_conn w w' \<longleftrightarrow> cw_sock w' = cw_sock w \<and> cw_tid w' = cw_tid w \<and>
     cw_conn w' = (cw_conn w)\<lparr>tc_out_buffer := tc_out_buffer (cw_conn w')\<rparr>"

lemma same_conn_refl [simp]: "same_conn w w"
  by (simp add: same_conn_def)

lemma same_conn_trans: "same_conn u v \<Longrightarrow> same_conn v w \<Longrightarrow> same_conn u w"
  by (simp add: same_conn_def) (metis tcp_connection.surjective tcp_connection.update_convs(4))

lemma same_conn_fields:
  "same_conn w w' \<Longrightarrow> tc_local_addr (cw_conn w') = tc_local_addr (cw_conn w) \<and>
     tc_peer_addr (cw_conn w') = tc_peer_addr (cw_conn w) \<and> tc_in_buffer (cw_conn w') = tc_in_buffer (cw_conn w) \<and>
     tc_state (cw_conn w') = tc_state (cw_conn w) \<and>
     tc_connection_type (cw_conn w') = tc_connection_type (cw_conn w) \<and>
     tc_read_dones (cw_conn w') = tc_read_dones (cw_conn w) \<and> tc_fd (cw_conn w') = tc_fd (cw_conn w)"
  unfolding same_conn_def by (metis tcp_connection.select_convs tcp_connection.surjective tcp_connection.update_convs(4))

lemma reply_same_conn: "TcpConnection_reply ms w = Inr (ms', w') \<Longrightarrow> same_conn v w \<Longrightarrow> same_conn v w'"
  by (rule same_conn_trans [of v w])
    (auto simp: TcpConnection_reply_def bind_res_eq_Inr same_conn_def)

lemma outcomes_same_conn: "same_conn w w' \<Longrightarrow> outcomes w' = outcomes w"
  using same_conn_fields [of w w'] by (simp add: outcomes_def fun_eq_iff)

lemma serve_one_refines:
  assumes "out_ok w" and "cost (fst (outcomes w services req)) \<le> out_room w"
  shows "\<exists>rsp w'. serve_one services req (acc, w) = Inr (acc @ [rsp], w') \<and> same_conn w w' \<and> out_ok w' \<and>
           out_bytes w' = out_bytes w @ concat (map (\<lambda>m. packet (with_msg_id m)) (fst (outcomes w services req))) \<and>
           out_room w - cost (fst (outcomes w services req)) \<le> out_room w' \<and>
           packet (with_msg_id rsp) = packet (with_msg_id (snd (outcomes w services req))) \<and>
           packet_length (with_msg_id rsp) = packet_length (with_msg_id (snd (outcomes w services req)))"
proof -
  let ?o = "outcomes w services req"
  have "dispatch_outcome (tc_local_addr (cw_conn w)) (tc_peer_addr (cw_conn w)) services req = (fst ?o, snd ?o)"
    by (simp add: outcomes_def)
  from conn.dispatch_refines [OF assms(1) this assms(2), of "cw_run_time w"] obtain rsp u rt where
    u: "dispatch TcpConnection_reply (tc_local_addr (cw_conn w)) (tc_peer_addr (cw_conn w)) services req
          tinypb_new (w, cw_run_time w) = Inr (rsp, u, rt)"
      "out_ok u" "out_bytes u = out_bytes w @ concat (map (\<lambda>m. packet (with_msg_id m)) (fst ?o))"
      "out_room w - cost (fst ?o) \<le> out_room u"
      "packet (with_msg_id rsp) = packet (with_msg_id (snd ?o))"
      "packet_length (with_msg_id rsp) = packet_length (with_msg_id (snd ?o))" by blast
  have "same_conn w u"
    by (rule dispatch_preserves [OF u(1), of "same_conn w"]) (auto intro: reply_same_conn)
  with u show ?thesis
    by (intro exI [of _ rsp] exI [of _ "u\<lparr>cw_run_time := rt\<rparr>"])
      (simp add: serve_one_def out_room_def same_conn_def)
qed

lemma serve_all_refines:
  assumes "out_ok w" and "cost (concat (map (\<lambda>r. fst (outcomes w services r)) reqs)) \<le> out_room w"
  shows "\<exists>rsps w'. fold_res (serve_one services) reqs (acc, w) = Inr (acc @ rsps, w') \<and> same_conn w w' \<and>
           out_ok w' \<and> out_bytes w' = out_bytes w @
             concat (map (\<lambda>m. packet (with_msg_id m)) (concat (map (\<lambda>r. fst (outcomes w services r)) reqs))) \<and>
           out_room w - cost (concat (map (\<lambda>r. fst (outcomes w services r)) reqs)) \<le> out_room w' \<and>
           map (\<lambda>m. packet (with_msg_id m)) rsps = map (\<lambda>r. packet (with_msg_id (snd (outcomes w services r)))) reqs \<and>
           cost rsps = cost (map (\<lambda>r. snd (outcomes w services r)) reqs)"
  using assms
proof (induction reqs arbitrary: acc w)
  case (Cons r reqs)
  let ?rest = "concat (map (\<lambda>r. fst (outcomes w services r)) reqs)"
  have rest: "0 \<le> cost ?rest" by (intro sum_list_nonneg) auto
  then have "cost (fst (outcomes w services r)) \<le> out_room w" using Cons.prems(2) by simp
  from serve_one_refines [OF Cons.prems(1) this, of acc] obtain rsp u where
    u: "serve_one services r (acc, w) = Inr (acc @ [rsp], u)" "same_conn w u" "out_ok u"
      "out_bytes u = out_bytes w @ concat (map (\<lambda>m. packet (with_msg_id m)) (fst (outcomes w services r)))"
      "out_room w - cost (fst (outcomes w services r)) \<le> out_room u"
      "packet (with_msg_id rsp) = packet (with_msg_id (snd (outcomes w services r)))"
      "packet_length (with_msg_id rsp) = packet_length (with_msg_id (snd (outcomes w services r)))" by blast
  note same = outcomes_same_conn [OF u(2)]
  have "cost (concat (map (\<lambda>r. fst (outcomes u services r)) reqs)) \<le> out_room u"
    using Cons.prems(2) u(5) by (simp add: same)
  from Cons.IH [OF u(3) this, of "acc @ [rsp]"] obtain rsps w' where
    "fold_res (serve_one services) reqs (acc @ [rsp], u) = Inr ((acc @ [rsp]) @ rsps, w')" "same_conn u w'"
    "out_ok w'" "out_bytes w' = out_bytes u @ concat (map (\<lambda>m. packet (with_msg_id m)) ?rest)"
    "out_room u - cost ?rest \<le> out_room w'"
    "map (\<lambda>m. packet (with_msg_id m)) rsps = map (\<lambda>r. packet (with_msg_id (snd (outcomes w services r)))) reqs"
    "cost rsps = cost (map (\<lambda>r. snd (outcomes w services r)) reqs)"
    unfolding same by blast
  with u show ?case
    by (intro exI [of _ "rsp # rsps"] exI [of _ w']) (auto intro: same_conn_trans)
qed simp

lemma excute_serves:
  assumes "tc_connection_type (cw_conn w) = TcpConnectionByServer"
    and "TinyPBCoder_decode [] (tc_in_buffer (cw_conn w)) = Some (Inr (reqs, in_buffer))"
    and "out_ok w" and "cost (served w services reqs) \<le> out_room w"
  shows "\<exists>w'. excute run services w = Some (Inr w') \<and>
           same_conn (with_conn (tc_in_buffer_update (\<lambda>_. in_buffer)) w) w' \<and> out_ok w' \<and>
           out_bytes w' = out_bytes w @ concat (map (\<lambda>m. packet (with_msg_id m)) (served w services reqs)) \<and>
           out_room w - cost (served w services reqs) \<le> out_room w' \<and> wants_out (cw_fd_event w')"
proof -
  let ?w = "with_conn (tc_in_buffer_update (\<lambda>_. in_buffer)) w"
  let ?first = "concat (map (\<lambda>r. fst (outcomes w services r)) reqs)"
  let ?finals = "map (\<lambda>r. snd (outcomes w services r)) reqs"
  have o: "outcomes ?w = outcomes w" by (simp add: outcomes_def fun_eq_iff)
  have costs: "cost (served w services reqs) = cost ?first + cost ?finals" "0 \<le> cost ?finals"
    by (auto simp: served_def intro!: sum_list_nonneg)
  have room: "out_room ?w = out_room w" by (simp add: out_room_def)
  have "cost (concat (map (\<lambda>r. fst (outcomes ?w services r)) reqs)) \<le> out_room ?w"
    using assms(4) costs by (simp add: o room)
  moreover have "out_ok ?w" using assms(3) by simp
  ultimately obtain rsps u where u:
    "fold_res (serve_one services) reqs ([], ?w) = Inr (rsps, u)" "same_conn ?w u" "out_ok u"
    "out_bytes u = out_bytes w @ concat (map (\<lambda>m. packet (with_msg_id m)) ?first)"
    "out_room w - cost ?first \<le> out_room u"
    "map (\<lambda>m. packet (with_msg_id m)) rsps = map (\<lambda>r. packet (with_msg_id (snd (outcomes w services r)))) reqs"
    "cost rsps = cost ?finals"
    using serve_all_refines [of ?w services reqs "[]"] by (auto simp: o room)
  have "cost rsps \<le> out_room u" using u(5,7) assms(4) costs by linarith
  from encode_in_world [OF u(3) this] obtain b where b:
    "TinyPBCoder_encode rsps (tc_out_buffer (cw_conn u)) = Inr (map sent rsps, b)" "buf_inv b"
    "contents b = out_bytes u @ concat (map (\<lambda>m. packet (with_msg_id m)) rsps)"
    "out_room u - cost rsps \<le> WRITE_LIMIT - m_write_index b" .
  let ?u = "listenWrite (with_conn (tc_out_buffer_update (\<lambda>_. b)) u)"
  have "excute run services w = Some (Inr ?u)"
    using assms(1,2) u(1) b(1) by (simp add: excute_def Let_def)
  moreover have "same_conn ?w ?u"
    by (rule same_conn_trans [OF u(2)]) (simp add: same_conn_def)
  moreover have "out_bytes ?u = out_bytes w @ concat (map (\<lambda>m. packet (with_msg_id m)) (served w services reqs))"
    using b(3) u(4,6) by (simp add: served_def comp_def)
  moreover have "out_room w - cost (served w services reqs) \<le> out_room ?u"
    using b(4) u(5,7) costs(1) by (simp add: out_room_def)
  moreover have "wants_out (cw_fd_event ?u)" by (simp add: listenWrite_def update_epoll_def)
  ultimately show ?thesis using b(2) by (intro exI [of _ ?u]) simp
qed

section \<open>Reading the socket\<close>

text \<open>
  A stream socket whose peer stays connected, as \<open>read\<close> documents it: with nothing to read it reports
  \<open>EAGAIN\<close>, otherwise it delivers as many of the next bytes as it is asked for, or all there are.
\<close>

definition stream_socket :: "'k sys_read \<Rightarrow> ('k \<Rightarrow> char list) \<Rightarrow> bool" where
  "stream_socket sys_read stream \<longleftrightarrow> (\<forall>k n. 0 < n \<longrightarrow>
     (if stream k = [] then \<exists>k'. sys_read k n = (Read_Again, k') \<and> stream k' = []
      else \<exists>k'. sys_read k n = (Read_Bytes (take (nat n) (stream k)), k') \<and>
                stream k' = drop (nat n) (stream k)))"

lemma writeAble_inv: "buf_inv b \<Longrightarrow> writeAble b = int (length (m_buffer b)) - m_write_index b"
  unfolding buf_inv_def writeAble_def by (intro wrap32_in) linarith+

lemma write_free_space:
  assumes "buf_inv b" and "int (length bs) \<le> writeAble b"
  shows "\<exists>v. write_bytes (m_buffer b) (m_write_index b) bs = Inr v \<and> buf_inv (b\<lparr>m_buffer := v\<rparr>) \<and>
           contents (b\<lparr>m_buffer := v\<rparr>) = contents b \<and> length v = length (m_buffer b) \<and>
           take (length bs) (drop (nat (m_write_index b)) v) = bs"
proof -
  let ?w = "nat (m_write_index b)" and ?m = "m_buffer b"
  let ?v = "take ?w ?m @ bs @ drop (?w + length bs) ?m"
  have le: "0 \<le> m_write_index b" "m_write_index b + int (length bs) \<le> int (length ?m)"
    using assms writeAble_inv [OF assms(1)] by (auto simp: buf_inv_def)
  then have w: "?w + length bs \<le> length ?m" "?w \<le> length ?m" by linarith+
  have len: "length ?v = length ?m" using w by simp
  have "write_bytes ?m (m_write_index b) bs = Inr ?v"
    using le by (simp add: write_bytes_def)
  moreover have "contents (b\<lparr>m_buffer := ?v\<rparr>) = contents b"
  proof -
    have "nat (m_read_index b) + nat (readAble b) = ?w"
      using assms(1) unfolding buf_inv_def readAble_def by arith
    then have "nat (readAble b) = ?w - nat (m_read_index b)" "nat (m_read_index b) \<le> ?w" by linarith+
    moreover have "take (?w - r) (drop r ?v) = take (?w - r) (drop r ?m)" if "r \<le> ?w" for r
      using that w(2) by (simp add: take_drop min_def)
    ultimately show ?thesis by (simp add: contents_def readAble_def)
  qed
  moreover have "buf_inv (b\<lparr>m_buffer := ?v\<rparr>)" using assms(1) len by (simp add: buf_inv_def)
  moreover have "take (length bs) (drop ?w ?v) = bs" using w(2) by simp
  ultimately show ?thesis using len by blast
qed

lemma read_loop_remainder:
  assumes "stream_socket sys_read stream" and "buf_inv b" and "0 < writeAble b"
  shows "\<exists>b' k'. read_loop sys_read b k = Some (Inr (True, False, b', k')) \<and> buf_inv b' \<and> stream k' = [] \<and>
           contents b' = contents b @ drop (length (stream k) - length (stream k) mod nat (writeAble b)) (stream k) \<and>
           length (m_buffer b') = length (m_buffer b) \<and> m_write_index b' < int (length (m_buffer b'))"
  using assms(2,3)
proof (induction "length (stream k)" arbitrary: b k rule: less_induct)
  case less
  let ?f = "nat (writeAble b)"
  have room: "m_write_index b < int (length (m_buffer b))"
    using less.prems writeAble_inv by simp
  show ?case
  proof (cases "stream k = []")
    case True
    with assms(1) less.prems(2) obtain k' where "sys_read k (writeAble b) = (Read_Again, k')" "stream k' = []"
      unfolding stream_socket_def by metis
    then show ?thesis using less.prems room True by (subst read_loop.simps) simp
  next
    case False
    let ?bs = "take ?f (stream k)"
    obtain k' where k': "sys_read k (writeAble b) = (Read_Bytes ?bs, k')" "stream k' = drop ?f (stream k)"
      using assms(1) less.prems(2) False unfolding stream_socket_def by metis
    have ne: "?bs \<noteq> []" using False less.prems(2) by simp
    have "int (length ?bs) \<le> writeAble b" using less.prems(2) by simp
    from write_free_space [OF less.prems(1) this] obtain v where
      v: "write_bytes (m_buffer b) (m_write_index b) ?bs = Inr v" "buf_inv (b\<lparr>m_buffer := v\<rparr>)"
        "contents (b\<lparr>m_buffer := v\<rparr>) = contents b" "length v = length (m_buffer b)"
        "take (length ?bs) (drop (nat (m_write_index b)) v) = ?bs" by blast
    let ?b = "b\<lparr>m_buffer := v\<rparr>"
    have w: "writeAble ?b = writeAble b" using v(4) by (simp add: writeAble_def)
    show ?thesis
    proof (cases "?f \<le> length (stream k)")
      case True
      then have n: "int (length ?bs) = writeAble b" using less.prems(2) by simp
      have "m_write_index ?b + writeAble b \<le> INT_MAX"
        using less.prems(1) writeAble_inv [OF less.prems(1)] by (simp add: buf_inv_def)
      then have refused: "moveWriteIndex ?b (int (length ?bs)) = Inr ?b"
        using moveWriteIndex_full_refused [OF v(2), of "writeAble b"] w n by simp
      have "read_loop sys_read b k = read_loop sys_read ?b k'"
        using k'(1) ne v(1) refused n less.prems(2)
        by (subst read_loop.simps) (simp add: writeIndex_def)
      moreover have "length (stream k') < length (stream k)"
        using k'(2) False less.prems(2) by simp
      moreover have "drop (length (stream k') - length (stream k') mod ?f) (stream k') =
          drop (length (stream k) - length (stream k) mod ?f) (stream k)"
      proof -
        have "length (stream k) mod ?f = (length (stream k) - ?f) mod ?f" using True by (rule le_mod_geq)
        moreover from this have "length (stream k) mod ?f \<le> length (stream k) - ?f"
          by (simp only: mod_less_eq_dividend)
        ultimately have "?f + (length (stream k) - ?f - length (stream k) mod ?f) =
            length (stream k) - length (stream k) mod ?f" using True by linarith
        then show ?thesis
          using k'(2) \<open>length (stream k) mod ?f = _\<close> by (simp only: length_drop drop_drop add.commute)
      qed
      ultimately show ?thesis
        using less.hyps [of k' ?b] v w less.prems(2) by simp
    next
      case False
      then have bs: "?bs = stream k" by simp
      have lt: "int (length ?bs) < writeAble b" using False unfolding bs by linarith
      then have lt': "int (length ?bs) < writeAble ?b" unfolding w .
      obtain b' where b': "moveWriteIndex ?b (int (length ?bs)) = Inr b'" "buf_inv b'"
        "contents b' = contents ?b @ take (length ?bs) (drop (nat (m_write_index ?b)) (m_buffer ?b))"
        "length (m_buffer b') = length (m_buffer ?b)" "m_write_index b' < int (length (m_buffer b'))"
        using moveWriteIndex_enqueues [OF v(2) of_nat_0_le_iff lt'] unfolding nat_int by blast
      have "read_loop sys_read b k = Some (Inr (True, False, b', k'))"
        using k'(1) ne v(1) b'(1) lt less.prems(2) unfolding bs
        by (subst read_loop.simps) (simp add: writeIndex_def Let_def)
      moreover have "length (stream k) mod ?f = length (stream k)" using False by simp
      ultimately show ?thesis
        using b' v k'(2) bs by (intro exI [of _ b'] exI [of _ k']) simp
    qed
  qed
qed

text \<open>C13. The read loop returns, drains the socket and leaves a free byte, but it keeps only the last
  incomplete block: with \<open>f\<close> free bytes and \<open>n\<close> bytes arriving, the first \<open>n - n mod f\<close> bytes are lost,
  because each block that fills the buffer is refused by \<open>moveWriteIndex\<close> and overwritten by the
  next.  Everything is kept exactly when fewer than \<open>f\<close> bytes arrive.\<close>

theorem read_keeps_remainder:
  assumes "stream_socket sys_read stream" and "buf_inv b" and "0 < writeAble b"
    and "n = length (stream k)" and "f = nat (writeAble b)"
  shows "\<exists>b' k'. read_loop sys_read b k = Some (Inr (True, False, b', k')) \<and> buf_inv b' \<and> stream k' = [] \<and>
           contents b' = contents b @ drop (n - n mod f) (stream k) \<and>
           m_write_index b' < int (length (m_buffer b')) \<and>
           (n < f \<longleftrightarrow> contents b' = contents b @ stream k)"
proof -
  obtain b' k' where b': "read_loop sys_read b k = Some (Inr (True, False, b', k'))" "buf_inv b'" "stream k' = []"
    "contents b' = contents b @ drop (n - n mod f) (stream k)" "m_write_index b' < int (length (m_buffer b'))"
    using read_loop_remainder [OF assms(1-3), of k] assms(4,5) by blast
  have "drop (n - n mod f) (stream k) = stream k \<longleftrightarrow> n - n mod f = 0 \<or> n = 0"
  proof
    assume "drop (n - n mod f) (stream k) = stream k"
    then have "length (drop (n - n mod f) (stream k)) = n" using assms(4) by simp
    then show "n - n mod f = 0 \<or> n = 0" using assms(4) unfolding length_drop by linarith
  qed (use assms(4) in auto)
  moreover have "n - n mod f = 0 \<longleftrightarrow> n < f"
    using assms(3,5) mod_less_divisor [of f n] mod_less [of n f] by (metis diff_is_0_eq diff_self_eq_0 le_less_trans zero_less_nat_eq)
  ultimately show ?thesis using b' assms(3,4,5) by auto
qed

theorem read_keeps_remainder_witness:
  "\<exists>b' k'. read_loop (\<lambda>k n. if k = [] then (Read_Again, k) else (Read_Bytes (take (nat n) k), drop (nat n) k))
       \<lparr>m_read_index = 0, m_write_index = 0, m_size = 4, m_buffer = replicate 4 NUL\<rparr> ''abcdefghij'' =
       Some (Inr (True, False, b', k')) \<and> contents b' = ''ij''"
proof -
  let ?b = "\<lparr>m_read_index = 0, m_write_index = 0, m_size = 4, m_buffer = replicate 4 NUL\<rparr>"
  have "stream_socket (\<lambda>k n. if k = [] then (Read_Again, k) else (Read_Bytes (take (nat n) k), drop (nat n) k)) (\<lambda>k. k)"
    by (simp add: stream_socket_def)
  moreover have "buf_inv ?b" "writeAble ?b = 4" "contents ?b = []"
    by (simp_all add: buf_inv_def writeAble_def wrap32_def contents_def readAble_def)
  ultimately show ?thesis
    using read_keeps_remainder [of _ "\<lambda>k. k" ?b "10" "''abcdefghij''" 4] by force
qed

section \<open>A server\<close>

text \<open>
  \<open>arrives sys_read stream w ms tail\<close>: the bytes waiting in the buffer and the socket of a connected
  world are the packets of the messages \<open>ms\<close> and an incomplete packet \<open>tail\<close>, and they leave a byte of
  the buffer free.
\<close>

definition arrives ::
  "'k sys_read \<Rightarrow> ('k \<Rightarrow> char list) \<Rightarrow> ('d, 'k) conn_world \<Rightarrow> tinypb list \<Rightarrow> char list \<Rightarrow> bool" where
  "arrives sys_read stream w ms tail \<longleftrightarrow>
     stream_socket sys_read stream \<and> tc_state (cw_conn w) = Connected \<and> buf_inv (tc_in_buffer (cw_conn w)) \<and>
     int (length (stream (cw_sock w))) < writeAble (tc_in_buffer (cw_conn w)) \<and>
     contents (tc_in_buffer (cw_conn w)) @ stream (cw_sock w) =
       concat (map (\<lambda>m. packet (with_msg_id m)) ms) @ tail \<and>
     (\<forall>m \<in> set ms. wf_msg m) \<and> incomplete tail \<and>
     int (length (m_buffer (tc_in_buffer (cw_conn w)))) + announced tail \<le> INT_MAX"

lemma arrives_read:
  assumes "arrives sys_read stream w ms tail"
  obtains b b' k where
    "read_loop sys_read (tc_in_buffer (cw_conn w)) (cw_sock w) = Some (Inr (True, False, b, k))"
    and "stream k = []" and "TinyPBCoder_decode [] b = Some (Inr (map received ms, b'))"
    and "contents b' = tail"
proof -
  let ?b = "tc_in_buffer (cw_conn w)" and ?k = "cw_sock w"
  note h = assms [unfolded arrives_def]
  have pos: "0 < writeAble ?b" "length (stream ?k) < nat (writeAble ?b)" using h by linarith+
  then have "length (stream ?k) - length (stream ?k) mod nat (writeAble ?b) = 0" by simp
  with read_loop_remainder [of sys_read stream ?b ?k] h pos obtain b k where b:
    "read_loop sys_read ?b ?k = Some (Inr (True, False, b, k))" "buf_inv b" "stream k = []"
    "contents b = contents ?b @ stream ?k" "length (m_buffer b) = length (m_buffer ?b)"
    "m_write_index b < int (length (m_buffer b))" by auto
  have "\<forall>m \<in> set (map with_msg_id ms). wf_msg m" using h wf_with_msg_id by auto
  moreover have "contents b = concat (map packet (map with_msg_id ms)) @ tail"
    using b(4) h by (simp add: comp_def)
  moreover have "map body (map with_msg_id ms) = map received ms" by (simp add: body_received)
  ultimately obtain b' where "TinyPBCoder_decode [] b = Some (Inr (map received ms, b'))" "contents b' = tail"
    using decode_packets [OF b(2) _ _ b(6), of "map with_msg_id ms" tail "[]"] h b(5) by auto
  with b show thesis by (intro that)
qed

lemma onRead_serves:
  assumes "arrives sys_read stream w ms tail"
    and "tc_connection_type (cw_conn w) = TcpConnectionByServer"
    and "out_ok w" and "cost (served w services (map received ms)) \<le> out_room w"
  shows "\<exists>w'. onRead sys_read run services w = Some (Inr w') \<and> out_ok w' \<and>
           contents (tc_in_buffer (cw_conn w')) = tail \<and> stream (cw_sock w') = [] \<and>
           out_bytes w' = out_bytes w @ concat (map (\<lambda>m. packet (with_msg_id m)) (served w services (map received ms))) \<and>
           out_room w - cost (served w services (map received ms)) \<le> out_room w' \<and>
           wants_out (cw_fd_event w') \<and> tc_state (cw_conn w') = Connected \<and>
           tc_connection_type (cw_conn w') = TcpConnectionByServer"
proof -
  obtain b b' k where b: "read_loop sys_read (tc_in_buffer (cw_conn w)) (cw_sock w) = Some (Inr (True, False, b, k))"
    "stream k = []" "TinyPBCoder_decode [] b = Some (Inr (map received ms, b'))" "contents b' = tail"
    by (rule arrives_read [OF assms(1)])
  have connected: "tc_state (cw_conn w) = Connected" using assms(1) by (simp add: arrives_def)
  let ?w = "(with_conn (tc_in_buffer_update (\<lambda>_. b)) w)\<lparr>cw_sock := k\<rparr>"
  have o: "served ?w services = served w services" and room: "out_room ?w = out_room w"
    by (simp_all add: served_def outcomes_def out_room_def fun_eq_iff)
  have dec: "TinyPBCoder_decode [] (tc_in_buffer (cw_conn ?w)) = Some (Inr (map received ms, b'))"
    using b(3) by simp
  obtain w' where w': "excute run services ?w = Some (Inr w')"
    "same_conn (with_conn (tc_in_buffer_update (\<lambda>_. b')) ?w) w'" "out_ok w'"
    "out_bytes w' = out_bytes ?w @ concat (map (\<lambda>m. packet (with_msg_id m)) (served w services (map received ms)))"
    "out_room w - cost (served w services (map received ms)) \<le> out_room w'" "wants_out (cw_fd_event w')"
    using excute_serves [of ?w, OF _ dec, of services run] assms(2-4) unfolding o room by auto
  have "tc_in_buffer (cw_conn w') = b'" "tc_state (cw_conn w') = Connected" "cw_sock w' = k"
    "tc_connection_type (cw_conn w') = TcpConnectionByServer"
    using same_conn_fields [OF w'(2)] connected w'(2) assms(2) by (simp_all add: same_conn_def)
  then show ?thesis using w' b connected by (intro exI [of _ w']) (simp add: onRead_def Let_def)
qed

lemma outcomes_ids:
  assumes "m \<in> set (fst (outcomes w services req)) \<or> m = snd (outcomes w services req)"
  shows "m_msg_id m = m_msg_id req" and "m_method_name m = m_method_name req"
proof -
  have base: "m_msg_id (snd (outcomes w services req)) = m_msg_id req \<and>
      m_method_name (snd (outcomes w services req)) = m_method_name req \<and>
      (\<forall>m \<in> set (fst (outcomes w services req)). m_msg_id m = m_msg_id req \<and> m_method_name m = m_method_name req)"
    by (auto simp: outcomes_def dispatch_outcome_def setTinyPBError_def Let_def last_map
        split: option.split prod.split)
  with assms show "m_msg_id m = m_msg_id req" and "m_method_name m = m_method_name req" by auto
qed

text \<open>C10. A server that reads complete requests answers them: \<open>onRead\<close> returns with the incomplete rest
  kept in the buffer, output requested from the event loop, and appended to the output buffer the
  packets of the replies made by the methods and of all the responses, each carrying the message id
  and the method name of one of the requests.\<close>

theorem server_answers:
  assumes "arrives sys_read stream w ms tail" and "tc_connection_type (cw_conn w) = TcpConnectionByServer"
    and "out_ok w" and "cost (served w services (map received ms)) \<le> out_room w"
  shows "\<exists>w'. onRead sys_read run services w = Some (Inr w') \<and>
           contents (tc_in_buffer (cw_conn w')) = tail \<and> stream (cw_sock w') = [] \<and>
           out_bytes w' = out_bytes w @ concat (map (\<lambda>m. packet (with_msg_id m)) (served w services (map received ms))) \<and>
           wants_out (cw_fd_event w') \<and>
           (\<forall>r \<in> set (served w services (map received ms)). \<exists>m \<in> set ms.
              m_msg_id r = m_msg_id (with_msg_id m) \<and> m_method_name r = m_method_name m)"
proof -
  have id: "m_msg_id (received m) = m_msg_id (with_msg_id m)" "m_method_name (received m) = m_method_name m" for m
    by (simp_all add: received_def sent_def)
  have "\<exists>m \<in> set ms. m_msg_id r = m_msg_id (with_msg_id m) \<and> m_method_name r = m_method_name m"
    if "r \<in> set (served w services (map received ms))" for r
  proof -
    from that obtain m where "m \<in> set ms"
      "r \<in> set (fst (outcomes w services (received m))) \<or> r = snd (outcomes w services (received m))"
      by (auto simp: served_def)
    with outcomes_ids [OF this(2)] id show ?thesis by auto
  qed
  with onRead_serves [OF assms, of run] show ?thesis by blast
qed

text \<open>A method that runs its \<open>done\<close> closure once answers twice: the closure replies, and \<open>excute\<close>
  encodes the same response again, so the client is sent two identical packets.\<close>

theorem response_sent_twice:
  assumes "arrives sys_read stream w [m] tail" and "tc_connection_type (cw_conn w) = TcpConnectionByServer"
    and "out_ok w" and "m_method_name m = sn @ ''.'' @ mn" and "CHR ''.'' \<notin> set sn"
    and "smap_find services sn = Some si" and "mn \<in> set (sv_methods (m_service si))"
    and "sv_parse (m_service si) mn (m_pb_data m) = Some q"
    and "\<And>c. sv_call (m_service si) mn c q = [v]"
    and "r = closure_response (m_service si) v
           (tinypb_new\<lparr>m_msg_id := m_msg_id (with_msg_id m), m_method_name := m_method_name m\<rparr>)"
    and "2 * packet_length (with_msg_id r) \<le> out_room w"
  shows "\<exists>w'. onRead sys_read run services w = Some (Inr w') \<and>
           out_bytes w' = out_bytes w @ packet (with_msg_id r) @ packet (with_msg_id r)"
proof -
  have req: "m_msg_id (received m) = m_msg_id (with_msg_id m)" "m_method_name (received m) = m_method_name m"
    "m_pb_data (received m) = m_pb_data m"
    by (simp_all add: received_def sent_def)
  have "parseServiceFullName (m_method_name m) = Some (sn, mn)"
    using assms(4,5) by (simp add: parseServiceFullName_Some)
  then have "outcomes w services (received m) = ([r], r)"
    using assms(6-10) req by (simp add: outcomes_def dispatch_outcome_def FindMethodByName_def Let_def)
  then have "served w services (map received [m]) = [r, r]" by (simp add: served_def)
  with onRead_serves [OF assms(1-3), of services run] assms(11) show ?thesis by auto
qed

section \<open>Writing the output buffer\<close>

text \<open>The kernel takes every byte it is given, and \<open>sent_bytes\<close> is what it has taken.\<close>

definition accepting_socket :: "'k sys_write \<Rightarrow> ('k \<Rightarrow> char list) \<Rightarrow> bool" where
  "accepting_socket sys_write sent_bytes \<longleftrightarrow>
     (\<forall>k bs. \<exists>k'. sys_write k bs = (Wrote (int (length bs)), k') \<and> sent_bytes k' = sent_bytes k @ bs)"

lemma read_contents: "buf_inv b \<Longrightarrow> read_bytes (m_buffer b) (readIndex b) (readAble b) = Inr (contents b)"
  by (simp add: read_bytes_def contents_def readIndex_def readAble_def buf_inv_def)

lemma contents_empty: "buf_inv b \<Longrightarrow> contents b = [] \<longleftrightarrow> readAble b = 0"
  using length_contents [of b] by (metis length_0_conv of_nat_eq_0_iff)

lemma write_loop_accepted:
  assumes "accepting_socket sys_write sent_bytes" and "buf_inv b"
  shows "\<exists>k'. write_loop sys_write b k = Some (Inr (True, k')) \<and> sent_bytes k' = sent_bytes k @ contents b"
proof (cases "readAble b = 0")
  case True
  then show ?thesis
    using contents_empty [OF assms(2)] by (subst write_loop.simps) simp
next
  case False
  obtain k' where k': "sys_write k (contents b) = (Wrote (int (length (contents b))), k')"
    "sent_bytes k' = sent_bytes k @ contents b"
    using assms(1) unfolding accepting_socket_def by blast
  moreover have "int (length (contents b)) = readAble b" by (rule length_contents [OF assms(2)])
  ultimately show ?thesis
    using False read_contents [OF assms(2)]
    by (intro exI [of _ k']) (subst write_loop.simps, simp)
qed

lemma onWrite_server:
  assumes "accepting_socket sys_write sent_bytes" and "out_ok w" and "tc_state (cw_conn w) = Connected"
    and "tc_connection_type (cw_conn w) = TcpConnectionByServer"
  shows "\<exists>w'. onWrite sys_write run w = Some (Inr w') \<and> cw_conn w' = cw_conn w \<and>
           sent_bytes (cw_sock w') = sent_bytes (cw_sock w) @ out_bytes w \<and> \<not> wants_out (cw_fd_event w')"
proof -
  obtain k' where "write_loop sys_write (tc_out_buffer (cw_conn w)) (cw_sock w) = Some (Inr (True, k'))"
    "sent_bytes k' = sent_bytes (cw_sock w) @ out_bytes w"
    using write_loop_accepted [OF assms(1,2), of "cw_sock w"] by blast
  with assms(3,4) show ?thesis by (simp add: onWrite_def update_epoll_def)
qed

text \<open>C14. \<open>onWrite\<close> never consumes what it has written.  When the kernel takes everything, the output
  buffer is unchanged, so after a second reply the next \<open>onWrite\<close> sends the first bytes again before
  the new packet; and when the kernel takes only the first \<open>n\<close> bytes, the loop writes the buffer
  again from its start, so the peer sees those \<open>n\<close> bytes twice.\<close>

theorem on_write_resends:
  assumes "accepting_socket sys_write sent_bytes" and "out_ok w" and "tc_state (cw_conn w) = Connected"
    and "tc_connection_type (cw_conn w) = TcpConnectionByServer"
    and "packet_length (with_msg_id m) \<le> out_room w"
  shows "(\<exists>w1 w2 w3. onWrite sys_write run w = Some (Inr w1) \<and>
            sent_bytes (cw_sock w1) = sent_bytes (cw_sock w) @ out_bytes w \<and> cw_conn w1 = cw_conn w \<and>
            TcpConnection_reply [m] w1 = Inr ([sent m], w2) \<and>
            onWrite sys_write run w2 = Some (Inr w3) \<and>
            sent_bytes (cw_sock w3) = sent_bytes (cw_sock w) @ out_bytes w @ out_bytes w @ packet (with_msg_id m)) \<and>
         (\<forall>write' k k1 k2 n. out_bytes w \<noteq> [] \<and> n < int (length (out_bytes w)) \<and>
            write' k (out_bytes w) = (Wrote n, k1) \<and>
            write' k1 (out_bytes w) = (Wrote (int (length (out_bytes w))), k2) \<longrightarrow>
            write_loop write' (tc_out_buffer (cw_conn w)) k = Some (Inr (True, k2)))"
proof (intro conjI allI impI)
  obtain w1 where w1: "onWrite sys_write run w = Some (Inr w1)" "cw_conn w1 = cw_conn w"
    "sent_bytes (cw_sock w1) = sent_bytes (cw_sock w) @ out_bytes w"
    using onWrite_server [OF assms(1-4), of run] by blast
  have "out_ok w1" "packet_length (with_msg_id m) \<le> out_room w1"
    using w1(2) assms(2,5) by (simp_all add: out_room_def)
  from conn.reply_one [OF this] obtain w2 where
    w2: "TcpConnection_reply [m] w1 = Inr ([sent m], w2)" "out_ok w2" "out_bytes w2 = out_bytes w1 @ packet (with_msg_id m)" .
  have same: "same_conn w1 w2" using reply_same_conn [OF w2(1), of w1] by simp
  then have "tc_state (cw_conn w2) = Connected" "tc_connection_type (cw_conn w2) = TcpConnectionByServer"
    "cw_sock w2 = cw_sock w1"
    using same_conn_fields [OF same] w1(2) assms(3,4) by (simp_all add: same_conn_def)
  then obtain w3 where "onWrite sys_write run w2 = Some (Inr w3)"
    "sent_bytes (cw_sock w3) = sent_bytes (cw_sock w1) @ out_bytes w2"
    using onWrite_server [OF assms(1) w2(2), of run] by auto
  then show "\<exists>w1 w2 w3. onWrite sys_write run w = Some (Inr w1) \<and>
      sent_bytes (cw_sock w1) = sent_bytes (cw_sock w) @ out_bytes w \<and> cw_conn w1 = cw_conn w \<and>
      TcpConnection_reply [m] w1 = Inr ([sent m], w2) \<and> onWrite sys_write run w2 = Some (Inr w3) \<and>
      sent_bytes (cw_sock w3) = sent_bytes (cw_sock w) @ out_bytes w @ out_bytes w @ packet (with_msg_id m)"
    using w1 w2 by (intro exI [of _ w1] exI [of _ w2] exI [of _ w3]) simp
next
  fix write' :: "'c sys_write" and k k1 k2 n
  let ?b = "tc_out_buffer (cw_conn w)"
  assume h: "out_bytes w \<noteq> [] \<and> n < int (length (out_bytes w)) \<and> write' k (out_bytes w) = (Wrote n, k1) \<and>
      write' k1 (out_bytes w) = (Wrote (int (length (out_bytes w))), k2)"
  have r: "readAble ?b \<noteq> 0" "int (length (out_bytes w)) = readAble ?b"
    "read_bytes (m_buffer ?b) (readIndex ?b) (readAble ?b) = Inr (out_bytes w)"
    using h contents_empty [OF assms(2)] length_contents [OF assms(2)] read_contents [OF assms(2)] by auto
  then have "write_loop write' ?b k1 = Some (Inr (True, k2))"
    using h by (subst write_loop.simps) simp
  moreover have "write_loop write' ?b k = write_loop write' ?b k1"
    using h r by (subst write_loop.simps) simp
  ultimately show "write_loop write' ?b k = Some (Inr (True, k2))" by simp
qed

section \<open>Closing\<close>

text \<open>A cleared connection is closed for good: it asks the event loop for nothing, and \<open>onRead\<close>,
  \<open>onWrite\<close>, \<open>shutdown\<close> and \<open>clear\<close> leave it alone, until \<open>setState\<close>, whatever its argument, declares it
  connected.  \<open>shutdown\<close> half-closes a connected one, which stops its reads and writes as well.\<close>

theorem closed_connection:
  shows "(tc_state (cw_conn w) \<noteq> Closed \<longrightarrow>
           (let u = TcpConnection_clear w in
            getState u = Closed \<and> \<not> wants_in (cw_fd_event u) \<and> \<not> wants_out (cw_fd_event u) \<and>
            onRead sys_read run services u = Some (Inr u) \<and> onWrite sys_write run u = Some (Inr u) \<and>
            TcpConnection_shutdown sys_shutdown u = u \<and> TcpConnection_clear u = u)) \<and>
         getState (setState state w) = Connected \<and>
         (getState w = Connected \<longrightarrow>
           (let u = TcpConnection_shutdown sys_shutdown w in
            getState u = HalfClosing \<and> cw_sock u = sys_shutdown (cw_sock w) \<and>
            onRead sys_read run services u = Some (Inr u) \<and> onWrite sys_write run u = Some (Inr u)))"
  by (auto simp: TcpConnection_clear_def getState_def setState_def TcpConnection_shutdown_def
      onRead_def onWrite_def Let_def)

section \<open>A client\<close>

text \<open>The callbacks that a list of responses runs: the first response of each registered id.\<close>

fun due_calls :: "(string \<Rightarrow> 'd option) \<Rightarrow> tinypb list \<Rightarrow> ('d \<times> tinypb) list" where
  "due_calls dones [] = []"
| "due_calls dones (m # ms) =
     (case dones (m_msg_id m) of None \<Rightarrow> due_calls dones ms
      | Some d \<Rightarrow> (d, m) # due_calls (dones(m_msg_id m := None)) ms)"

lemma due_calls_ids: "(d, m) \<in> set (due_calls dones ms) \<Longrightarrow> dones (m_msg_id m) = Some d \<and> m \<in> set ms"
  by (induction dones ms rule: due_calls.induct) (auto split: option.splits if_splits)

lemma due_calls_distinct: "distinct (map (m_msg_id \<circ> snd) (due_calls dones ms))"
proof (induction dones ms rule: due_calls.induct)
  case (2 dones m ms)
  show ?case
  proof (cases "dones (m_msg_id m)")
    case (Some d)
    have "m_msg_id m \<notin> (m_msg_id \<circ> snd) ` set (due_calls (dones(m_msg_id m := None)) ms)"
      using due_calls_ids by fastforce
    with 2(2) [OF Some] Some show ?thesis by (simp add: fun_upd_def)
  qed (use 2 in simp)
qed simp

lemma due_calls_complete:
  "m \<in> set ms \<Longrightarrow> dones (m_msg_id m) = Some d \<Longrightarrow> m_msg_id m \<in> (m_msg_id \<circ> snd) ` set (due_calls dones ms)"
proof (induction dones ms rule: due_calls.induct)
  case (2 dones m' ms)
  show ?case
  proof (cases "dones (m_msg_id m')")
    case None
    with 2 show ?thesis by auto
  next
    case (Some d')
    show ?thesis
    proof (cases "m_msg_id m' = m_msg_id m")
      case False
      have "m_msg_id m \<in> (m_msg_id \<circ> snd) ` set (due_calls (dones(m_msg_id m' := None)) ms)"
        by (rule 2(2) [OF Some]) (use False 2(3,4) in auto)
      with Some show ?thesis by auto
    qed (use Some in simp)
  qed
qed simp

lemma run_read_dones_due:
  assumes "\<And>d m w. run d m w = Some (Inr (w\<lparr>cw_sock := log_call d m (cw_sock w)\<rparr>))"
  shows "\<exists>w'. run_read_dones run ms w = Some (Inr w') \<and>
           tc_in_buffer (cw_conn w') = tc_in_buffer (cw_conn w) \<and>
           cw_sock w' = fold (\<lambda>(d, m). log_call d m) (due_calls (smap_find (tc_read_dones (cw_conn w))) ms) (cw_sock w) \<and>
           smap_find (tc_read_dones (cw_conn w')) =
             (\<lambda>i. if i \<in> m_msg_id ` set ms then None else smap_find (tc_read_dones (cw_conn w)) i)"
proof (induction ms arbitrary: w)
  case (Cons m ms)
  show ?case
  proof (cases "smap_find (tc_read_dones (cw_conn w)) (m_msg_id m)")
    case None
    from Cons.IH [of w] obtain w' where w': "run_read_dones run ms w = Some (Inr w')"
      "tc_in_buffer (cw_conn w') = tc_in_buffer (cw_conn w)"
      "cw_sock w' = fold (\<lambda>(d, m). log_call d m) (due_calls (smap_find (tc_read_dones (cw_conn w))) ms) (cw_sock w)"
      "smap_find (tc_read_dones (cw_conn w')) =
         (\<lambda>i. if i \<in> m_msg_id ` set ms then None else smap_find (tc_read_dones (cw_conn w)) i)" by blast
    have "smap_find (tc_read_dones (cw_conn w')) =
        (\<lambda>i. if i \<in> m_msg_id ` set (m # ms) then None else smap_find (tc_read_dones (cw_conn w)) i)"
      using None by (auto simp: w'(4))
    with None w'(1-3) show ?thesis by (intro exI [of _ w']) simp
  next
    case (Some d)
    let ?w = "with_conn (tc_read_dones_update (smap_erase (m_msg_id m))) (w\<lparr>cw_sock := log_call d m (cw_sock w)\<rparr>)"
    let ?dones = "(smap_find (tc_read_dones (cw_conn w)))(m_msg_id m := None)"
    have find: "smap_find (tc_read_dones (cw_conn ?w)) = ?dones" by (simp add: smap_find_erase)
    from Cons.IH [of ?w] obtain w' where w': "run_read_dones run ms ?w = Some (Inr w')"
      "tc_in_buffer (cw_conn w') = tc_in_buffer (cw_conn ?w)"
      "cw_sock w' = fold (\<lambda>(d, m). log_call d m) (due_calls ?dones ms) (cw_sock ?w)"
      "smap_find (tc_read_dones (cw_conn w')) = (\<lambda>i. if i \<in> m_msg_id ` set ms then None else ?dones i)"
      unfolding find by blast
    have "run_read_dones run (m # ms) w = Some (Inr w')"
      using Some w'(1) by (simp add: assms)
    moreover have "smap_find (tc_read_dones (cw_conn w')) =
        (\<lambda>i. if i \<in> m_msg_id ` set (m # ms) then None else smap_find (tc_read_dones (cw_conn w)) i)"
      by (auto simp: w'(4))
    ultimately show ?thesis using Some w'(2,3) by (intro exI [of _ w']) simp
  qed
qed simp

lemma onRead_due:
  assumes "arrives sys_read stream w ms tail" and "tc_connection_type (cw_conn w) = TcpConnectionByClient"
    and "\<And>d m w. run d m w = Some (Inr (w\<lparr>cw_sock := log_call d m (cw_sock w)\<rparr>))"
  shows "\<exists>w' k. onRead sys_read run services w = Some (Inr w') \<and> stream k = [] \<and>
           contents (tc_in_buffer (cw_conn w')) = tail \<and>
           cw_sock w' = fold (\<lambda>(d, m). log_call d m) (due_calls (smap_find (tc_read_dones (cw_conn w))) (map received ms)) k \<and>
           smap_find (tc_read_dones (cw_conn w')) =
             (\<lambda>i. if i \<in> m_msg_id ` set (map received ms) then None else smap_find (tc_read_dones (cw_conn w)) i)"
proof -
  obtain b b' k where b: "read_loop sys_read (tc_in_buffer (cw_conn w)) (cw_sock w) = Some (Inr (True, False, b, k))"
    "stream k = []" "TinyPBCoder_decode [] b = Some (Inr (map received ms, b'))" "contents b' = tail"
    by (rule arrives_read [OF assms(1)])
  let ?w = "w\<lparr>cw_sock := k, cw_conn := (cw_conn w)\<lparr>tc_in_buffer := b'\<rparr>\<rparr>"
  have eq: "tc_read_dones (cw_conn ?w) = tc_read_dones (cw_conn w)" "tc_in_buffer (cw_conn ?w) = b'" "cw_sock ?w = k"
    by simp_all
  obtain w' where w': "run_read_dones run (map received ms) ?w = Some (Inr w')" "tc_in_buffer (cw_conn w') = b'"
    "cw_sock w' = fold (\<lambda>(d, m). log_call d m) (due_calls (smap_find (tc_read_dones (cw_conn w))) (map received ms)) k"
    "smap_find (tc_read_dones (cw_conn w')) =
       (\<lambda>i. if i \<in> m_msg_id ` set (map received ms) then None else smap_find (tc_read_dones (cw_conn w)) i)"
    using run_read_dones_due [of run log_call "map received ms" ?w, OF assms(3)] unfolding eq by blast
  have "onRead sys_read run services w = Some (Inr w')"
    using assms(1,2) b(1,3) w'(1) by (simp add: onRead_def arrives_def excute_def Let_def)
  with b(2,4) w'(2-4) show ?thesis by (intro exI [of _ w'] exI [of _ k]) simp
qed

text \<open>C12. A client that reads complete responses runs, for each registered message id that is answered,
  the callback registered for it, exactly once and with the first response of that id, in the order
  of the responses; answered ids are no longer registered, so a repeated response is dropped.
  (The callbacks here act on the world outside the connection.)\<close>

theorem client_callbacks:
  assumes "arrives sys_read stream w ms tail" and "tc_connection_type (cw_conn w) = TcpConnectionByClient"
    and "\<And>d m w. run d m w = Some (Inr (w\<lparr>cw_sock := log_call d m (cw_sock w)\<rparr>))"
  shows "\<exists>w' k calls. onRead sys_read run services w = Some (Inr w') \<and> stream k = [] \<and>
           contents (tc_in_buffer (cw_conn w')) = tail \<and>
           cw_sock w' = fold (\<lambda>(d, m). log_call d m) calls k \<and>
           calls = due_calls (smap_find (tc_read_dones (cw_conn w))) (map received ms) \<and>
           distinct (map (m_msg_id \<circ> snd) calls) \<and>
           (\<forall>(d, r) \<in> set calls. smap_find (tc_read_dones (cw_conn w)) (m_msg_id r) = Some d) \<and>
           (\<forall>m \<in> set ms. \<forall>d. smap_find (tc_read_dones (cw_conn w)) (m_msg_id (with_msg_id m)) = Some d \<longrightarrow>
              m_msg_id (with_msg_id m) \<in> (m_msg_id \<circ> snd) ` set calls \<and>
              smap_find (tc_read_dones (cw_conn w')) (m_msg_id (with_msg_id m)) = None)"
proof -
  let ?dones = "smap_find (tc_read_dones (cw_conn w))"
  let ?calls = "due_calls ?dones (map received ms)"
  obtain w' k where w': "onRead sys_read run services w = Some (Inr w')" "stream k = []"
    "contents (tc_in_buffer (cw_conn w')) = tail" "cw_sock w' = fold (\<lambda>(d, m). log_call d m) ?calls k"
    "smap_find (tc_read_dones (cw_conn w')) = (\<lambda>i. if i \<in> m_msg_id ` set (map received ms) then None else ?dones i)"
    using onRead_due [where run = run and log_call = log_call and services = services, OF assms] by blast
  have "m_msg_id (with_msg_id m) \<in> (m_msg_id \<circ> snd) ` set ?calls \<and>
      smap_find (tc_read_dones (cw_conn w')) (m_msg_id (with_msg_id m)) = None"
    if "m \<in> set ms" "?dones (m_msg_id (with_msg_id m)) = Some d" for m d
  proof -
    have id: "m_msg_id (received m) = m_msg_id (with_msg_id m)" by (simp add: received_def sent_def)
    with that(1) have "m_msg_id (with_msg_id m) \<in> m_msg_id ` set (map received ms)"
      by (metis imageI image_set)
    then show ?thesis
      using due_calls_complete [of "received m" "map received ms" ?dones d] that id by (simp add: w'(5))
  qed
  then show ?thesis
    using w'(1-4) due_calls_distinct [of ?dones "map received ms"] due_calls_ids [of _ _ ?dones "map received ms"]
    by (intro exI [of _ w'] exI [of _ k] exI [of _ ?calls]) auto
qed

lemma run_write_dones_all:
  assumes "\<And>d m w. run d m w = Some (Inr (w\<lparr>cw_sock := log_call d m (cw_sock w)\<rparr>))"
    and "i \<le> length (tc_write_dones (cw_conn w))"
  shows "run_write_dones run i w = Some (Inr (w\<lparr>cw_sock :=
           fold (\<lambda>(m, d). log_call d m) (drop i (tc_write_dones (cw_conn w))) (cw_sock w)\<rparr>))"
  using assms(2)
proof (induction "length (tc_write_dones (cw_conn w)) - i" arbitrary: i w)
  case 0
  then show ?case by (subst run_write_dones.simps) simp
next
  case (Suc n)
  let ?ds = "tc_write_dones (cw_conn w)"
  let ?w = "w\<lparr>cw_sock := log_call (snd (?ds ! i)) (fst (?ds ! i)) (cw_sock w)\<rparr>"
  have i: "i < length ?ds" using Suc.hyps(2) by simp
  have "run_write_dones run i w = run_write_dones run (Suc i) ?w"
    using i by (subst run_write_dones.simps) (simp add: assms(1))
  also have "\<dots> = Some (Inr (?w\<lparr>cw_sock := fold (\<lambda>(m, d). log_call d m) (drop (Suc i) ?ds) (cw_sock ?w)\<rparr>))"
    using Suc.hyps(1) [of ?w "Suc i"] Suc.hyps(2) i by simp
  also have "drop i ?ds = ?ds ! i # drop (Suc i) ?ds" using i by (rule Cons_nth_drop_Suc [symmetric])
  ultimately show ?case by (simp add: case_prod_beta)
qed

text \<open>A client that may write encodes the messages it was given, in order, after whatever its output
  buffer still holds, sends all of it, runs the callback of each message once with the message as
  sent, and forgets them; but the bytes stay in its output buffer.\<close>

theorem client_sends:
  assumes "accepting_socket sys_write sent_bytes" and "out_ok w" and "tc_state (cw_conn w) = Connected"
    and "tc_connection_type (cw_conn w) = TcpConnectionByClient"
    and "cost (map fst (tc_write_dones (cw_conn w))) \<le> out_room w"
    and "\<And>d m w. run d m w = Some (Inr (w\<lparr>cw_sock := log_call d m (cw_sock w)\<rparr>))"
  shows "\<exists>w' k. onWrite sys_write run w = Some (Inr w') \<and> tc_write_dones (cw_conn w') = [] \<and>
           sent_bytes k = sent_bytes (cw_sock w) @ out_bytes w' \<and>
           out_bytes w' = out_bytes w @
             concat (map (\<lambda>m. packet (with_msg_id m)) (map fst (tc_write_dones (cw_conn w)))) \<and>
           cw_sock w' = fold (\<lambda>(m, d). log_call d (sent m)) (tc_write_dones (cw_conn w)) k \<and>
           \<not> wants_out (cw_fd_event w')"
proof -
  let ?ds = "tc_write_dones (cw_conn w)"
  obtain b where b: "TinyPBCoder_encode (map fst ?ds) (tc_out_buffer (cw_conn w)) = Inr (map sent (map fst ?ds), b)"
    "buf_inv b" "contents b = out_bytes w @ concat (map (\<lambda>m. packet (with_msg_id m)) (map fst ?ds))"
    by (rule encode_in_world [OF assms(2,5)])
  obtain k where k: "write_loop sys_write b (cw_sock w) = Some (Inr (True, k))"
    "sent_bytes k = sent_bytes (cw_sock w) @ contents b"
    using write_loop_accepted [OF assms(1) b(2), of "cw_sock w"] by blast
  let ?ds' = "zip (map sent (map fst ?ds)) (map snd ?ds)"
  let ?w = "update_epoll (w\<lparr>cw_conn := (cw_conn w)\<lparr>tc_out_buffer := b, tc_write_dones := ?ds'\<rparr>,
      cw_sock := k, cw_fd_event := fd_cancle OUT_EVENT (cw_fd_event w)\<rparr>)"
  have "zip (map sent (map fst xs)) (map snd xs) = map (\<lambda>(m, d). (sent m, d)) xs" for xs :: "(tinypb \<times> 'b) list"
    by (induction xs) auto
  note ds' = this [of ?ds]
  have "fold (\<lambda>(m, d). log_call d m) (map (\<lambda>(m, d). (sent m, d)) xs) k' =
      fold (\<lambda>(m, d). log_call d (sent m)) xs k'" for xs k'
    by (induction xs arbitrary: k') auto
  then have "fold (\<lambda>(m, d). log_call d m) ?ds' k = fold (\<lambda>(m, d). log_call d (sent m)) ?ds k"
    unfolding ds' .
  then have "run_write_dones run 0 ?w =
      Some (Inr (?w\<lparr>cw_sock := fold (\<lambda>(m, d). log_call d (sent m)) ?ds k\<rparr>))"
    using run_write_dones_all [of run log_call 0 ?w, OF assms(6)] by (simp add: update_epoll_def)
  then have "onWrite sys_write run w = Some (Inr (with_conn (tc_write_dones_update (\<lambda>_. []))
      (?w\<lparr>cw_sock := fold (\<lambda>(m, d). log_call d (sent m)) ?ds k\<rparr>)))"
    using assms(3,4) b(1) k(1) by (simp add: onWrite_def Let_def update_epoll_def)
  then show ?thesis using k(2) b(3)
    by (intro exI [of _ "with_conn (tc_write_dones_update (\<lambda>_. []))
      (?w\<lparr>cw_sock := fold (\<lambda>(m, d). log_call d (sent m)) ?ds k\<rparr>)"] exI [of _ k]) (simp add: update_epoll_def)
qed

section \<open>One call\<close>

text \<open>From server to client, end to end: when a connected server with an empty output buffer reads
  the request \<open>m\<close> of a method that answers \<open>r\<close> once, and a client waiting for the id of \<open>m\<close> reads the
  bytes the server put into its output buffer, the client runs the callback registered for the call
  exactly once, with the response as received, although the response was sent twice.\<close>

theorem one_call_one_answer:
  assumes "arrives sys_read stream s [m] []" and "tc_connection_type (cw_conn s) = TcpConnectionByServer"
    and "out_ok s" and "out_bytes s = []" and "2 * packet_length (with_msg_id r) \<le> out_room s"
    and "outcomes s services (received m) = ([r], r)" and "wf_msg r"
    and "stream_socket sys_read' stream'" and "tc_state (cw_conn c) = Connected"
    and "tc_connection_type (cw_conn c) = TcpConnectionByClient"
    and "buf_inv (tc_in_buffer (cw_conn c))" and "contents (tc_in_buffer (cw_conn c)) = []"
    and "2 * packet_length (with_msg_id r) < writeAble (tc_in_buffer (cw_conn c))"
    and "smap_find (tc_read_dones (cw_conn c)) (m_msg_id (with_msg_id m)) = Some d"
    and "\<And>d m w. run d m w = Some (Inr (w\<lparr>cw_sock := log_call d m (cw_sock w)\<rparr>))"
  shows "\<exists>s'. onRead sys_read run' services s = Some (Inr s') \<and>
           (stream' (cw_sock c) = out_bytes s' \<longrightarrow>
            (\<exists>c' k. onRead sys_read' run services' c = Some (Inr c') \<and> stream' k = [] \<and>
               cw_sock c' = log_call d (received r) k \<and>
               smap_find (tc_read_dones (cw_conn c')) (m_msg_id (with_msg_id m)) = None))"
proof -
  have "served s services (map received [m]) = [r, r]" using assms(6) by (simp add: served_def)
  then obtain s' where s': "onRead sys_read run' services s = Some (Inr s')"
    "out_bytes s' = packet (with_msg_id r) @ packet (with_msg_id r)"
    using onRead_serves [OF assms(1-3), of services run'] assms(4,5) by auto
  have id: "m_msg_id (received r) = m_msg_id (with_msg_id m)"
    using outcomes_ids [of r s services "received m"] assms(6)
    by (simp add: received_def sent_def with_msg_id_def split: if_splits)
  have "\<exists>c' k. onRead sys_read' run services' c = Some (Inr c') \<and> stream' k = [] \<and>
      cw_sock c' = log_call d (received r) k \<and>
      smap_find (tc_read_dones (cw_conn c')) (m_msg_id (with_msg_id m)) = None"
    if "stream' (cw_sock c) = out_bytes s'"
  proof -
    have "int (length (stream' (cw_sock c))) = 2 * packet_length (with_msg_id r)"
      using that s'(2) length_packet [of "with_msg_id r"] by simp
    moreover have "int (length (m_buffer (tc_in_buffer (cw_conn c)))) \<le> INT_MAX"
      using assms(11) by (simp add: buf_inv_def)
    ultimately have "arrives sys_read' stream' c [r, r] []"
      using assms(7-13) that s'(2) by (simp add: arrives_def incomplete_def announced_def)
    from onRead_due [where run = run and log_call = log_call and services = services', OF this assms(10,15)] obtain c' k where
      c': "onRead sys_read' run services' c = Some (Inr c')" "stream' k = []"
        "cw_sock c' = fold (\<lambda>(d, m). log_call d m)
           (due_calls (smap_find (tc_read_dones (cw_conn c))) [received r, received r]) k"
        "smap_find (tc_read_dones (cw_conn c')) (m_msg_id (received r)) = None" by auto
    then show ?thesis using assms(14) by (intro exI [of _ c'] exI [of _ k]) (simp add: id)
  qed
  with s'(1) show ?thesis by blast
qed

section \<open>Examples\<close>

text \<open>A socket as a pair of pending bytes and a record of calls, an echo service, and a connection with
  empty buffers of 256 bytes: the instances at which the theorems above are applied.\<close>

type_synonym list_socket = "char list \<times> (nat \<times> tinypb) list"

definition list_read :: "list_socket sys_read" where
  "list_read k n = (if fst k = [] then (Read_Again, k)
     else (Read_Bytes (take (nat n) (fst k)), (drop (nat n) (fst k), snd k)))"

definition list_write :: "list_socket sys_write" where
  "list_write k bs = (Wrote (int (length bs)), (fst k @ bs, snd k))"

definition list_log :: "nat \<Rightarrow> tinypb \<Rightarrow> list_socket \<Rightarrow> list_socket" where
  "list_log d m k = (fst k, snd k @ [(d, m)])"

definition list_run :: "(nat, list_socket) sys_run" where
  "list_run d m w = Some (Inr (w\<lparr>cw_sock := list_log d m (cw_sock w)\<rparr>))"

definition echo_service :: "(string, string) rpc_service" where
  "echo_service = \<lparr>sv_name = ''S'', sv_methods = [''m''], sv_parse = \<lambda>meth s. Some s,
     sv_call = \<lambda>meth c q. [q], sv_serialize = \<lambda>r. (True, r)\<rparr>"

definition echo_map :: "(string, string) service_map" where
  "echo_map = [(''S'', service_info_of echo_service)]"

definition sample_world ::
  "TcpConnectionType \<Rightarrow> (string, nat) smap \<Rightarrow> char list \<Rightarrow> (nat, list_socket) conn_world" where
  "sample_world type dones pending =
     (let b = \<lparr>m_read_index = 0, m_write_index = 0, m_size = 256, m_buffer = replicate 256 NUL\<rparr> in
      \<lparr>cw_conn = \<lparr>tc_local_addr = None, tc_peer_addr = None, tc_in_buffer = b, tc_out_buffer = b,
         tc_state = Connected, tc_fd = 7, tc_connection_type = type,
         tc_write_dones = [], tc_read_dones = dones\<rparr>,
       cw_fd_event = fd_event_new 7, cw_loop = the (EventLoop_new None 1 3 4 5), cw_tid = 1,
       cw_run_time = None, cw_sock = (pending, [])\<rparr>)"

definition sample_request :: tinypb where
  "sample_request = tinypb_new\<lparr>m_msg_id := ''1'', m_method_name := ''S.m'', m_pb_data := ''x''\<rparr>"

lemma sample_world_simps [simp]:
  "out_ok (sample_world t ds k)" "out_bytes (sample_world t ds k) = []"
  "out_room (sample_world t ds k) = WRITE_LIMIT"
  "buf_inv (tc_in_buffer (cw_conn (sample_world t ds k)))"
  "contents (tc_in_buffer (cw_conn (sample_world t ds k))) = []"
  "writeAble (tc_in_buffer (cw_conn (sample_world t ds k))) = 256"
  "length (m_buffer (tc_in_buffer (cw_conn (sample_world t ds k)))) = 256"
  "tc_state (cw_conn (sample_world t ds k)) = Connected"
  "tc_connection_type (cw_conn (sample_world t ds k)) = t"
  "tc_read_dones (cw_conn (sample_world t ds k)) = ds"
  "tc_write_dones (cw_conn (sample_world t ds k)) = []"
  "cw_sock (sample_world t ds k) = (k, [])"
  by (simp_all add: sample_world_def buf_inv_def contents_def readAble_def writeAble_def wrap32_def out_room_def Let_def)

lemma list_socket_laws:
  "stream_socket list_read fst" "accepting_socket list_write fst"
  "list_run d m w = Some (Inr (w\<lparr>cw_sock := list_log d m (cw_sock w)\<rparr>))"
  by (auto simp: stream_socket_def accepting_socket_def list_read_def list_write_def list_run_def)

lemma sample_request_simps [simp]:
  "with_msg_id sample_request = sample_request" "wf_msg sample_request" "packet_length sample_request = 31"
  "m_msg_id sample_request = ''1''" "m_method_name sample_request = ''S.m''" "m_pb_data sample_request = ''x''"
  by (simp_all add: sample_request_def with_msg_id_def wf_msg_def tinypb_new_def in_int32_def packet_length_def)

lemma sample_arrives:
  "arrives list_read fst (sample_world t ds (packet sample_request)) [sample_request] []"
proof -
  have "length (packet sample_request) = 31" using length_packet [of sample_request] by simp
  then show ?thesis
    by (simp add: arrives_def list_socket_laws incomplete_def announced_def)
qed

lemma sample_outcome:
  "outcomes (sample_world t ds k) echo_map (received sample_request) =
     ([(tinypb_new\<lparr>m_msg_id := ''1'', m_method_name := ''S.m'', m_pb_data := ''x''\<rparr>)],
      tinypb_new\<lparr>m_msg_id := ''1'', m_method_name := ''S.m'', m_pb_data := ''x''\<rparr>)"
proof -
  have "parseServiceFullName ''S.m'' = Some (''S'', ''m'')"
    by (simp add: parseServiceFullName_Some)
  moreover have "m_msg_id (received sample_request) = ''1''" "m_method_name (received sample_request) = ''S.m''"
    "m_pb_data (received sample_request) = ''x''"
    by (simp_all add: received_def sent_def)
  ultimately show ?thesis
    by (simp add: outcomes_def dispatch_outcome_def echo_map_def echo_service_def service_info_of_def
        FindMethodByName_def closure_response_def tinypb_new_def Let_def)
qed

theorem server_answers_witness:
  "\<exists>w'. onRead list_read list_run echo_map
       (sample_world TcpConnectionByServer [] (packet sample_request)) = Some (Inr w') \<and>
     wants_out (cw_fd_event w')"
  using server_answers [OF sample_arrives, of TcpConnectionByServer "[]" echo_map list_run]
  by (simp add: served_def sample_outcome sample_request_def [symmetric]) blast

theorem response_sent_twice_witness:
  "\<exists>w'. onRead list_read list_run echo_map
       (sample_world TcpConnectionByServer [] (packet sample_request)) = Some (Inr w') \<and>
     out_bytes w' = packet sample_request @ packet sample_request"
proof -
  have "closure_response echo_service ''x'' (tinypb_new\<lparr>m_msg_id := ''1'', m_method_name := ''S.m''\<rparr>) = sample_request"
    by (simp add: closure_response_def echo_service_def sample_request_def tinypb_new_def)
  then show ?thesis
    using response_sent_twice [OF sample_arrives, of TcpConnectionByServer "[]" "''S''" "''m''" echo_map
        "service_info_of echo_service" "''x''" "''x''" sample_request list_run]
    by (simp add: echo_map_def service_info_of_def) (simp add: echo_service_def)
qed

theorem on_write_resends_witness:
  "\<exists>u w1 w2 w3. TcpConnection_reply [sample_request] (sample_world TcpConnectionByServer [] []) = Inr ([sent sample_request], u) \<and>
     onWrite list_write list_run u = Some (Inr w1) \<and> fst (cw_sock w1) = packet sample_request \<and>
     TcpConnection_reply [sample_request] w1 = Inr ([sent sample_request], w2) \<and>
     onWrite list_write list_run w2 = Some (Inr w3) \<and>
     fst (cw_sock w3) = packet sample_request @ packet sample_request @ packet sample_request"
proof -
  let ?w = "sample_world TcpConnectionByServer [] [] :: (nat, list_socket) conn_world"
  obtain u where u: "TcpConnection_reply [sample_request] ?w = Inr ([sent sample_request], u)" "out_ok u"
    "out_bytes u = packet sample_request" "out_room ?w - 31 \<le> out_room u"
    using conn.reply_one [of ?w sample_request] by (auto simp del: sample_request_def)
  have "packet_length (with_msg_id sample_request) \<le> out_room u" using u(4) by simp
  moreover have same: "same_conn ?w u" using reply_same_conn [OF u(1), of ?w] by simp
  moreover from same_conn_fields [OF same] same have "tc_state (cw_conn u) = Connected"
    "tc_connection_type (cw_conn u) = TcpConnectionByServer" "fst (cw_sock u) = []"
    by (simp_all add: same_conn_def)
  ultimately show ?thesis
    using on_write_resends [OF list_socket_laws(2) u(2), of sample_request list_run] u(1,3) by auto
qed

theorem closed_connection_witness:
  "getState (TcpConnection_clear (sample_world TcpConnectionByServer [] [])) = Closed"
  using closed_connection [where w = "sample_world TcpConnectionByServer [] []" and sys_read = list_read
      and run = list_run and services = echo_map and sys_write = list_write and sys_shutdown = "\<lambda>k. k"
      and state = Closed]
  by (simp add: Let_def)

theorem client_callbacks_witness:
  "\<exists>w'. onRead list_read list_run echo_map
       (sample_world TcpConnectionByClient [(''1'', 5)] (packet sample_request)) = Some (Inr w') \<and>
     last (snd (cw_sock w')) = (5, received sample_request)"
proof -
  have "due_calls (smap_find [(''1'', 5 :: nat)]) [received sample_request] = [(5, received sample_request)]"
    by (simp add: received_def sent_def)
  with client_callbacks [where run = list_run and log_call = list_log and services = echo_map,
      OF sample_arrives [of TcpConnectionByClient "[(''1'', 5)]"] _ list_socket_laws(3)]
  show ?thesis by (fastforce simp: list_log_def)
qed

theorem client_sends_witness:
  "\<exists>w'. onWrite list_write list_run (pushSendMessage sample_request 5 (sample_world TcpConnectionByClient [] [])) =
       Some (Inr w') \<and> tc_write_dones (cw_conn w') = [] \<and> out_bytes w' = packet sample_request"
proof -
  let ?w = "pushSendMessage sample_request 5 (sample_world TcpConnectionByClient [] [])"
  have "out_ok ?w" "tc_state (cw_conn ?w) = Connected" "tc_connection_type (cw_conn ?w) = TcpConnectionByClient"
    "tc_write_dones (cw_conn ?w) = [(sample_request, 5)]" "out_bytes ?w = []" "out_room ?w = WRITE_LIMIT"
    using sample_world_simps(1-3,8,9,11) [of TcpConnectionByClient "[]" "[]"]
    by (simp_all add: pushSendMessage_def out_room_def)
  with client_sends [OF list_socket_laws(2), of ?w list_run list_log, OF _ _ _ _ list_socket_laws(3)]
  show ?thesis by fastforce
qed

theorem one_call_one_answer_witness:
  "\<exists>s'. onRead list_read list_run echo_map
       (sample_world TcpConnectionByServer ([] :: (string, nat) smap) (packet sample_request)) = Some (Inr s') \<and>
     (packet sample_request @ packet sample_request = out_bytes s' \<longrightarrow>
      (\<exists>c'. onRead list_read list_run echo_map (sample_world TcpConnectionByClient [(''1'', 5)]
          (packet sample_request @ packet sample_request)) = Some (Inr c') \<and>
        last (snd (cw_sock c')) = (5, received sample_request)))"
proof -
  let ?s = "sample_world TcpConnectionByServer [] (packet sample_request)"
  let ?c = "sample_world TcpConnectionByClient [(''1'', 5)] (packet sample_request @ packet sample_request)"
  have o: "outcomes ?s echo_map (received sample_request) = ([sample_request], sample_request)"
    unfolding sample_outcome by (simp add: sample_request_def)
  have "\<exists>s'. onRead list_read list_run echo_map ?s = Some (Inr s') \<and> (fst (cw_sock ?c) = out_bytes s' \<longrightarrow>
      (\<exists>c' k. onRead list_read list_run echo_map ?c = Some (Inr c') \<and> fst k = [] \<and>
         cw_sock c' = list_log 5 (received sample_request) k \<and>
         smap_find (tc_read_dones (cw_conn c')) (m_msg_id (with_msg_id sample_request)) = None))"
    by (rule one_call_one_answer [OF sample_arrives _ _ _ _ o _ list_socket_laws(1) _ _ _ _ _ _ list_socket_laws(3)])
      simp_all
  then show ?thesis by (fastforce simp: list_log_def)
qed

end
