(* ===== verification/Msg_Id.thy ===== *)
theory Msg_Id
  imports Std_String
begin

text \<open>
  \<open>common/msg_id_util.cc\<close>: the generator of message ids.  The two thread-local strings are the
  state; \<open>random\<close> is what the read of \<open>/dev/urandom\<close> delivers.  Indices are \<open>size_t\<close>: stepping
  below 0 leaves the string.
\<close>

record msg_id_state =
  t_msg_id_no :: string
  t_max_msg_id_no :: string

definition msg_id_init :: msg_id_state where
  "msg_id_init = \<lparr>t_msg_id_no = [], t_max_msg_id_no = []\<rparr>"

abbreviation g_msg_id_length :: nat where "g_msg_id_length \<equiv> 20"

definition random_digit :: "char \<Rightarrow> char" where
  "random_digit c = digit_char (of_char c mod 10)"

fun last_not_nine :: "string \<Rightarrow> nat \<Rightarrow> nat res" where
  \<comment> \<open>\<open>while (s[i] == '9' && i >= 0) i--\<close>, where \<open>i >= 0\<close> holds of every \<open>size_t\<close>\<close>
  "last_not_nine s i =
     (if s ! i = CHR ''9'' then (if i = 0 then Inl Out_Of_Bounds else last_not_nine s (i - 1))
      else Inr i)"

declare last_not_nine.simps [simp del]

definition next_char :: "char \<Rightarrow> char" where "next_char c = char_of ((of_char c :: nat) + 1)"

definition GenMsgID :: "char list \<Rightarrow> msg_id_state \<Rightarrow> (string \<times> msg_id_state) res" where
  "GenMsgID random st =
     (if t_msg_id_no st = [] \<or> t_msg_id_no st = t_max_msg_id_no st
      then if length random \<noteq> g_msg_id_length then Inr ([], st)
           else let res = map random_digit random;
                    st = st\<lparr>t_max_msg_id_no := t_max_msg_id_no st @ replicate g_msg_id_length (CHR ''9''),
                            t_msg_id_no := res\<rparr>
                in Inr (t_msg_id_no st, st)
      else bind_res (last_not_nine (t_msg_id_no st) (length (t_msg_id_no st) - 1)) (\<lambda>i.
           let no = t_msg_id_no st;
               st = st\<lparr>t_msg_id_no := take i no @ next_char (no ! i) # replicate (length no - i - 1) (CHR ''0'')\<rparr>
           in Inr (t_msg_id_no st, st)))"

text \<open>An id in use: twenty digits.\<close>

definition msg_id_ok :: "string \<Rightarrow> bool" where
  "msg_id_ok s \<longleftrightarrow> length s = g_msg_id_length \<and> (\<forall>c \<in> set s. is_digit c)"

lemma dec_val_append: "dec_val (s @ t) = dec_val s * 10 ^ length t + dec_val t"
  by (induction t rule: rev_induct) (simp_all add: dec_val_def algebra_simps)

lemma dec_val_zeros [simp]: "dec_val (replicate n (CHR ''0'')) = 0"
proof (induction n)
  case (Suc n)
  have "replicate (Suc n) (CHR ''0'') = replicate n (CHR ''0'') @ [CHR ''0'']"
    by (simp add: replicate_append_same)
  with Suc show ?case by (simp add: digit_val_def)
qed (simp add: dec_val_def)

lemma dec_val_nines: "dec_val (replicate n (CHR ''9'')) + 1 = 10 ^ n"
proof (induction n)
  case (Suc n)
  have "replicate (Suc n) (CHR ''9'') = replicate n (CHR ''9'') @ [CHR ''9'']"
    by (simp add: replicate_append_same)
  with Suc show ?case by (simp add: digit_val_def)
qed (simp add: dec_val_def)

lemma dec_val_bound: "\<forall>c \<in> set s. is_digit c \<Longrightarrow> dec_val s < 10 ^ length s"
proof (induction s rule: rev_induct)
  case (snoc c s)
  then have "dec_val s + 1 \<le> 10 ^ length s" "digit_val c < 10" by (auto dest: digit_val_less)
  then show ?case by simp
qed (simp add: dec_val_def)

lemma last_not_nine_found:
  "j \<le> i \<Longrightarrow> s ! j \<noteq> CHR ''9'' \<Longrightarrow> (\<And>k. j < k \<Longrightarrow> k \<le> i \<Longrightarrow> s ! k = CHR ''9'') \<Longrightarrow> last_not_nine s i = Inr j"
proof (induction i)
  case (Suc i)
  show ?case
  proof (cases "j = Suc i")
    case False
    with Suc.prems have "last_not_nine s i = Inr j" by (intro Suc.IH) auto
    moreover have "s ! Suc i = CHR ''9''" using False Suc.prems by auto
    ultimately show ?thesis by (subst last_not_nine.simps) simp
  qed (use Suc.prems in \<open>simp add: last_not_nine.simps\<close>)
qed (simp add: last_not_nine.simps)

lemma last_not_nine_all: "(\<And>k. k \<le> i \<Longrightarrow> s ! k = CHR ''9'') \<Longrightarrow> last_not_nine s i = Inl Out_Of_Bounds"
  by (induction i) (auto simp: last_not_nine.simps)

lemma split_nines:
  "s = replicate (length s) (CHR ''9'') \<or>
   (\<exists>p c n. s = p @ c # replicate n (CHR ''9'') \<and> c \<noteq> CHR ''9'')"
proof (induction s rule: rev_induct)
  case (snoc d s)
  show ?case
  proof (cases "d = CHR ''9''")
    case True
    from snoc show ?thesis
    proof
      assume "s = replicate (length s) (CHR ''9'')"
      then have "s @ [d] = replicate (length (s @ [d])) (CHR ''9'')"
        using True by (metis length_append_singleton replicate_Suc replicate_append_same)
      then show ?thesis ..
    next
      assume "\<exists>p c n. s = p @ c # replicate n (CHR ''9'') \<and> c \<noteq> CHR ''9''"
      then obtain p c n where "s = p @ c # replicate n (CHR ''9'')" "c \<noteq> CHR ''9''" by blast
      then have "s @ [d] = p @ c # replicate (Suc n) (CHR ''9'')" "c \<noteq> CHR ''9''"
        using True by (simp_all add: replicate_append_same)
      then show ?thesis by blast
    qed
  next
    case False
    have "s @ [d] = s @ d # replicate 0 (CHR ''9'')" by simp
    with False show ?thesis by blast
  qed
qed simp

lemma nine_val: "is_digit c \<Longrightarrow> c \<noteq> CHR ''9'' \<Longrightarrow> digit_val c < 9"
  using digit_val_less [of c] digit_char_digit_val [of c] by (cases "digit_val c = 9") (auto simp: digit_chars)

lemma next_char_digit:
  assumes "is_digit c" and "c \<noteq> CHR ''9''"
  shows "next_char c = digit_char (Suc (digit_val c))" and "digit_val (next_char c) = Suc (digit_val c)"
    and "is_digit (next_char c)"
proof -
  have lt: "digit_val c < 9" using assms by (rule nine_val)
  have "of_char c = 48 + digit_val c" using assms(1) by (simp add: is_digit_def digit_val_def)
  then show eq: "next_char c = digit_char (Suc (digit_val c))" by (simp add: next_char_def digit_char_def)
  show "digit_val (next_char c) = Suc (digit_val c)" "is_digit (next_char c)" using lt by (simp_all add: eq)
qed

lemma GenMsgID_next:
  assumes "msg_id_ok (t_msg_id_no st)" and "t_msg_id_no st \<noteq> t_max_msg_id_no st"
    and "t_msg_id_no st \<noteq> replicate g_msg_id_length (CHR ''9'')"
  shows "\<exists>i. GenMsgID random st = Inr (i, st\<lparr>t_msg_id_no := i\<rparr>) \<and> msg_id_ok i \<and>
           dec_val i = dec_val (t_msg_id_no st) + 1"
proof -
  let ?no = "t_msg_id_no st"
  obtain p c n where no: "?no = p @ c # replicate n (CHR ''9'')" and c: "c \<noteq> CHR ''9''"
    using split_nines [of ?no] assms(1,3) by (auto simp: msg_id_ok_def)
  have dc: "is_digit c" using assms(1) no by (simp add: msg_id_ok_def)
  have idx: "last_not_nine ?no (length ?no - 1) = Inr (length p)"
    by (rule last_not_nine_found) (auto simp: no c nth_append nth_Cons split: nat.split)
  let ?i = "p @ next_char c # replicate n (CHR ''0'')"
  have "GenMsgID random st = Inr (?i, st\<lparr>t_msg_id_no := ?i\<rparr>)"
    using assms(2) idx by (simp add: GenMsgID_def Let_def no)
  moreover have "msg_id_ok ?i"
    using assms(1) next_char_digit(3) [OF dc c] by (auto simp: msg_id_ok_def no is_digit_def)
  moreover have "dec_val ?i = dec_val ?no + 1"
  proof -
    have "dec_val ?no = (dec_val p * 10 + digit_val c) * 10 ^ n + dec_val (replicate n (CHR ''9''))"
      using dec_val_append [of "p @ [c]" "replicate n (CHR ''9'')"] by (simp add: no)
    moreover have "dec_val ?i = (dec_val p * 10 + (digit_val c + 1)) * 10 ^ n"
      using dec_val_append [of "p @ [next_char c]" "replicate n (CHR ''0'')"] next_char_digit(2) [OF dc c] by simp
    ultimately show ?thesis using dec_val_nines [of n] by (simp add: algebra_simps)
  qed
  ultimately show ?thesis by blast
qed

fun gen_ids :: "nat \<Rightarrow> char list \<Rightarrow> msg_id_state \<Rightarrow> (string list \<times> msg_id_state) res" where
  \<comment> \<open>\<open>n\<close> calls of the generator on one thread\<close>
  "gen_ids 0 random st = Inr ([], st)"
| "gen_ids (Suc n) random st =
     bind_res (GenMsgID random st) (\<lambda>(i, st).
     bind_res (gen_ids n random st) (\<lambda>(is, st). Inr (i # is, st)))"

lemma gen_ids_count:
  assumes "msg_id_ok (t_msg_id_no st)" and "t_max_msg_id_no st = replicate k (CHR ''9'')"
    and "g_msg_id_length \<le> k" and "dec_val (t_msg_id_no st) + n < 10 ^ g_msg_id_length"
  shows "\<exists>is st'. gen_ids n random st = Inr (is, st') \<and>
           map dec_val is = map (\<lambda>j. dec_val (t_msg_id_no st) + j + 1) [0..<n] \<and> (\<forall>i \<in> set is. msg_id_ok i) \<and>
           st' = st\<lparr>t_msg_id_no := last (t_msg_id_no st # is)\<rparr>"
  using assms
proof (induction n arbitrary: st)
  case (Suc n)
  have nines: "t_msg_id_no st \<noteq> replicate g_msg_id_length (CHR ''9'')"
    using Suc.prems(4) dec_val_nines [of g_msg_id_length] by auto
  moreover have "length (t_msg_id_no st) = g_msg_id_length" using Suc.prems(1) by (simp add: msg_id_ok_def)
  ultimately have "t_msg_id_no st \<noteq> t_max_msg_id_no st" using Suc.prems(2) by auto
  with GenMsgID_next [OF Suc.prems(1), of random] nines obtain i where
    i: "GenMsgID random st = Inr (i, st\<lparr>t_msg_id_no := i\<rparr>)" "msg_id_ok i" "dec_val i = dec_val (t_msg_id_no st) + 1"
    by auto
  obtain "is" st' where "gen_ids n random (st\<lparr>t_msg_id_no := i\<rparr>) = Inr (is, st')"
    "map dec_val is = map (\<lambda>j. dec_val i + j + 1) [0..<n]" "\<forall>i \<in> set is. msg_id_ok i"
    "st' = st\<lparr>t_msg_id_no := last (i # is)\<rparr>"
    using Suc.IH [of "st\<lparr>t_msg_id_no := i\<rparr>"] i Suc.prems by auto
  moreover have "map (\<lambda>j. dec_val (t_msg_id_no st) + j + 1) [0..<Suc n] =
      dec_val i # map (\<lambda>j. dec_val i + j + 1) [0..<n]"
    using i(3) by (simp add: map_upt_Suc del: upt_Suc)
  ultimately show ?case using i by simp
qed simp

text \<open>A thread that draws an id counts up from it, whatever the limit is.\<close>

lemma gen_ids_drawn:
  assumes "t_msg_id_no st = [] \<or> t_msg_id_no st = t_max_msg_id_no st"
    and "t_max_msg_id_no st = replicate k (CHR ''9'')"
    and "length random = g_msg_id_length" and "dec_val (map random_digit random) + n < 10 ^ g_msg_id_length"
  shows "\<exists>is. gen_ids (Suc n) random st =
           Inr (is, \<lparr>t_msg_id_no = last is, t_max_msg_id_no = replicate (k + g_msg_id_length) (CHR ''9'')\<rparr>) \<and>
           map dec_val is = map (\<lambda>j. dec_val (map random_digit random) + j) [0..<Suc n] \<and>
           (\<forall>i \<in> set is. msg_id_ok i) \<and> is \<noteq> []"
proof -
  let ?first = "map random_digit random"
  let ?st = "\<lparr>t_msg_id_no = ?first, t_max_msg_id_no = replicate (k + g_msg_id_length) (CHR ''9'')\<rparr>"
  have "GenMsgID random st = Inr (?first, ?st)"
    using assms(1-3) by (simp add: GenMsgID_def Let_def replicate_add)
  moreover have "msg_id_ok ?first" using assms(3) by (auto simp: msg_id_ok_def random_digit_def)
  moreover from this obtain "is" where
    "gen_ids n random ?st = Inr (is, ?st\<lparr>t_msg_id_no := last (?first # is)\<rparr>)"
    "map dec_val is = map (\<lambda>j. dec_val ?first + j + 1) [0..<n]" "\<forall>i \<in> set is. msg_id_ok i"
    using gen_ids_count [of ?st "k + g_msg_id_length" n random] assms(4) by auto
  ultimately show ?thesis
    by (intro exI [of _ "?first # is"]) (simp add: map_upt_Suc del: upt_Suc)
qed

lemma nines_of_val:
  "\<forall>c \<in> set s. is_digit c \<Longrightarrow> dec_val s + 1 = 10 ^ length s \<Longrightarrow> s = replicate (length s) (CHR ''9'')"
proof (induction s rule: rev_induct)
  case (snoc c s)
  have "digit_val c < 10" using snoc.prems(1) by (simp add: digit_val_less)
  moreover have "10 * dec_val s + digit_val c + 1 = 10 * 10 ^ length s" using snoc.prems(2) by simp
  ultimately have *: "digit_val c = 9 \<and> dec_val s + 1 = 10 ^ length s" by presburger
  then have "c = CHR ''9''" using snoc.prems(1) nine_val [of c] by auto
  moreover have "s = replicate (length s) (CHR ''9'')" using * snoc by simp
  ultimately show ?case by (metis length_append_singleton replicate_Suc replicate_append_same)
qed simp

lemma last_id_nines:
  assumes "map dec_val is = map (\<lambda>j. f + j) [0..<Suc n]" and "f + n + 1 = 10 ^ g_msg_id_length"
    and "\<forall>i \<in> set is. msg_id_ok i" and "is \<noteq> []"
  shows "last is = replicate g_msg_id_length (CHR ''9'')"
proof -
  have "dec_val (last is) = f + n" using arg_cong [OF assms(1), of last] assms(4) by (simp add: last_map)
  moreover have "msg_id_ok (last is)" using assms(3,4) by simp
  ultimately show ?thesis using nines_of_val [of "last is"] assms(2) by (simp add: msg_id_ok_def)
qed

lemma distinct_count: "map dec_val is = map (\<lambda>j. f + j) [0..<n] \<Longrightarrow> distinct is"
  by (metis (mono_tags, lifting) add_left_cancel distinct_map distinct_upt inj_onI)

text \<open>C24. The ids of a thread are distinct strings of twenty digits: the first takes its digits from
  the random bytes, and each further one is its predecessor plus one, as long as the count does not
  pass twenty nines.  When the thread has just handed out twenty nines, its next call draws new random
  digits and counts up from them in the same way, but the limit it compares with has then grown to
  forty nines: the second time it hands out twenty nines it does not notice, and the call after that
  indexes before the start of the string.\<close>

theorem msg_ids_distinct:
  assumes "length random = g_msg_id_length" and "first = map random_digit random"
    and "dec_val first + n < 10 ^ g_msg_id_length"
    and "length random' = g_msg_id_length" and "second = map random_digit random'"
    and "dec_val second + m < 10 ^ g_msg_id_length"
  shows "\<exists>is st. gen_ids (Suc n) random msg_id_init = Inr (is, st) \<and>
           map dec_val is = map (\<lambda>k. dec_val first + k) [0..<Suc n] \<and> distinct is \<and>
           (\<forall>i \<in> set is. msg_id_ok i) \<and>
           (dec_val first + n + 1 = 10 ^ g_msg_id_length \<longrightarrow>
             last is = replicate 20 (CHR ''9'') \<and>
             (\<exists>is' st'. gen_ids (Suc m) random' st = Inr (is', st') \<and>
                map dec_val is' = map (\<lambda>k. dec_val second + k) [0..<Suc m] \<and> distinct is' \<and>
                (\<forall>i \<in> set is'. msg_id_ok i) \<and> t_max_msg_id_no st' = replicate 40 (CHR ''9'') \<and>
                (dec_val second + m + 1 = 10 ^ g_msg_id_length \<longrightarrow>
                   last is' = replicate 20 (CHR ''9'') \<and> GenMsgID random'' st' = Inl Out_Of_Bounds)))"
proof -
  obtain "is" where "is": "gen_ids (Suc n) random msg_id_init =
      Inr (is, \<lparr>t_msg_id_no = last is, t_max_msg_id_no = replicate 20 (CHR ''9'')\<rparr>)"
    "map dec_val is = map (\<lambda>j. dec_val first + j) [0..<Suc n]" "\<forall>i \<in> set is. msg_id_ok i" "is \<noteq> []"
    using gen_ids_drawn [of msg_id_init 0 random n] assms(1-3) by (auto simp: msg_id_init_def)
  note distinct = distinct_count [OF "is"(2)] and last = last_id_nines [OF "is"(2) _ "is"(3,4)]
  let ?st = "\<lparr>t_msg_id_no = replicate 20 (CHR ''9''), t_max_msg_id_no = replicate 20 (CHR ''9'')\<rparr>"
  obtain is' where is': "gen_ids (Suc m) random' ?st =
      Inr (is', \<lparr>t_msg_id_no = last is', t_max_msg_id_no = replicate 40 (CHR ''9'')\<rparr>)"
    "map dec_val is' = map (\<lambda>j. dec_val second + j) [0..<Suc m]" "\<forall>i \<in> set is'. msg_id_ok i" "is' \<noteq> []"
    using gen_ids_drawn [of ?st 20 random' m] assms(4-6) by auto
  note distinct' = distinct_count [OF is'(2)] and last' = last_id_nines [OF is'(2) _ is'(3,4)]
  have "last_not_nine (replicate 20 (CHR ''9'')) 19 = Inl Out_Of_Bounds"
    by (rule last_not_nine_all) simp
  then have "GenMsgID random'' \<lparr>t_msg_id_no = replicate 20 (CHR ''9''),
      t_max_msg_id_no = replicate 40 (CHR ''9'')\<rparr> = Inl Out_Of_Bounds"
    by (simp add: GenMsgID_def)
  note lost = this
  show ?thesis
  proof (rule exI [of _ "is"], rule exI, intro conjI impI)
    assume top: "dec_val first + n + 1 = 10 ^ g_msg_id_length"
    show "last is = replicate 20 (CHR ''9'')" by (rule last [OF top])
    show "\<exists>is' st'. gen_ids (Suc m) random' \<lparr>t_msg_id_no = last is, t_max_msg_id_no = replicate 20 (CHR ''9'')\<rparr> = Inr (is', st') \<and>
        map dec_val is' = map (\<lambda>k. dec_val second + k) [0..<Suc m] \<and> distinct is' \<and>
        (\<forall>i \<in> set is'. msg_id_ok i) \<and> t_max_msg_id_no st' = replicate 40 (CHR ''9'') \<and>
        (dec_val second + m + 1 = 10 ^ g_msg_id_length \<longrightarrow>
           last is' = replicate 20 (CHR ''9'') \<and> GenMsgID random'' st' = Inl Out_Of_Bounds)"
      unfolding last [OF top]
      by (rule exI [of _ is'], rule exI, intro conjI impI, rule is'(1), rule is'(2), rule distinct',
        rule is'(3), simp, erule last', simp only: last' lost)
  qed (rule "is" distinct)+
qed

theorem msg_ids_distinct_witness:
  "let nines = replicate 20 (CHR ''9''); random = replicate 20 (CHR 0x09) in
   \<exists>st st' i i'. gen_ids (Suc 0) random msg_id_init = Inr ([i], st) \<and> i = nines \<and>
     gen_ids (Suc 0) random st = Inr ([i'], st') \<and> i' = nines \<and> GenMsgID random st' = Inl Out_Of_Bounds"
proof -
  let ?r = "replicate 20 (CHR 0x09)" and ?nines = "replicate 20 (CHR ''9'')"
  have digits: "?nines = map random_digit ?r" by (simp add: random_digit_def digit_chars)
  have val: "dec_val ?nines + 0 + 1 = 10 ^ g_msg_id_length" using dec_val_nines [of 20] by simp
  then have lt: "dec_val ?nines + 0 < 10 ^ g_msg_id_length" by linarith
  have one: "\<exists>i. is = [i] \<and> i = last is" if "map dec_val is = map f [0..<Suc 0]" for "is" and f :: "nat \<Rightarrow> nat"
    using arg_cong [OF that, of length] by (cases "is") auto
  have len: "length ?r = g_msg_id_length" by simp
  from msg_ids_distinct [OF len digits lt len digits lt, of ?r] val obtain "is" st is' st' where
    "gen_ids (Suc 0) ?r msg_id_init = Inr (is, st)" "map dec_val is = map (\<lambda>k. dec_val ?nines + k) [0..<Suc 0]"
    "last is = ?nines" "gen_ids (Suc 0) ?r st = Inr (is', st')"
    "map dec_val is' = map (\<lambda>k. dec_val ?nines + k) [0..<Suc 0]" "last is' = ?nines"
    "GenMsgID ?r st' = Inl Out_Of_Bounds" by blast
  moreover from this obtain i i' where "is = [i]" "i = ?nines" "is' = [i']" "i' = ?nines"
    using one by metis
  ultimately show ?thesis unfolding Let_def by blast
qed

end
