(* ===== verification/Murmur_Hash.thy ===== *)
theory Murmur_Hash
  imports Net_Bytes
begin

text \<open>
  \<open>common/enc/murmurhash.{h,cc}\<close>: the hash that places keys and virtual nodes on the ring.
  \<open>uint32_t\<close> is \<open>32 word\<close>; the pointer casts read little-endian words.  The length is a \<open>uint32_t\<close> and
  the number of blocks an \<open>int\<close>: from \<open>2 ^ 31\<close> bytes on, the product that finds the tail overflows.
\<close>

unbundle bit_operations_syntax

definition le_word :: "char list \<Rightarrow> 32 word" where
  \<comment> \<open>the first four bytes (or fewer) as a \<open>uint32_t\<close>, least significant first\<close>
  "le_word bs = foldr (\<lambda>b w. push_bit 8 w OR of_nat (of_char b)) (take 4 bs) 0"

definition rotl :: "32 word \<Rightarrow> nat \<Rightarrow> 32 word" where
  "rotl x r = push_bit r x OR drop_bit (32 - r) x"

definition scramble :: "32 word \<Rightarrow> 32 word" where
  "scramble k = rotl (k * 0xcc9e2d51) 15 * 0x1b873593"

definition mix_block :: "32 word \<Rightarrow> 32 word \<Rightarrow> 32 word" where
  "mix_block hash k = rotl (hash XOR scramble k) 13 * 5 + 0xe6546b64"

fun mix_blocks :: "nat \<Rightarrow> 32 word \<Rightarrow> char list \<Rightarrow> 32 word res" where
  \<comment> \<open>the loop, with so many turns to go, from the place of the next block\<close>
  "mix_blocks 0 hash blocks = Inr hash"
| "mix_blocks (Suc n) hash blocks =
     (if length blocks < 4 then Inl Out_Of_Bounds
      else mix_blocks n (mix_block hash (le_word (take 4 blocks))) (drop 4 blocks))"

definition finish :: "32 word \<Rightarrow> 32 word" where
  "finish hash =
     (let hash = hash XOR drop_bit 16 hash;
          hash = hash * 0x85ebca6b;
          hash = hash XOR drop_bit 13 hash;
          hash = hash * 0xc2b2ae35
      in hash XOR drop_bit 16 hash)"

definition mix_tail :: "nat \<Rightarrow> char list \<Rightarrow> 32 word \<Rightarrow> 32 word res" where
  \<comment> \<open>the \<open>switch\<close> on \<open>len & 3\<close>\<close>
  "mix_tail rest tail hash =
     (if length tail < rest then Inl Out_Of_Bounds
      else
        let k1 = 0;
            k1 = (if rest \<ge> 3 then k1 XOR push_bit 16 (of_nat (of_char (tail ! 2))) else k1);
            k1 = (if rest \<ge> 2 then k1 XOR push_bit 8 (of_nat (of_char (tail ! 1))) else k1);
            k1 = (if rest \<ge> 1 then k1 XOR of_nat (of_char (tail ! 0)) else k1)
        in Inr (if rest \<ge> 1 then hash XOR scramble k1 else hash))"

definition murmur3_32 :: "char list \<Rightarrow> 32 word \<Rightarrow> 32 word \<Rightarrow> 32 word res" where
  \<comment> \<open>\<open>key\<close> is the array the argument points to\<close>
  "murmur3_32 key len seed =
     (let nblocks = unat (len div 4) in
      bind_res (mix_blocks nblocks seed key) (\<lambda>hash.
      bind_res (chk32 (int nblocks * 4)) (\<lambda>offset.
      bind_res (mix_tail (unat (len AND 3)) (drop (nat offset) key) hash) (\<lambda>hash.
      Inr (finish (hash XOR len))))))"

abbreviation murmur_of :: "char list \<Rightarrow> 32 word \<Rightarrow> 32 word res" where
  \<comment> \<open>the whole of a string, as every caller hashes it: its \<open>size_t\<close> length becomes a \<open>uint32_t\<close>\<close>
  "murmur_of key \<equiv> murmur3_32 key (of_nat (length key))"

section \<open>Every step is a bijection\<close>

lemma odd_mult_inj:
  fixes c d :: "32 word"
  assumes "c * d = 1" and "x * c = y * c"
  shows "x = y"
proof -
  have "x * (c * d) = y * (c * d)" using assms(2) by (simp add: mult.assoc [symmetric])
  with assms(1) show ?thesis by simp
qed

lemma rotl_inj:
  assumes "0 < r" and "r < 32" and "rotl x r = rotl y r"
  shows "x = y"
proof (rule bit_word_eqI)
  fix n assume "n < LENGTH(32)"
  then have n: "n < 32" by simp
  let ?m = "if n + r < 32 then n + r else n + r - 32"
  have "bit (rotl z r) ?m = bit z n" for z :: "32 word"
    using n assms(1,2)
    by (auto simp: rotl_def bit_or_iff bit_push_bit_iff bit_drop_bit_eq dest: bit_imp_le_length)
  then show "bit x n = bit y n" using assms(3) by metis
qed

lemma xorshift_inj:
  assumes "0 < r" and "x XOR drop_bit r x = y XOR drop_bit r (y :: 32 word)"
  shows "x = y"
proof (rule bit_word_eqI)
  fix n assume "n < LENGTH(32)"
  have bits: "bit x n \<noteq> bit x (n + r) \<longleftrightarrow> bit y n \<noteq> bit y (n + r)" for n
    using arg_cong [OF assms(2), of "\<lambda>w. bit w n"] by (simp add: bit_xor_iff bit_drop_bit_eq add.commute)
  have "bit x n = bit y n" if "n + k \<ge> 32" for n k
    using that
  proof (induction k arbitrary: n rule: less_induct)
    case (less k)
    show ?case
    proof (cases "n \<ge> 32")
      case False
      have "bit x (n + r) = bit y (n + r)"
      proof (cases "k < r")
        case True
        then show ?thesis using less.prems by (auto dest: bit_imp_le_length)
      next
        case False
        then show ?thesis using less.IH [of "k - r" "n + r"] less.prems assms(1) \<open>\<not> n \<ge> 32\<close> by auto
      qed
      with bits [of n] show ?thesis by blast
    qed (auto dest: bit_imp_le_length)
  qed
  from this [of n 32] show "bit x n = bit y n" by simp
qed

lemma scramble_inj: "scramble j = scramble k \<Longrightarrow> j = k"
  unfolding scramble_def
  by (drule odd_mult_inj [of _ "0x56ed309b", rotated], simp) (drule rotl_inj [rotated 2], simp_all, drule odd_mult_inj [of _ "0xdee13bb1", rotated], simp_all)

lemma xor_twice: "a XOR (a XOR (x :: 32 word)) = x"
  by (rule bit_word_eqI) (auto simp: bit_xor_iff)

lemma xor_cancel: "a XOR b = a XOR c \<longleftrightarrow> b = (c :: 32 word)" "b XOR a = c XOR a \<longleftrightarrow> b = c"
  using xor_twice [of a b] xor_twice [of a c] xor.commute [of b a] xor.commute [of c a] by metis+

lemma mix_block_eq: "mix_block h k = mix_block h' k' \<Longrightarrow> h XOR scramble k = h' XOR scramble k'"
  unfolding mix_block_def
  by (rule rotl_inj [of 13], simp, simp, rule odd_mult_inj [of 5 "0xcccccccd"], simp, simp)

lemma mix_block_inj:
  "mix_block h k = mix_block h' k \<Longrightarrow> h = h'" "mix_block h k = mix_block h k' \<Longrightarrow> k = k'"
  by (auto dest!: mix_block_eq simp: xor_cancel intro: scramble_inj)

lemma finish_inj: "finish h = finish h' \<Longrightarrow> h = h'"
  unfolding finish_def Let_def
  by (drule xorshift_inj [rotated], simp, drule odd_mult_inj [of _ "0x7ed1b41d", rotated], simp,
      drule xorshift_inj [rotated], simp, drule odd_mult_inj [of _ "0xa5cb9243", rotated], simp,
      drule xorshift_inj [rotated], simp_all)

lemma byte_word:
  assumes "push_bit 8 v OR of_nat (of_char b) = push_bit 8 w OR (of_nat (of_char c) :: 32 word)"
    and "take_bit 24 v = v" and "take_bit 24 w = w"
  shows "v = w \<and> b = c"
proof
  have byte: "take_bit 8 (of_nat (of_char x) :: 32 word) = of_nat (of_char x)" for x :: char
    by (simp add: take_bit_of_nat take_bit_nat_eq_self)
  have low: "take_bit 8 (push_bit 8 u OR of_nat (of_char x)) = (of_nat (of_char x) :: 32 word)" for u x
    by (simp add: take_bit_or take_bit_push_bit byte)
  have "(of_nat (of_char b) :: 32 word) = of_nat (of_char c)"
    using low [of v b] low [of w c] assms(1) by simp
  then have "unat (of_nat (of_char b) :: 32 word) = unat (of_nat (of_char c) :: 32 word)" by simp
  then show "b = c" using nat_of_char_less_256 [of b] nat_of_char_less_256 [of c] by (simp add: unat_of_nat)
  show "v = w"
  proof (rule bit_word_eqI)
    fix n assume "n < LENGTH(32)"
    have high: "\<not> bit (of_nat (of_char x) :: 32 word) (n + 8)" for x :: char
      using byte [of x] by (metis bit_take_bit_iff not_add_less2)
    have top: "bit v n \<Longrightarrow> n < 24" "bit w n \<Longrightarrow> n < 24" using assms(2,3) by (metis bit_take_bit_iff)+
    have "bit (push_bit 8 v OR of_nat (of_char b) :: 32 word) (n + 8) =
        bit (push_bit 8 w OR of_nat (of_char c) :: 32 word) (n + 8)" by (simp only: assms(1))
    then show "bit v n = bit w n" using top high by (auto simp: bit_or_iff bit_push_bit_iff)
  qed
qed

section \<open>Words and bytes\<close>

lemma byte_bit: "bit (of_nat (of_char x) :: 32 word) n \<Longrightarrow> n < 8"
proof -
  have "take_bit 8 (of_nat (of_char x) :: 32 word) = of_nat (of_char x)"
    by (simp add: take_bit_of_nat take_bit_nat_eq_self)
  then show "bit (of_nat (of_char x) :: 32 word) n \<Longrightarrow> n < 8" by (metis bit_take_bit_iff)
qed

lemma le_word_Nil [simp]: "le_word [] = 0"
  by (simp add: le_word_def)

lemma le_word_Cons:
  "length bs \<le> 3 \<Longrightarrow> le_word (b # bs) = push_bit 8 (le_word bs) OR of_nat (of_char b)"
  by (simp add: le_word_def)

lemma le_word_small: "length bs \<le> n \<Longrightarrow> n \<le> 3 \<Longrightarrow> take_bit (8 * n) (le_word bs) = le_word bs"
proof (induction bs arbitrary: n)
  case (Cons b bs)
  then obtain m where m: "n = Suc m" by (cases n) auto
  have "take_bit (8 * n) (of_nat (of_char b) :: 32 word) = of_nat (of_char b)"
    by (rule bit_word_eqI) (auto simp: bit_take_bit_iff m dest: byte_bit)
  moreover have "take_bit (8 * n) (push_bit 8 (le_word bs)) = push_bit 8 (take_bit (8 * m) (le_word bs))"
    by (simp add: take_bit_push_bit m)
  ultimately show ?case using Cons m by (simp add: le_word_Cons take_bit_or)
qed simp

lemma le_word_inj: "length bs = length cs \<Longrightarrow> length bs \<le> 4 \<Longrightarrow> le_word bs = le_word cs \<Longrightarrow> bs = cs"
proof (induction bs cs rule: list_induct2)
  case (Cons b bs c cs)
  then have "length bs \<le> 3" "length cs \<le> 3" by simp_all
  moreover from this Cons.prems have "le_word bs = le_word cs \<and> b = c"
    using le_word_small [of bs 3] le_word_small [of cs 3] by (intro byte_word) (simp_all add: le_word_Cons)
  ultimately show ?case using Cons.IH by simp
qed simp

lemma byte_xor:
  "push_bit 8 w OR of_nat (of_char x) = push_bit 8 w XOR (of_nat (of_char x) :: 32 word)"
  "(push_bit 16 v XOR push_bit 8 w) OR of_nat (of_char x) =
     (push_bit 16 v XOR push_bit 8 w) XOR (of_nat (of_char x) :: 32 word)"
  by (rule bit_word_eqI, auto simp: bit_xor_iff bit_or_iff bit_push_bit_iff dest: byte_bit)+

lemma short_lists:
  assumes "length (xs :: 'a list) < 4"
  obtains "xs = []" | a where "xs = [a]" | a b where "xs = [a, b]" | a b c where "xs = [a, b, c]"
  using assms by (auto simp: eval_nat_numeral less_Suc_eq length_Suc_conv)

section \<open>The hash of a whole string\<close>

text \<open>What the loop and the tail come to when the length is that of the key.\<close>

fun fold_blocks :: "32 word \<Rightarrow> char list \<Rightarrow> 32 word \<times> char list" where
  "fold_blocks hash (b0 # b1 # b2 # b3 # bs) = fold_blocks (mix_block hash (le_word [b0, b1, b2, b3])) bs"
| "fold_blocks hash tail = (hash, tail)"

lemma fold_blocks_tail: "length (snd (fold_blocks h bs)) = length bs mod 4"
  by (induction h bs rule: fold_blocks.induct) auto

lemma fold_blocks_append:
  "length pre mod 4 = 0 \<Longrightarrow> fold_blocks h (pre @ bs) = fold_blocks (fst (fold_blocks h pre)) bs"
  by (induction h pre rule: fold_blocks.induct) auto

lemma fold_blocks_inj: "fst (fold_blocks h bs) = fst (fold_blocks h' bs) \<Longrightarrow> h = h'"
proof (induction h bs arbitrary: h' rule: fold_blocks.induct)
  case (1 h b0 b1 b2 b3 bs)
  then show ?case using mix_block_inj(1) by fastforce
qed auto

lemma fold_blocks_rest: "snd (fold_blocks h bs) = snd (fold_blocks h' bs)"
  by (induction h bs arbitrary: h' rule: fold_blocks.induct) auto

lemma mix_blocks_fold:
  "mix_blocks (length bs div 4) h bs = Inr (fst (fold_blocks h bs))"
  "drop (4 * (length bs div 4)) bs = snd (fold_blocks h bs)"
proof (induction h bs rule: fold_blocks.induct)
  case (1 h b0 b1 b2 b3 bs)
  let ?bs = "b0 # b1 # b2 # b3 # bs"
  have len: "length ?bs div 4 = Suc (length bs div 4)" by simp
  show "mix_blocks (length ?bs div 4) h ?bs = Inr (fst (fold_blocks h ?bs))"
    unfolding len using 1(1) by simp
  have "drop (4 * Suc (length bs div 4)) ?bs = drop (4 * (length bs div 4)) (drop 4 ?bs)"
    by (simp only: drop_drop mult_Suc_right add.commute)
  then show "drop (4 * (length ?bs div 4)) ?bs = snd (fold_blocks h ?bs)" unfolding len using 1(2) by simp
qed simp_all

lemma mix_tail_eq:
  assumes "length tail < 4"
  shows "mix_tail (length tail) tail h = Inr (if tail = [] then h else h XOR scramble (le_word tail))"
  using assms
  by (rule short_lists) (simp_all add: mix_tail_def le_word_Cons byte_xor push_bit_xor push_bit_push_bit Let_def)

definition absorb :: "32 word \<Rightarrow> char list \<Rightarrow> 32 word" where
  \<comment> \<open>the hash after all bytes and before the length goes in\<close>
  "absorb h bs = (let (h, tail) = fold_blocks h bs in if tail = [] then h else h XOR scramble (le_word tail))"

definition murmur_hash :: "char list \<Rightarrow> 32 word \<Rightarrow> 32 word" where
  "murmur_hash key seed = finish (absorb seed key XOR of_nat (length key))"

lemma length_parts:
  assumes "n < 4294967296"
  shows "unat ((of_nat n :: 32 word) div 4) = n div 4" and "unat ((of_nat n :: 32 word) AND 3) = n mod 4"
proof -
  have n: "unat (of_nat n :: 32 word) = n" using assms by (simp add: unat_of_nat)
  then show "unat ((of_nat n :: 32 word) div 4) = n div 4" by (simp add: unat_div_distrib)
  have "(of_nat n :: 32 word) AND 3 = take_bit 2 (of_nat n)" by (simp add: take_bit_eq_mask mask_eq_exp_minus_1)
  then show "unat ((of_nat n :: 32 word) AND 3) = n mod 4"
    using n by (simp add: take_bit_eq_mod unat_mod_distrib)
qed

lemma murmur_of_eq:
  assumes "length key < 2147483648"
  shows "murmur_of key seed = Inr (murmur_hash key seed)"
proof -
  obtain h tail where ht: "fold_blocks seed key = (h, tail)" by fastforce
  let ?n = "length key div 4"
  have "drop (4 * ?n) key = tail" "mix_blocks ?n seed key = Inr h"
    using mix_blocks_fold [of key seed] by (simp_all add: ht)
  moreover from this have "drop (nat (int ?n * 4)) key = tail" by (simp add: nat_mult_distrib mult.commute)
  moreover have len: "length tail = length key mod 4" using fold_blocks_tail [of seed key] by (simp add: ht)
  moreover have "chk32 (int ?n * 4) = Inr (int ?n * 4)" using assms by (subst chk32_in) simp_all
  moreover have "mix_tail (length tail) tail h = Inr (absorb seed key)"
    by (subst mix_tail_eq) (simp_all add: len absorb_def ht)
  ultimately show ?thesis
    using assms by (simp add: murmur3_32_def murmur_hash_def length_parts del: chk32_Inr)
qed

lemma murmur_of_overflow:
  assumes "2147483648 \<le> length key" and "length key < 4294967296"
  shows "murmur_of key seed = Inl Int_Overflow"
proof -
  have "536870912 \<le> length key div 4" using div_le_mono [OF assms(1), of 4] by simp
  then have "chk32 (int (length key div 4) * 4) = Inl Int_Overflow" by (simp add: chk32_def in_int32_def)
  then show ?thesis using assms(2) mix_blocks_fold(1) [of key seed] by (simp add: murmur3_32_def length_parts)
qed

section \<open>Keys apart\<close>

lemma absorb_inj: "absorb h bs = absorb h' bs \<Longrightarrow> h = h'"
  using fold_blocks_inj [of h bs h'] fold_blocks_rest [of h bs h']
  by (auto simp: absorb_def xor_cancel split: prod.splits if_splits)

lemma absorb_block: "length b = 4 \<Longrightarrow> absorb h (b @ post) = absorb (mix_block h (le_word b)) post"
  by (auto simp: absorb_def eval_nat_numeral length_Suc_conv)

lemma absorb_short: "length b < 4 \<Longrightarrow> b \<noteq> [] \<Longrightarrow> absorb h b = h XOR scramble (le_word b)"
  by (cases "(h, b)" rule: fold_blocks.cases) (auto simp: absorb_def)

text \<open>C25. Two keys of the same length that differ only inside one aligned word of four bytes, or only in
  the bytes after the last whole word, never have the same hash, and a key never has the same hash
  under two seeds: every step of the hash is a bijection, whatever comes after it.  This holds of keys
  shorter than \<open>2 ^ 31\<close> bytes, which are hashed without a fault; for a longer key whose length still fits the
  \<open>uint32_t\<close>, \<open>nblocks * 4\<close> overflows the \<open>int\<close>.\<close>

theorem murmur_separates:
  assumes "length pre mod 4 = 0" and "length b = length b'" and "length b \<le> 4"
    and "length b = 4 \<or> post = []" and "length (pre @ b @ post) < 2 ^ 31"
  shows "(\<exists>h. murmur_of (pre @ b @ post) seed = Inr h) \<and>
         (murmur_of (pre @ b @ post) seed = murmur_of (pre @ b' @ post) seed \<longleftrightarrow> b = b') \<and>
         (murmur_of (pre @ b @ post) seed = murmur_of (pre @ b @ post) seed' \<longleftrightarrow> seed = seed') \<and>
         (2 ^ 31 \<le> length key \<and> length key < 2 ^ 32 \<longrightarrow> murmur_of key seed = Inl Int_Overflow)"
proof (intro conjI impI)
  let ?h = "fst (fold_blocks seed pre)"
  have hash: "murmur_of (pre @ b @ post) s = Inr (murmur_hash (pre @ b @ post) s)"
      "murmur_of (pre @ b' @ post) s = Inr (murmur_hash (pre @ b' @ post) s)" for s
    by (rule murmur_of_eq, use assms(2,5) in simp)+
  then show "\<exists>h. murmur_of (pre @ b @ post) seed = Inr h" by blast
  have pre: "absorb seed (pre @ bs) = absorb ?h bs" for bs
    by (simp add: absorb_def fold_blocks_append [OF assms(1)])
  have "b = b'" if "absorb ?h (b @ post) = absorb ?h (b' @ post)"
  proof (cases "length b = 4")
    case True
    with that assms(2) have "mix_block ?h (le_word b) = mix_block ?h (le_word b')"
      using absorb_inj by (simp add: absorb_block)
    then show ?thesis using mix_block_inj(2) le_word_inj assms(2,3) by blast
  next
    case False
    with assms(3,4) have "length b < 4" "post = []" by auto
    show ?thesis
    proof (cases "b = []")
      case False
      moreover from this assms(2) have "b' \<noteq> []" by auto
      ultimately have "scramble (le_word b) = scramble (le_word b')"
        using that \<open>length b < 4\<close> \<open>post = []\<close> assms(2) by (simp add: absorb_short xor_cancel)
      then show ?thesis using scramble_inj le_word_inj assms(2,3) by blast
    qed (use assms(2) in simp)
  qed
  then show "murmur_of (pre @ b @ post) seed = murmur_of (pre @ b' @ post) seed \<longleftrightarrow> b = b'"
    unfolding hash using assms(2) by (auto simp: murmur_hash_def pre xor_cancel dest!: finish_inj)
  show "murmur_of (pre @ b @ post) seed = murmur_of (pre @ b @ post) seed' \<longleftrightarrow> seed = seed'"
    unfolding hash by (auto simp: murmur_hash_def xor_cancel dest!: finish_inj absorb_inj)
  assume "2 ^ 31 \<le> length key \<and> length key < 2 ^ 32"
  then show "murmur_of key seed = Inl Int_Overflow" by (intro murmur_of_overflow) simp_all
qed

theorem murmur_separates_witness:
  "\<exists>h h'. murmur_of ''SHARD-1-NODE-7'' 17 = Inr h \<and> murmur_of ''SHARD-2-NODE-7'' 17 = Inr h' \<and> h \<noteq> h'"
proof -
  note sep = murmur_separates [of "''SHAR''" _ _ "''NODE-7''" 17 17]
  from sep [of "''D-1-''" "''D-2-''"] sep [of "''D-2-''" "''D-2-''"] show ?thesis by fastforce
qed

end
