(* ===== verification/Consistent_Hash.thy ===== *)
theory Consistent_Hash
  imports Std_Map Std_String Murmur_Hash
begin

text \<open>
  \<open>common/consistent_hash.{h,cc}\<close>: the hash ring.  Every machine is placed on the ring at the hashes of
  its virtual nodes; a key belongs to the first virtual node at or after its own hash.
\<close>

record consistent_hash =
  server_nodes :: "(32 word, int) smap"
  node_num :: int
  virtual_node_num :: int

definition ConsistentHash_new :: "int \<Rightarrow> int \<Rightarrow> consistent_hash" where
  "ConsistentHash_new n v = \<lparr>server_nodes = [], node_num = n, virtual_node_num = v\<rparr>"

definition node_point :: "int \<Rightarrow> int \<Rightarrow> 32 word" where
  \<comment> \<open>\<open>partition\<close> of the virtual node \<open>j\<close> of machine \<open>i\<close>; that there is one for every two \<open>int\<close>s is
      \<open>node_point_hash\<close>\<close>
  "node_point i j = projr (murmur_of (''SHARD-'' @ to_string i @ ''-NODE-'' @ to_string j) 17)"

definition AddNewNode :: "int \<Rightarrow> consistent_hash \<Rightarrow> consistent_hash" where
  "AddNewNode index c =
     c\<lparr>server_nodes := fold (\<lambda>j. smap_insert (node_point index j) (to_size index))
        [0..virtual_node_num c - 1] (server_nodes c)\<rparr>"

definition Initialize :: "consistent_hash \<Rightarrow> consistent_hash" where
  "Initialize c =
     c\<lparr>server_nodes := fold (\<lambda>i nodes. fold (\<lambda>j. smap_insert (node_point i j) (to_size i))
          [0..virtual_node_num c - 1] nodes)
        [0..node_num c - 1] (server_nodes c)\<rparr>"

definition DeleteNode :: "int \<Rightarrow> consistent_hash \<Rightarrow> consistent_hash" where
  "DeleteNode index c =
     c\<lparr>server_nodes := fold (\<lambda>j nodes.
          if smap_find nodes (node_point index j) \<noteq> None then smap_erase (node_point index j) nodes else nodes)
        [0..virtual_node_num c - 1] (server_nodes c)\<rparr>"

definition GetServerIndex :: "char list \<Rightarrow> consistent_hash \<Rightarrow> int res" where
  \<comment> \<open>\<open>key\<close> is the array the argument points to\<close>
  "GetServerIndex key c =
     bind_res (c_string key) (\<lambda>key.
     bind_res (murmur_of key 17) (\<lambda>partition.
     case smap_lower_bound partition (server_nodes c) of
       Some (_, index) \<Rightarrow> Inr index
     | None \<Rightarrow> (case smap_first (server_nodes c) of
         Some (_, index) \<Rightarrow> Inr index
       | None \<Rightarrow> Inl Out_Of_Bounds)))"

lemma length_dec: "n < 10 ^ Suc k \<Longrightarrow> length (dec n) \<le> Suc k"
proof (induction k arbitrary: n)
  case (Suc k)
  then have "n div 10 < 10 ^ Suc k" by (simp add: less_mult_imp_div_less mult.commute)
  with Suc.IH [of "n div 10"] show ?case by (simp add: dec.simps [of n])
qed (simp add: dec.simps)

lemma length_to_string:
  assumes "in_int32 i"
  shows "length (to_string i) \<le> 11"
proof -
  have "nat i < 10 ^ Suc 9" "nat (- i) < 10 ^ Suc 9" using assms unfolding in_int32_def by (simp_all, linarith+)
  from this [THEN length_dec] show ?thesis by (simp add: to_string_def)
qed

lemma node_point_hash:
  assumes "in_int32 i" and "in_int32 j"
  shows "murmur_of (''SHARD-'' @ to_string i @ ''-NODE-'' @ to_string j) 17 = Inr (node_point i j)"
proof -
  have "length (''SHARD-'' @ to_string i @ ''-NODE-'' @ to_string j) \<le> 34"
    using assms [THEN length_to_string] by simp
  then have "length (''SHARD-'' @ to_string i @ ''-NODE-'' @ to_string j) < 2147483648" by linarith
  from murmur_of_eq [OF this] show ?thesis by (simp only: node_point_def sum.sel)
qed

section \<open>The ring as a map\<close>

abbreviation ring :: "consistent_hash \<Rightarrow> 32 word \<Rightarrow> int option" where
  "ring c \<equiv> smap_find (server_nodes c)"

abbreviation ring_find :: "32 word \<Rightarrow> (32 word, int) smap \<Rightarrow> (32 word \<times> int) option" where
  "ring_find p nodes \<equiv> (case smap_lower_bound p nodes of None \<Rightarrow> smap_first nodes | e \<Rightarrow> e)"

definition points :: "consistent_hash \<Rightarrow> int \<Rightarrow> 32 word set" where
  "points c i = node_point i ` {0..<virtual_node_num c}"

definition ring_ok :: "consistent_hash \<Rightarrow> bool" where
  "ring_ok c \<longleftrightarrow> smap_ok (server_nodes c)"

definition key_point :: "char list \<Rightarrow> 32 word res" where
  \<comment> \<open>where a key lies on the ring\<close>
  "key_point key = bind_res (c_string key) (\<lambda>key. murmur_of key 17)"

lemma GetServerIndex_point:
  "GetServerIndex key c = bind_res (key_point key) (\<lambda>q.
     case ring_find q (server_nodes c) of None \<Rightarrow> Inl Out_Of_Bounds | Some (_, i) \<Rightarrow> Inr i)"
  by (cases "c_string key") (auto simp: GetServerIndex_def key_point_def split: option.split intro!: arg_cong [of _ _ "bind_res _"])

lemma GetServerIndex_ring:
  "key_point key = Inr q \<Longrightarrow> GetServerIndex key c =
     (case ring_find q (server_nodes c) of None \<Rightarrow> Inl Out_Of_Bounds | Some (_, i) \<Rightarrow> Inr i)"
  by (simp add: GetServerIndex_point)

lemma add_all:
  assumes "smap_ok m"
  shows "smap_ok (fold (\<lambda>j. smap_insert (f j) v) js m) \<and>
    smap_find (fold (\<lambda>j. smap_insert (f j) v) js m) p =
      (case smap_find m p of Some u \<Rightarrow> Some u | None \<Rightarrow> if p \<in> f ` set js then Some v else None)"
proof -
  have "fold (\<lambda>j. smap_insert (f j) v) js m = fold (\<lambda>(k, v). smap_insert k v) (map (\<lambda>j. (f j, v)) js) m"
    by (simp add: fold_map comp_def)
  moreover have "map_of (map (\<lambda>j. (f j, v)) js) p = (if p \<in> f ` set js then Some v else None)"
    by (induction js) auto
  ultimately show ?thesis using smap.ins_all [OF assms, of "map (\<lambda>j. (f j, v)) js" p]
    by (simp split: option.split)
qed

lemma AddNewNode_ring:
  assumes "ring_ok c"
  shows "ring_ok (AddNewNode i c)"
    and "ring (AddNewNode i c) p =
      (case ring c p of Some u \<Rightarrow> Some u | None \<Rightarrow> if p \<in> points c i then Some (to_size i) else None)"
proof -
  have "node_point i ` set [0..virtual_node_num c - 1] = points c i" by (auto simp: points_def)
  then show "ring_ok (AddNewNode i c)" and "ring (AddNewNode i c) p =
      (case ring c p of Some u \<Rightarrow> Some u | None \<Rightarrow> if p \<in> points c i then Some (to_size i) else None)"
    using add_all [of "server_nodes c" "node_point i" "to_size i" "[0..virtual_node_num c - 1]" p] assms
    by (simp_all add: ring_ok_def AddNewNode_def)
qed

lemma erase_absent: "smap_find m k = None \<Longrightarrow> smap_erase k m = m"
  by (induction m) (auto simp: smap_erase_def split: if_splits)

lemma DeleteNode_ring:
  assumes "ring_ok c"
  shows "ring_ok (DeleteNode i c)" and "ring (DeleteNode i c) p = (if p \<in> points c i then None else ring c p)"
proof -
  have erase: "(\<lambda>j nodes. if smap_find nodes (node_point i j) \<noteq> None then smap_erase (node_point i j) nodes else nodes) =
      (\<lambda>j. smap_erase (node_point i j))" by (auto simp: fun_eq_iff erase_absent)
  then have "server_nodes (DeleteNode i c) =
      fold smap_erase (map (node_point i) [0..virtual_node_num c - 1]) (server_nodes c)"
    unfolding DeleteNode_def erase by (simp add: fold_map comp_def)
  moreover have "set (map (node_point i) [0..virtual_node_num c - 1]) = points c i" by (auto simp: points_def)
  ultimately show "ring_ok (DeleteNode i c)" and "ring (DeleteNode i c) p = (if p \<in> points c i then None else ring c p)"
    using smap.del_all [of "server_nodes c" "map (node_point i) [0..virtual_node_num c - 1]" p] assms
    by (simp_all add: ring_ok_def)
qed

lemma node_num_unchanged [simp]:
  "virtual_node_num (AddNewNode i c) = virtual_node_num c" "virtual_node_num (DeleteNode i c) = virtual_node_num c"
  "points (AddNewNode i c) = points c" "points (DeleteNode i c) = points c"
  by (simp_all add: AddNewNode_def DeleteNode_def points_def fun_eq_iff)

lemma Initialize_adds: "Initialize c = fold AddNewNode [0..node_num c - 1] c"
proof -
  have "fold AddNewNode is c =
      c\<lparr>server_nodes := fold (\<lambda>i nodes. fold (\<lambda>j. smap_insert (node_point i j) (to_size i))
          [0..virtual_node_num c - 1] nodes) is (server_nodes c)\<rparr>" for "is"
    by (induction "is" arbitrary: c) (simp_all add: AddNewNode_def)
  then show ?thesis by (simp add: Initialize_def)
qed

section \<open>Histories\<close>

datatype ring_op = Add_Node int | Delete_Node int

fun ring_step :: "ring_op \<Rightarrow> consistent_hash \<Rightarrow> consistent_hash" where
  "ring_step (Add_Node i) = AddNewNode i"
| "ring_step (Delete_Node i) = DeleteNode i"

fun members :: "ring_op list \<Rightarrow> int set" where
  \<comment> \<open>the machines of a ring, from the most recent change backwards\<close>
  "members [] = {}"
| "members (Add_Node i # ops) = insert i (members ops)"
| "members (Delete_Node i # ops) = members ops - {i}"

definition ring_inv :: "int set \<Rightarrow> consistent_hash \<Rightarrow> bool" where
  "ring_inv ms c \<longleftrightarrow> ring_ok c \<and> (\<forall>p v. ring c p = Some v \<longrightarrow> (\<exists>i \<in> ms. p \<in> points c i \<and> v = to_size i))"

lemma ring_inv_step: "ring_inv (members ops) c \<Longrightarrow> ring_inv (members (op # ops)) (ring_step op c)"
  by (cases op) (auto simp: ring_inv_def AddNewNode_ring DeleteNode_ring split: option.splits if_splits)

lemma ring_inv_steps: "ring_inv (members hist) c \<Longrightarrow> ring_inv (members (rev ops @ hist)) (fold ring_step ops c)"
proof (induction ops arbitrary: c hist)
  case (Cons op ops)
  from Cons.IH [OF ring_inv_step [OF Cons.prems, of op]] show ?case by simp
qed simp

lemma ring_inv_Initialize: "ring_inv (members (rev (map Add_Node [0..n - 1]))) (Initialize (ConsistentHash_new n v))"
proof -
  have "ring_inv (members []) (ConsistentHash_new n v)" by (simp add: ring_inv_def ring_ok_def ConsistentHash_new_def)
  from ring_inv_steps [OF this, of "map Add_Node [0..n - 1]"]
  have "ring_inv (members (rev (map Add_Node [0..n - 1]))) (fold (ring_step \<circ> Add_Node) [0..n - 1] (ConsistentHash_new n v))"
    by (simp add: fold_map)
  moreover have "ring_step \<circ> Add_Node = AddNewNode" by (simp add: fun_eq_iff)
  ultimately show ?thesis by (simp add: Initialize_adds ConsistentHash_new_def)
qed

lemma GetServerIndex_Inr:
  assumes "ring_ok c" and "GetServerIndex key c = Inr s"
  obtains k p where "key_point key = Inr k" and "ring_find k (server_nodes c) = Some (p, s)"
    and "ring c p = Some s"
proof -
  obtain k where k: "key_point key = Inr k" using assms(2) by (auto simp: GetServerIndex_point bind_res_eq_Inr)
  with assms(2) obtain p where p: "ring_find k (server_nodes c) = Some (p, s)"
    by (auto simp: GetServerIndex_ring split: option.splits prod.splits)
  moreover have "ring c p = Some s" by (rule smap.ring_lookup_found [OF assms(1) [unfolded ring_ok_def] p])
  ultimately show thesis using k that by blast
qed

lemma GetServerIndex_found:
  assumes "ring_inv ms c" and "key_point key = Inr k" and "dom (ring c) \<noteq> {}"
  shows "\<exists>i \<in> ms. GetServerIndex key c = Inr (to_size i)"
proof -
  from assms(1) have ok: "smap_ok (server_nodes c)" by (simp add: ring_inv_def ring_ok_def)
  obtain p s where "ring_find k (server_nodes c) = Some (p, s)" "ring c p = Some s"
    using smap.ring_lookup_total [OF ok assms(3), of k] by blast
  with assms(1,2) show ?thesis by (auto simp: GetServerIndex_ring ring_inv_def)
qed

text \<open>A key that keeps its point keeps its machine; the map with fewer points decides.\<close>

lemma GetServerIndex_stable:
  assumes "ring_ok c" and "ring_ok c'" and "ring c \<subseteq>\<^sub>m ring c'"
    and "GetServerIndex key c = Inr s" and "GetServerIndex key c' = Inr s'" and "s' \<noteq> s"
  obtains p where "ring c' p = Some s'" and "ring c p = None"
proof -
  obtain k p where k: "key_point key = Inr k" and p: "ring_find k (server_nodes c) = Some (p, s)"
    using GetServerIndex_Inr [OF assms(1,4)] by metis
  obtain k' p' where k': "key_point key = Inr k'"
    and p': "ring_find k' (server_nodes c') = Some (p', s')" "ring c' p' = Some s'"
    using GetServerIndex_Inr [OF assms(2,5)] by metis
  have "p' \<notin> dom (ring c)"
  proof
    assume "p' \<in> dom (ring c)"
    with smap.ring_lookup_monotone [OF assms(1,2) [unfolded ring_ok_def] assms(3) p] p'(1) k k' assms(6)
    show False by simp
  qed
  with p'(2) show thesis by (intro that [of p']) (auto simp: dom_def)
qed

text \<open>C26. On every ring reached from \<open>Initialize\<close> by adding and deleting machines, a key belongs to a
  machine of the ring; adding a machine moves a key only to the new machine; deleting one moves no
  key of the others, unless one of its points is shared with another machine; and deleting a machine
  just added gives back the ring, unless one of its points was already taken.\<close>

theorem ring_minimal:
  assumes "c = fold ring_step ops (Initialize (ConsistentHash_new n v))"
    and "GetServerIndex key c = Inr s"
  shows "(\<exists>i \<in> members (rev (map Add_Node [0..n - 1] @ ops)). s = to_size i) \<and>
         GetServerIndex key (AddNewNode i c) \<in> {Inr s, Inr (to_size i)} \<and>
         ((\<forall>p \<in> points c i. ring c p \<in> {None, Some (to_size i)}) \<and> s \<noteq> to_size i \<longrightarrow>
            GetServerIndex key (DeleteNode i c) = Inr s) \<and>
         ((\<forall>p \<in> points c i. ring c p = None) \<longrightarrow> DeleteNode i (AddNewNode i c) = c)"
proof -
  have inv: "ring_inv (members (rev (map Add_Node [0..n - 1] @ ops))) c"
    using ring_inv_steps [OF ring_inv_Initialize, of ops] assms(1) by simp
  then have ok: "ring_ok c" by (simp add: ring_inv_def)
  obtain k p where k: "key_point key = Inr k" and s: "ring c p = Some s"
    using GetServerIndex_Inr [OF ok assms(2)] by metis
  have found: "\<exists>u. GetServerIndex key c' = Inr u" if "ring_ok c'" "ring c' q \<noteq> None" for c' q
    using smap.ring_lookup_total [OF that(1) [unfolded ring_ok_def], of k] that(2) k
    by (force simp: GetServerIndex_ring)
  let ?a = "AddNewNode i c" and ?d = "DeleteNode i c"
  have add: "GetServerIndex key ?a \<in> {Inr s, Inr (to_size i)}"
  proof -
    have "ring c \<subseteq>\<^sub>m ring ?a" by (auto simp: map_le_def AddNewNode_ring [OF ok])
    moreover obtain u where u: "GetServerIndex key ?a = Inr u"
      using found [of ?a p] s AddNewNode_ring [OF ok] by auto
    ultimately have "u = s \<or> (\<exists>q. ring ?a q = Some u \<and> ring c q = None)"
      using GetServerIndex_stable [OF ok AddNewNode_ring(1) [OF ok] _ assms(2) u] by metis
    then show ?thesis using u by (auto simp: AddNewNode_ring(2) [OF ok] split: if_splits)
  qed
  have del: "GetServerIndex key ?d = Inr s"
    if "\<forall>p \<in> points c i. ring c p \<in> {None, Some (to_size i)}" "s \<noteq> to_size i"
  proof -
    have "ring ?d \<subseteq>\<^sub>m ring c" by (auto simp: map_le_def DeleteNode_ring [OF ok])
    moreover have "p \<notin> points c i" using that s by auto
    then obtain u where u: "GetServerIndex key ?d = Inr u"
      using found [of ?d p] s DeleteNode_ring [OF ok] by auto
    ultimately have "u = s \<or> (\<exists>q. ring c q = Some s \<and> ring ?d q = None)"
      using GetServerIndex_stable [OF DeleteNode_ring(1) [OF ok] ok _ u assms(2)] by metis
    then show ?thesis using u that by (auto simp: DeleteNode_ring(2) [OF ok] split: if_splits)
  qed
  have undo: "DeleteNode i (AddNewNode i c) = c" if "\<forall>p \<in> points c i. ring c p = None"
  proof -
    have ok': "ring_ok ?a" "ring_ok (DeleteNode i ?a)" by (simp_all add: ok AddNewNode_ring DeleteNode_ring)
    have "ring (DeleteNode i ?a) q = ring c q" for q
      using that by (auto simp: DeleteNode_ring [OF ok'(1)] AddNewNode_ring [OF ok] split: option.splits)
    then have "server_nodes (DeleteNode i ?a) = server_nodes c"
      using ok ok'(2) by (intro smap_ext) (auto simp: ring_ok_def fun_eq_iff)
    then show ?thesis by (simp add: AddNewNode_def DeleteNode_def)
  qed
  have "\<exists>i \<in> members (rev (map Add_Node [0..n - 1] @ ops)). s = to_size i"
    using inv s by (auto simp: ring_inv_def)
  with add del undo show ?thesis by blast
qed

theorem ring_minimal_witness:
  "GetServerIndex (''key'' @ [NUL]) (AddNewNode 3 (Initialize (ConsistentHash_new 2 2))) \<in> {Inr 1, Inr (to_size 3)}"
proof -
  have "GetServerIndex (''key'' @ [NUL]) (Initialize (ConsistentHash_new 2 2)) = Inr 1" by code_simp
  then have "GetServerIndex (''key'' @ [NUL]) (fold ring_step [] (Initialize (ConsistentHash_new 2 2))) = Inr 1" by simp
  from ring_minimal [OF refl this, of 3] show ?thesis by simp
qed

end
