(* ===== verification/Md5_Sine.thy ===== *)
theory Md5_Sine
  imports Complex_Main
begin

text \<open>
  RFC 1321 takes the constants of its 64 steps from the sine: entry \<open>i\<close> is the integer part of \<open>2 ^ 32\<close>
  times \<open>abs (sin i)\<close>, \<open>i\<close> in radians.  Here this number is computed: \<open>sin 1\<close> and \<open>cos 1\<close> are enclosed by their
  Taylor sums, scaled by \<open>2 ^ 80\<close>, and the sine of the next integer follows by the addition formulas, with
  a bound on the error.  \<open>sine_table n vs\<close> says that the numbers \<open>vs\<close> are the entries from \<open>n\<close> on.
\<close>

section \<open>Enclosures\<close>

text \<open>\<open>enclosed n s c e\<close>: \<open>s\<close> and \<open>c\<close> are the scaled sine and cosine of \<open>n\<close>, up to \<open>e\<close>.\<close>

abbreviation scale :: int where "scale \<equiv> 1208925819614629174706176"    \<comment> \<open>\<open>2 ^ 80\<close>\<close>
abbreviation sin1 :: int where "sin1 \<equiv> 1017275999990815458903786"
abbreviation cos1 :: int where "cos1 \<equiv> 653185407961314874212934"

definition enclosed :: "nat \<Rightarrow> int \<Rightarrow> int \<Rightarrow> int \<Rightarrow> bool" where
  "enclosed n s c e \<longleftrightarrow> \<bar>of_int scale * sin (real n) - of_int s\<bar> \<le> of_int e \<and>
     \<bar>of_int scale * cos (real n) - of_int c\<bar> \<le> of_int e"

lemma scaled_close:
  fixes x p q :: real
  assumes "\<bar>x - p\<bar> \<le> d" and "\<bar>of_int scale * p - q\<bar> \<le> 9 / 10" and "of_int scale * d \<le> 1 / 10"
  shows "\<bar>of_int scale * x - q\<bar> \<le> 1"
proof -
  have "of_int scale * \<bar>x - p\<bar> \<le> of_int scale * d" using assms(1) by (intro mult_left_mono) simp_all
  moreover have "\<bar>of_int scale * x - of_int scale * p\<bar> = of_int scale * \<bar>x - p\<bar>"
    unfolding right_diff_distrib [symmetric] abs_mult by simp
  ultimately have "\<bar>of_int scale * x - of_int scale * p\<bar> \<le> 1 / 10" using assms(3) by linarith
  with assms(2) show ?thesis by linarith
qed

lemma sin_one: "\<bar>of_int scale * sin 1 - of_int sin1\<bar> \<le> (1 :: real)"
proof (rule scaled_close)
  show "\<bar>sin 1 - (\<Sum>m<26. sin_coeff m * 1 ^ m)\<bar> \<le> inverse (fact 26) * \<bar>1 :: real\<bar> ^ 26"
    by (rule Maclaurin_sin_bound)
qed (simp_all add: sin_coeff_def lessThan_nat_numeral fact_numeral)

lemma cos_one: "\<bar>of_int scale * cos 1 - of_int cos1\<bar> \<le> (1 :: real)"
proof (rule scaled_close)
  obtain t :: real where "cos 1 = (\<Sum>m<26. cos_coeff m * 1 ^ m) + (cos (t + 1 / 2 * real 26 * pi) / fact 26) * 1 ^ 26"
    using Maclaurin_cos_expansion [of 1 26] by blast
  moreover have "\<bar>cos (t + 1 / 2 * real 26 * pi) / fact 26\<bar> \<le> inverse (fact 26 :: real)"
    using abs_cos_le_one [of "t + 1 / 2 * real 26 * pi"] by (simp add: divide_simps)
  ultimately show "\<bar>cos 1 - (\<Sum>m<26. cos_coeff m * 1 ^ m)\<bar> \<le> inverse (fact 26 :: real)" by simp
qed (simp_all add: cos_coeff_def lessThan_nat_numeral fact_numeral)

section \<open>The next integer\<close>

lemma product_close:
  fixes S C :: real
  assumes "\<bar>S - s\<bar> \<le> e" and "\<bar>C - c\<bar> \<le> e'" and "\<bar>S\<bar> \<le> m"
  shows "\<bar>S * C - s * c\<bar> \<le> e * \<bar>c\<bar> + m * e'"
proof -
  have "S * C - s * c = (S - s) * c + S * (C - c)" by (simp add: algebra_simps)
  moreover have "\<bar>(S - s) * c\<bar> \<le> e * \<bar>c\<bar>" using assms(1) by (simp add: abs_mult mult_right_mono)
  moreover have "\<bar>S * (C - c)\<bar> \<le> m * e'"
    using mult_mono [OF assms(3,2)] assms(3) by (simp add: abs_mult)
  ultimately show ?thesis by linarith
qed

lemma rounding:
  fixes N x q r a f :: real
  assumes "0 < N" and "\<bar>N * x - (N * q + r)\<bar> \<le> N * (a + 2)" and "\<bar>r\<bar> \<le> N" and "a \<le> f + 1"
  shows "\<bar>x - q\<bar> \<le> f + 4"
proof -
  have "N * (a + 2) \<le> N * (f + 3)" using assms(1,4) by (intro mult_left_mono) simp_all
  with assms(2,3) have "\<bar>N * x - N * q\<bar> \<le> N * (f + 3) + N" by linarith
  then have "N * \<bar>x - q\<bar> \<le> N * (f + 4)"
    using assms(1) by (simp add: abs_mult distrib_left flip: right_diff_distrib)
  with assms(1) show ?thesis by simp
qed

lemma rounded_close:
  fixes x :: real
  assumes "\<bar>of_int scale * x - of_int p\<bar> \<le> of_int scale * (of_int (7 * e) / 5 + 2)"
  shows "\<bar>x - of_int (p div scale)\<bar> \<le> of_int (7 * e div 5 + 4)"
proof -
  have "of_int scale * of_int (p div scale) + of_int (p mod scale) = real_of_int p"
    by (simp only: mult_div_mod_eq flip: of_int_mult of_int_add)
  moreover have "\<bar>of_int (p mod scale) :: real\<bar> \<le> of_int scale"
    using pos_mod_bound [of scale p] pos_mod_sign [of scale p] by (simp only: of_int_abs [symmetric] of_int_le_iff)
  moreover have "7 * e \<le> 5 * (7 * e div 5 + 1)" by presburger
  then have "real_of_int (7 * e) \<le> of_int (5 * (7 * e div 5 + 1))" by (simp only: of_int_le_iff)
  then have "real_of_int (7 * e) / 5 \<le> of_int (7 * e div 5) + 1" by simp
  ultimately have "\<bar>x - of_int (p div scale)\<bar> \<le> of_int (7 * e div 5) + 4"
    using assms by (intro rounding [of "of_int scale" x _ "of_int (p mod scale)" "of_int (7 * e) / 5"]) simp_all
  then show ?thesis by simp
qed

lemma enclosed_next:
  assumes "enclosed n s c e"
  shows "enclosed (Suc n) ((s * cos1 + c * sin1) div scale) ((c * cos1 - s * sin1) div scale) (7 * e div 5 + 4)"
proof -
  let ?N = "of_int scale :: real"
  let ?S = "?N * sin (real n)" and ?C = "?N * cos (real n)"
  have e: "\<bar>?S - of_int s\<bar> \<le> of_int e" "\<bar>?C - of_int c\<bar> \<le> of_int e" using assms by (simp_all add: enclosed_def)
  have m: "\<bar>?S\<bar> \<le> ?N" "\<bar>?C\<bar> \<le> ?N"
    using abs_sin_le_one [of "real n"] abs_cos_le_one [of "real n"] by (simp_all add: abs_mult)
  have "\<bar>?S * (?N * cos 1) - of_int s * of_int cos1\<bar> \<le> of_int e * \<bar>of_int cos1\<bar> + ?N * 1"
    by (rule product_close [OF e(1) cos_one m(1)])
  moreover have "\<bar>?C * (?N * sin 1) - of_int c * of_int sin1\<bar> \<le> of_int e * \<bar>of_int sin1\<bar> + ?N * 1"
    by (rule product_close [OF e(2) sin_one m(2)])
  moreover have "0 \<le> real_of_int e" using e(1) by linarith
  then have "real_of_int e * \<bar>of_int cos1\<bar> + of_int e * \<bar>of_int sin1\<bar> \<le> ?N * (of_int (7 * e) / 5)" by simp
  moreover have "?N * (?N * sin (real (Suc n))) = ?S * (?N * cos 1) + ?C * (?N * sin 1)"
    by (simp add: sin_add algebra_simps)
  ultimately have "\<bar>?N * (?N * sin (real (Suc n))) - of_int (s * cos1 + c * sin1)\<bar> \<le> ?N * (of_int (7 * e) / 5 + 2)"
    by (simp add: abs_le_iff algebra_simps)
  note sin = rounded_close [OF this]
  have "\<bar>?C * (?N * cos 1) - of_int c * of_int cos1\<bar> \<le> of_int e * \<bar>of_int cos1\<bar> + ?N * 1"
    by (rule product_close [OF e(2) cos_one m(2)])
  moreover have "\<bar>?S * (?N * sin 1) - of_int s * of_int sin1\<bar> \<le> of_int e * \<bar>of_int sin1\<bar> + ?N * 1"
    by (rule product_close [OF e(1) sin_one m(1)])
  moreover have "0 \<le> real_of_int e" using e(1) by linarith
  then have "real_of_int e * \<bar>of_int cos1\<bar> + of_int e * \<bar>of_int sin1\<bar> \<le> ?N * (of_int (7 * e) / 5)" by simp
  moreover have "?N * (?N * cos (real (Suc n))) = ?C * (?N * cos 1) - ?S * (?N * sin 1)"
    by (simp add: cos_add algebra_simps)
  ultimately have "\<bar>?N * (?N * cos (real (Suc n))) - of_int (c * cos1 - s * sin1)\<bar> \<le> ?N * (of_int (7 * e) / 5 + 2)"
    by (simp add: abs_le_iff algebra_simps)
  with sin show ?thesis unfolding enclosed_def by (blast intro: rounded_close)
qed

section \<open>The table\<close>

definition sine_entry :: "nat \<Rightarrow> int" where
  "sine_entry i = \<lfloor>4294967296 * \<bar>sin (real i)\<bar>\<rfloor>"

fun sine_table :: "nat \<Rightarrow> int \<Rightarrow> int \<Rightarrow> int \<Rightarrow> int list \<Rightarrow> bool" where
  "sine_table n s c e [] \<longleftrightarrow> True"
| "sine_table n s c e (v # vs) \<longleftrightarrow>
     v * scale \<le> (\<bar>s\<bar> - e) * 4294967296 \<and> (\<bar>s\<bar> + e) * 4294967296 < (v + 1) * scale \<and>
     sine_table (Suc n) ((s * cos1 + c * sin1) div scale) ((c * cos1 - s * sin1) div scale) (7 * e div 5 + 4) vs"

lemma entry_enclosed:
  assumes "enclosed n s c e" and "v * scale \<le> (\<bar>s\<bar> - e) * 4294967296"
    and "(\<bar>s\<bar> + e) * 4294967296 < (v + 1) * scale"
  shows "sine_entry n = v"
proof -
  have "\<bar>of_int scale * sin (real n) - of_int s\<bar> \<le> of_int e" using assms(1) by (simp add: enclosed_def)
  then have near: "of_int (\<bar>s\<bar> - e) \<le> of_int scale * \<bar>sin (real n)\<bar>" "of_int scale * \<bar>sin (real n)\<bar> \<le> of_int (\<bar>s\<bar> + e)"
    by (simp_all add: abs_if split: if_splits)
  have "real_of_int (v * scale) \<le> of_int ((\<bar>s\<bar> - e) * 4294967296)" using assms(2) by (simp only: of_int_le_iff)
  with near(1) have "real_of_int v \<le> 4294967296 * \<bar>sin (real n)\<bar>" by simp
  moreover have "real_of_int ((\<bar>s\<bar> + e) * 4294967296) < of_int ((v + 1) * scale)" using assms(3) by (simp only: of_int_less_iff)
  with near(2) have "4294967296 * \<bar>sin (real n)\<bar> < real_of_int v + 1" by simp
  ultimately show ?thesis by (simp add: sine_entry_def floor_eq_iff)
qed

lemma sine_table_entries:
  "enclosed n s c e \<Longrightarrow> sine_table n s c e vs \<Longrightarrow> map sine_entry [n..<n + length vs] = vs"
proof (induction vs arbitrary: n s c e)
  case (Cons v vs)
  have "[n..<n + length (v # vs)] = n # [Suc n..<Suc n + length vs]" by (simp add: upt_rec)
  then show ?case using Cons.IH [OF enclosed_next [OF Cons.prems(1)]] Cons.prems entry_enclosed by simp
qed simp

lemma sine_table_from_one:
  assumes "sine_table 1 sin1 cos1 1 vs"
  shows "map sine_entry [1..<1 + length vs] = vs"
  by (rule sine_table_entries [OF _ assms]) (simp add: enclosed_def, use sin_one cos_one in simp)

end
