(* ===== verification/Rfc1321.thy ===== *)
theory Rfc1321
  imports Md5_Sine "HOL-Library.Word"
begin

text \<open>
  The message digest algorithm as RFC 1321 states it, on its own terms: nothing here refers to the code.
  Words are \<open>32 word\<close>s, bytes are \<open>char\<close>s, and a word is read from and written as bytes with the
  low-order byte first (section 2 of the document; the steps are 3.1 to 3.5).
\<close>

type_synonym md5_words = "32 word \<times> 32 word \<times> 32 word \<times> 32 word"

fun rfc_join :: "char list \<Rightarrow> 32 word" where
  \<comment> \<open>bytes as a word\<close>
  "rfc_join [] = 0"
| "rfc_join (b # bs) = of_nat (of_char b) + 256 * rfc_join bs"

definition rfc_bytes :: "32 word \<Rightarrow> char list" where
  "rfc_bytes w = map (\<lambda>i. char_of (uint w div 256 ^ i)) [0..<4]"

section \<open>Padding (3.1 and 3.2)\<close>

definition pad_length :: "nat \<Rightarrow> nat" where
  \<comment> \<open>the zero bytes after the byte with the one bit, up to 56 modulo 64\<close>
  "pad_length n = (119 - n mod 64) mod 64"

definition rfc_length :: "nat \<Rightarrow> char list" where
  \<comment> \<open>the number of bits of \<open>n\<close> bytes, in 64 bits\<close>
  "rfc_length n = map (\<lambda>i. char_of (8 * n div 256 ^ i)) [0..<8]"

definition rfc_pad :: "char list \<Rightarrow> char list" where
  "rfc_pad m = m @ CHR 0x80 # replicate (pad_length (length m)) (CHR 0x00) @ rfc_length (length m)"

section \<open>The buffer (3.3)\<close>

definition rfc_init :: md5_words where
  "rfc_init = (rfc_join [CHR 0x01, CHR 0x23, CHR 0x45, CHR 0x67], rfc_join [CHR 0x89, CHR 0xAB, CHR 0xCD, CHR 0xEF],
     rfc_join [CHR 0xFE, CHR 0xDC, CHR 0xBA, CHR 0x98], rfc_join [CHR 0x76, CHR 0x54, CHR 0x32, CHR 0x10])"

section \<open>The 64 steps (3.4)\<close>

definition rfc_bit :: "nat \<Rightarrow> bool \<Rightarrow> bool \<Rightarrow> bool \<Rightarrow> bool" where
  \<comment> \<open>the auxiliary function of step \<open>j\<close> on one bit position: a conditional on \<open>x\<close>, a conditional on \<open>z\<close>, the
      parity, and \<open>y\<close> against \<open>x\<close> or not \<open>z\<close>\<close>
  "rfc_bit j x y z = (if j < 16 then (if x then y else z) else if j < 32 then (if z then x else y)
     else if j < 48 then (x = (y = z)) else (y \<noteq> (x \<or> \<not> z)))"

definition rfc_f :: "nat \<Rightarrow> 32 word \<Rightarrow> 32 word \<Rightarrow> 32 word \<Rightarrow> 32 word" where
  "rfc_f j x y z = horner_sum of_bool 2 (map (\<lambda>n. rfc_bit j (bit x n) (bit y n) (bit z n)) [0..<32])"

definition rfc_T :: "nat \<Rightarrow> 32 word" where
  \<comment> \<open>the constant of step \<open>j\<close>; the document counts from 1\<close>
  "rfc_T j = word_of_int \<lfloor>4294967296 * \<bar>sin (real (Suc j))\<bar>\<rfloor>"

definition rfc_word :: "nat \<Rightarrow> nat" where
  \<comment> \<open>the word of the block that step \<open>j\<close> reads\<close>
  "rfc_word j = (if j < 16 then j else if j < 32 then (5 * j + 1) mod 16
                 else if j < 48 then (3 * j + 5) mod 16 else (7 * j) mod 16)"

definition rfc_shift :: "nat \<Rightarrow> nat" where
  "rfc_shift j = [[7, 12, 17, 22], [5, 9, 14, 20], [4, 11, 16, 23], [6, 10, 15, 21]] ! (j div 16) ! (j mod 4)"

definition rfc_step :: "(nat \<Rightarrow> 32 word) \<Rightarrow> nat \<Rightarrow> md5_words \<Rightarrow> md5_words" where
  \<comment> \<open>\<open>W\<close> are the words of the block; the names of the four words move on by one\<close>
  "rfc_step W j = (\<lambda>(a, b, c, d).
     (d, b + word_rotl (rfc_shift j) (a + rfc_f j b c d + W (rfc_word j) + rfc_T j), b, c))"

definition rfc_compress :: "(nat \<Rightarrow> 32 word) \<Rightarrow> md5_words \<Rightarrow> md5_words" where
  "rfc_compress W s =
     (case (s, fold (rfc_step W) [0..<64] s) of ((s0, s1, s2, s3), (a, b, c, d)) \<Rightarrow> (s0 + a, s1 + b, s2 + c, s3 + d))"

definition rfc_block_word :: "char list \<Rightarrow> nat \<Rightarrow> 32 word" where
  "rfc_block_word bs j = rfc_join (take 4 (drop (4 * j) bs))"

fun rfc_chain :: "char list \<Rightarrow> md5_words \<Rightarrow> md5_words" where
  \<comment> \<open>block after block of 64 bytes\<close>
  "rfc_chain [] s = s"
| "rfc_chain (b # bs) s = rfc_chain (drop 64 (b # bs)) (rfc_compress (rfc_block_word (b # bs)) s)"

declare rfc_chain.simps(2) [simp del]

section \<open>The digest (3.5)\<close>

definition rfc_words :: "char list \<Rightarrow> md5_words" where
  "rfc_words m = rfc_chain (rfc_pad m) rfc_init"

definition rfc_digest :: "char list \<Rightarrow> char list" where
  "rfc_digest m = (case rfc_words m of (a, b, c, d) \<Rightarrow> concat (map rfc_bytes [a, b, c, d]))"

section \<open>Facts\<close>

lemma bit_rfc_f: "bit (rfc_f j x y z) n \<longleftrightarrow> n < 32 \<and> rfc_bit j (bit x n) (bit y n) (bit z n)"
  by (auto simp: rfc_f_def bit_horner_sum_bit_word_iff)

lemma rfc_compress_cong:
  assumes "\<And>j. j < 16 \<Longrightarrow> W j = W' j"
  shows "rfc_compress W s = rfc_compress W' s"
proof -
  have "rfc_word j < 16" if "j < 64" for j using that by (simp add: rfc_word_def)
  then have "fold (rfc_step W) [0..<64] s = fold (rfc_step W') [0..<64] s"
    using assms by (intro fold_cong) (auto simp: rfc_step_def)
  then show ?thesis by (simp add: rfc_compress_def)
qed

lemma rfc_T_entry: "rfc_T j = word_of_int (sine_entry (Suc j))"
  by (simp add: rfc_T_def sine_entry_def)

lemma pad_length_cases:
  obtains q r where "n = 64 * q + r" and "r < 64" and "n mod 64 = r"
    and "pad_length n = (if r \<le> 55 then 55 - r else 119 - r)"
proof -
  define r where "r = n mod 64"
  have r: "n = 64 * (n div 64) + r" "r < 64" by (simp_all add: r_def)
  have "(119 - r) mod 64 = (if r \<le> 55 then 55 - r else 119 - r)"
  proof (cases "r \<le> 55")
    case True
    then have "119 - r = 64 + (55 - r)" by simp
    moreover have "(64 + (55 - r)) mod 64 = 55 - r" by simp
    ultimately show ?thesis using True by simp
  qed simp
  with r show thesis by (intro that [of "n div 64" r]) (simp_all only: pad_length_def r_def)
qed

lemma pad_length_less: "pad_length n < 64"
  by (simp add: pad_length_def)

lemma pad_length_total: "(Suc n + pad_length n) mod 64 = 56"
proof (cases rule: pad_length_cases [of n])
  case (1 q r)
  then have "\<exists>p. Suc n + pad_length n = 64 * p + 56"
    by (intro exI [of _ "if r \<le> 55 then q else Suc q"]) simp
  then obtain p where "Suc n + pad_length n = 64 * p + 56" by blast
  moreover have "(64 * p + 56) mod 64 = (56 :: nat)" by simp
  ultimately show ?thesis by (rule ssubst)
qed

lemma length_padded: "length (rfc_pad m) mod 64 = 0"
proof -
  have "(n + 8) mod 64 = 0" if "n mod 64 = 56" for n :: nat using that by presburger
  from this [OF pad_length_total] have "(Suc (length m) + pad_length (length m) + 8) mod 64 = 0" .
  then show ?thesis by (simp add: rfc_pad_def rfc_length_def add_ac)
qed

end
