(* ===== verification/Md5.thy ===== *)
theory Md5
  imports Murmur_Hash Rfc1321
begin

text \<open>
  \<open>common/enc/md5.{h,cpp}\<close>: the digest behind the consistent-hash load balancing.  The 64 steps are
  modelled as the code unrolls them, four at a time, with its tables, and compared with the published
  algorithm (\<open>Rfc1321\<close>), which takes its constants from the sine; the padding and the final conversion
  to bytes are modelled as written.
\<close>

section \<open>Tables\<close>

definition MD5_T :: "32 word list" where
  "MD5_T =
    [0xD76AA478, 0xE8C7B756, 0x242070DB, 0xC1BDCEEE, 0xF57C0FAF, 0x4787C62A, 0xA8304613, 0xFD469501,
     0x698098D8, 0x8B44F7AF, 0xFFFF5BB1, 0x895CD7BE, 0x6B901122, 0xFD987193, 0xA679438E, 0x49B40821,
     0xF61E2562, 0xC040B340, 0x265E5A51, 0xE9B6C7AA, 0xD62F105D, 0x02441453, 0xD8A1E681, 0xE7D3FBC8,
     0x21E1CDE6, 0xC33707D6, 0xF4D50D87, 0x455A14ED, 0xA9E3E905, 0xFCEFA3F8, 0x676F02D9, 0x8D2A4C8A,
     0xFFFA3942, 0x8771F681, 0x6D9D6122, 0xFDE5380C, 0xA4BEEA44, 0x4BDECFA9, 0xF6BB4B60, 0xBEBFBC70,
     0x289B7EC6, 0xEAA127FA, 0xD4EF3085, 0x04881D05, 0xD9D4D039, 0xE6DB99E5, 0x1FA27CF8, 0xC4AC5665,
     0xF4292244, 0x432AFF97, 0xAB9423A7, 0xFC93A039, 0x655B59C3, 0x8F0CCC92, 0xFFEFF47D, 0x85845DD1,
     0x6FA87E4F, 0xFE2CE6E0, 0xA3014314, 0x4E0811A1, 0xF7537E82, 0xBD3AF235, 0x2AD7D2BB, 0xEB86D391]"

definition MD5_S :: "nat list" where
  "MD5_S =
    [7, 12, 17, 22, 7, 12, 17, 22, 7, 12, 17, 22, 7, 12, 17, 22,
     5, 9, 14, 20, 5, 9, 14, 20, 5, 9, 14, 20, 5, 9, 14, 20,
     4, 11, 16, 23, 4, 11, 16, 23, 4, 11, 16, 23, 4, 11, 16, 23,
     6, 10, 15, 21, 6, 10, 15, 21, 6, 10, 15, 21, 6, 10, 15, 21]"

definition MD5_X :: "nat list" where
  "MD5_X =
    [0, 1, 2, 3, 4, 5, 6, 7, 8, 9, 10, 11, 12, 13, 14, 15,
     1, 6, 11, 0, 5, 10, 15, 4, 9, 14, 3, 8, 13, 2, 7, 12,
     5, 8, 11, 14, 1, 4, 7, 10, 13, 0, 3, 6, 9, 12, 15, 2,
     0, 7, 14, 5, 12, 3, 10, 1, 8, 15, 6, 13, 4, 11, 2, 9]"

section \<open>The steps\<close>

definition MD5_F :: "32 word \<Rightarrow> 32 word \<Rightarrow> 32 word \<Rightarrow> 32 word" where "MD5_F x y z = (x AND y) OR (NOT x AND z)"
definition MD5_G :: "32 word \<Rightarrow> 32 word \<Rightarrow> 32 word \<Rightarrow> 32 word" where "MD5_G x y z = (x AND z) OR (y AND NOT z)"
definition MD5_H :: "32 word \<Rightarrow> 32 word \<Rightarrow> 32 word \<Rightarrow> 32 word" where "MD5_H x y z = (x XOR y) XOR z"
definition MD5_I :: "32 word \<Rightarrow> 32 word \<Rightarrow> 32 word \<Rightarrow> 32 word" where "MD5_I x y z = y XOR (x OR NOT z)"

definition md5_op ::
  "(32 word \<Rightarrow> 32 word \<Rightarrow> 32 word \<Rightarrow> 32 word) \<Rightarrow>
   32 word \<Rightarrow> 32 word \<Rightarrow> 32 word \<Rightarrow> 32 word \<Rightarrow> 32 word \<Rightarrow> nat \<Rightarrow> 32 word" where
  \<comment> \<open>\<open>FF\<close>, \<open>GG\<close>, \<open>HH\<close> and \<open>II\<close>: the new value of \<open>a\<close>\<close>
  "md5_op f a b c d x i = b + rotl (f b c d + a + x + MD5_T ! i) (MD5_S ! i)"

definition md5_quad ::
  "(32 word \<Rightarrow> 32 word \<Rightarrow> 32 word \<Rightarrow> 32 word) \<Rightarrow> (nat \<Rightarrow> 32 word) \<Rightarrow> nat \<Rightarrow>
   32 word \<times> 32 word \<times> 32 word \<times> 32 word \<Rightarrow> 32 word \<times> 32 word \<times> 32 word \<times> 32 word" where
  \<comment> \<open>the body of one of the four loops\<close>
  "md5_quad f x i = (\<lambda>(a, b, c, d).
     let a = md5_op f a b c d (x (MD5_X ! i)) i;
         d = md5_op f d a b c (x (MD5_X ! (i + 1))) (i + 1);
         c = md5_op f c d a b (x (MD5_X ! (i + 2))) (i + 2);
         b = md5_op f b c d a (x (MD5_X ! (i + 3))) (i + 3)
     in (a, b, c, d))"

record md5 =
  md5_data :: "char list"
  md5_state :: "32 word \<times> 32 word \<times> 32 word \<times> 32 word"

definition MD5_resetVector :: md5 where
  "MD5_resetVector = \<lparr>md5_data = [], md5_state = (0x67452301, 0xEFCDAB89, 0x98BADCFE, 0x10325476)\<rparr>"

definition calculateBlock ::
  "char list \<Rightarrow> 32 word \<times> 32 word \<times> 32 word \<times> 32 word \<Rightarrow>
   (32 word \<times> 32 word \<times> 32 word \<times> 32 word) res" where
  \<comment> \<open>\<open>input\<close> is the data from the pointer on\<close>
  "calculateBlock input s =
     (if length input < 64 then Inl Out_Of_Bounds
      else let x = (\<lambda>j. le_word (drop (4 * j) input));
               s' = fold (md5_quad MD5_F x) [0, 4, 8, 12] s;
               s' = fold (md5_quad MD5_G x) [16, 20, 24, 28] s';
               s' = fold (md5_quad MD5_H x) [32, 36, 40, 44] s';
               s' = fold (md5_quad MD5_I x) [48, 52, 56, 60] s'
           in case (s, s') of ((s0, s1, s2, s3), (a, b, c, d)) \<Rightarrow> Inr (s0 + a, s1 + b, s2 + c, s3 + d))"

definition string2BitStream :: "string \<Rightarrow> md5 \<Rightarrow> md5" where
  "string2BitStream src m = m\<lparr>md5_data := md5_data m @ src\<rparr>"

definition rem512 :: "int \<Rightarrow> int" where
  \<comment> \<open>\<open>% 512\<close>, which cuts towards zero\<close>
  "rem512 n = (if n < 0 then - ((- n) mod 512) else n mod 512)"

function pad_zeros :: "int \<Rightarrow> char list \<Rightarrow> char list res" where
  \<comment> \<open>the \<open>for\<close> loop of \<open>padding\<close>\<close>
  "pad_zeros newSize data =
     (if rem512 newSize = 448 then Inr data
      else if in_int32 (newSize + 8) then pad_zeros (newSize + 8) (data @ [NUL])
      else Inl Int_Overflow)"
  by auto
termination by (relation "measure (\<lambda>(n, data). nat (2147483648 - n))") (auto simp: in_int32_def)

declare pad_zeros.simps [simp del]

definition bytes64 :: "int \<Rightarrow> char list" where
  \<comment> \<open>the eight bytes of a \<open>uint64_t\<close>, least significant first\<close>
  "bytes64 n = map (\<lambda>i. char_of (n div 256 ^ i)) [0..<8]"

definition MD5_padding :: "md5 \<Rightarrow> md5 res" where
  "MD5_padding m =
     (let fileBitSize = wrap32 (8 * int (length (md5_data m)))
      in bind_res (if rem512 fileBitSize \<noteq> 448
                   then bind_res (chk32 (fileBitSize + 8)) (\<lambda>newSize. pad_zeros newSize (md5_data m @ [CHR 0x80]))
                   else Inr (md5_data m)) (\<lambda>data.
         Inr (m\<lparr>md5_data := data @ bytes64 fileBitSize\<rparr>)))"

fun compute_blocks ::
  "char list \<Rightarrow> 32 word \<times> 32 word \<times> 32 word \<times> 32 word \<Rightarrow>
   (32 word \<times> 32 word \<times> 32 word \<times> 32 word) res" where
  \<comment> \<open>the loop of \<open>compute\<close>, on the data from index \<open>i\<close> on\<close>
  "compute_blocks [] s = Inr s"
| "compute_blocks data s = bind_res (calculateBlock data s) (compute_blocks (drop 64 data))"

declare compute_blocks.simps(2) [simp del]

function word_bytes :: "32 word \<Rightarrow> char list" where
  \<comment> \<open>the loop of \<open>genDigest\<close>: stops at the first zero rest\<close>
  "word_bytes n = (if n = 0 then [] else char_of (uint n) # word_bytes (drop_bit 8 n))"
  by auto
termination
proof (relation "measure unat")
  show "(drop_bit 8 n, n) \<in> measure unat" if "n \<noteq> 0" for n :: "32 word"
  proof -
    have "unat (drop_bit 8 n) = unat n div 256" by (simp add: drop_bit_eq_div unat_div)
    moreover have "0 < unat n" using that by (simp add: unat_gt_0)
    ultimately show ?thesis by simp
  qed
qed simp

declare word_bytes.simps [simp del]

definition genDigest :: "md5 \<Rightarrow> char list" where
  "genDigest m = (case md5_state m of (s0, s1, s2, s3) \<Rightarrow> concat (map word_bytes [s0, s1, s2, s3]))"

definition MD5_digest :: "string \<Rightarrow> char list res" where
  "MD5_digest src =
     bind_res (MD5_padding (string2BitStream src MD5_resetVector)) (\<lambda>m.
     bind_res (compute_blocks (md5_data m) (md5_state m)) (\<lambda>s.
     Inr (genDigest (m\<lparr>md5_state := s\<rparr>))))"

section \<open>The unrolled steps are the uniform ones\<close>

lemma tables: "list_all (\<lambda>j. MD5_X ! j = rfc_word j \<and> MD5_S ! j = rfc_shift j) [0..<64]"
  by code_simp

lemma table_entry: "j < 64 \<Longrightarrow> MD5_X ! j = rfc_word j" "j < 64 \<Longrightarrow> MD5_S ! j = rfc_shift j"
  using tables by (simp_all add: list_all_iff)

text \<open>The constants of the code are those of the document: each is computed from the sine.\<close>

lemma sines: "sine_table 1 sin1 cos1 1 (map uint MD5_T)"
  by code_simp

lemma MD5_T_rfc:
  assumes "j < 64"
  shows "MD5_T ! j = rfc_T j"
proof -
  have len: "length MD5_T = 64" by (simp add: MD5_T_def)
  have "map sine_entry [1..<1 + 64] = map uint MD5_T" using sine_table_from_one [OF sines] by (simp add: len)
  from arg_cong [OF this, of "\<lambda>vs. vs ! j"] have "sine_entry (Suc j) = uint (MD5_T ! j)"
    using assms len by (simp del: upt_rec_numeral)
  then show ?thesis by (simp add: rfc_T_entry)
qed

lemma rotl_rfc: "0 < r \<Longrightarrow> r < 32 \<Longrightarrow> rotl x r = word_rotl r x"
proof (rule bit_word_eqI)
  fix n assume r: "0 < r" "r < 32" and "n < LENGTH(32)"
  then have n: "n < 32" by simp
  have "bit (rotl x r) n \<longleftrightarrow> (if n < r then bit x (n + (32 - r)) else bit x (n - r))"
    using r n by (auto simp: rotl_def bit_or_iff bit_push_bit_iff bit_drop_bit_eq add.commute dest: bit_imp_le_length)
  moreover have "(n + (32 - r)) mod 32 = (if n < r then n + (32 - r) else n - r)"
    using r n by (auto simp: mod_if)
  ultimately show "bit (rotl x r) n \<longleftrightarrow> bit (word_rotl r x) n"
    using r n by (simp add: bit_word_rotl_iff)
qed

lemma shift_range: "j < 64 \<Longrightarrow> 0 < rfc_shift j \<and> rfc_shift j < 32"
proof -
  have "list_all (\<lambda>j. 0 < rfc_shift j \<and> rfc_shift j < 32) [0..<64]" by code_simp
  then show "j < 64 \<Longrightarrow> 0 < rfc_shift j \<and> rfc_shift j < 32" by (simp add: list_all_iff)
qed

lemma rounds_rfc:
  "j < 16 \<Longrightarrow> rfc_f j = MD5_F" "16 \<le> j \<Longrightarrow> j < 32 \<Longrightarrow> rfc_f j = MD5_G"
  "32 \<le> j \<Longrightarrow> j < 48 \<Longrightarrow> rfc_f j = MD5_H" "48 \<le> j \<Longrightarrow> rfc_f j = MD5_I"
  by (intro ext bit_word_eqI; auto simp: bit_rfc_f rfc_bit_def MD5_F_def MD5_G_def MD5_H_def MD5_I_def
      bit_or_iff bit_and_iff bit_xor_iff bit_not_iff)+

lemma init_rfc: "md5_state MD5_resetVector = rfc_init"
  by (simp add: MD5_resetVector_def rfc_init_def)

lemma le_word_rfc: "length bs \<le> 4 \<Longrightarrow> le_word bs = rfc_join bs"
proof (induction bs)
  case (Cons b bs)
  then have "le_word (b # bs) = push_bit 8 (le_word bs) OR of_nat (of_char b)" by (simp add: le_word_Cons)
  also have "\<dots> = push_bit 8 (le_word bs) + of_nat (of_char b)"
    by (rule disjunctive_add_eq_or [symmetric], rule bit_word_eqI)
      (auto simp: bit_and_iff bit_push_bit_iff dest: byte_bit)
  finally show ?case using Cons by (simp add: push_bit_eq_mult add.commute mult.commute)
qed simp

lemma block_word_rfc: "le_word (drop (4 * j) bs) = rfc_block_word bs j"
proof -
  have "le_word (drop (4 * j) bs) = le_word (take 4 (drop (4 * j) bs))" by (simp add: le_word_def)
  then show ?thesis by (simp add: rfc_block_word_def le_word_rfc)
qed

lemma length_rfc: "bytes64 (8 * int n) = rfc_length n"
proof -
  have "char_of (int k) = char_of k" for k by (simp add: char_of_def bit_of_nat_iff_bit)
  moreover have "8 * int n div 256 ^ i = int (8 * n div 256 ^ i)" for i by (simp add: zdiv_int)
  ultimately have "char_of (8 * int n div 256 ^ i) = char_of (8 * n div 256 ^ i)" for i by metis
  then show ?thesis by (simp add: bytes64_def rfc_length_def)
qed

lemma quad_steps:
  assumes "i + 3 < 64" and "\<And>k. i \<le> k \<Longrightarrow> k \<le> i + 3 \<Longrightarrow> rfc_f k = f"
  shows "md5_quad f W i s = fold (rfc_step W) [i..<i + 4] s"
proof -
  have "[i..<i + 4] = [i, i + 1, i + 2, i + 3]" by (simp add: upt_rec)
  then show ?thesis
    using assms shift_range
    by (cases s) (simp add: md5_quad_def md5_op_def rfc_step_def table_entry MD5_T_rfc rotl_rfc Let_def add_ac)
qed

lemma fold_upt_split:
  "i \<le> j \<Longrightarrow> j \<le> k \<Longrightarrow> fold f [i..<k] s = fold f [j..<k] (fold f [i..<j] s)"
  using upt_add_eq_append [of i j "k - j"] by simp

lemma round_steps:
  assumes "i + 15 < 64" and "\<And>k. i \<le> k \<Longrightarrow> k \<le> i + 15 \<Longrightarrow> rfc_f k = f"
  shows "fold (md5_quad f W) [i, i + 4, i + 8, i + 12] s = fold (rfc_step W) [i..<i + 16] s"
proof -
  have "fold (rfc_step W) [i..<i + 16] s =
      fold (rfc_step W) [i + 12..<i + 12 + 4] (fold (rfc_step W) [i + 8..<i + 8 + 4]
        (fold (rfc_step W) [i + 4..<i + 4 + 4] (fold (rfc_step W) [i..<i + 4] s)))"
    using fold_upt_split [of i "i + 12" "i + 16" "rfc_step W"] fold_upt_split [of i "i + 8" "i + 12" "rfc_step W"]
      fold_upt_split [of i "i + 4" "i + 8" "rfc_step W"] by (simp add: add.commute)
  then show ?thesis using assms by (simp add: quad_steps del: upt_conv_Cons)
qed

lemma calculateBlock_compress:
  assumes "64 \<le> length input"
  shows "calculateBlock input s = Inr (rfc_compress (rfc_block_word input) s)"
proof -
  let ?W = "rfc_block_word input"
  have "fold (rfc_step ?W) [0..<64] s =
      fold (rfc_step ?W) [48..<48 + 16] (fold (rfc_step ?W) [32..<32 + 16]
        (fold (rfc_step ?W) [16..<16 + 16] (fold (rfc_step ?W) [0..<0 + 16] s)))"
    using fold_upt_split [of 0 48 64 "rfc_step ?W"] fold_upt_split [of 0 32 48 "rfc_step ?W"]
      fold_upt_split [of 0 16 32 "rfc_step ?W"] by (simp del: upt_rec_numeral)
  also have "\<dots> =
      fold (md5_quad MD5_I ?W) [48, 52, 56, 60] (fold (md5_quad MD5_H ?W) [32, 36, 40, 44]
        (fold (md5_quad MD5_G ?W) [16, 20, 24, 28] (fold (md5_quad MD5_F ?W) [0, 4, 8, 12] s)))"
    using round_steps [of 0 MD5_F ?W] round_steps [of 16 MD5_G ?W] round_steps [of 32 MD5_H ?W]
      round_steps [of 48 MD5_I ?W] by (simp add: rounds_rfc del: upt_rec_numeral)
  finally show ?thesis
    using assms by (simp add: calculateBlock_def rfc_compress_def block_word_rfc Let_def split: prod.splits)
qed

lemma compute_blocks_chain: "length data mod 64 = 0 \<Longrightarrow> compute_blocks data s = Inr (rfc_chain data s)"
proof (induction data s rule: rfc_chain.induct)
  case (2 b bs s)
  obtain q where "length (b # bs) = 64 * q" using 2(2) by (auto simp: mod_eq_0_iff_dvd elim: dvdE)
  moreover from this have "0 < q" by (cases q) simp_all
  ultimately have "length (drop 64 (b # bs)) mod 64 = 0" "64 \<le> length (b # bs)"
    by (simp_all only: length_drop) (auto simp: mod_eq_0_iff_dvd dvd_diff_nat)
  then show ?case using 2(1)
    by (simp add: compute_blocks.simps(2) rfc_chain.simps(2) calculateBlock_compress del: drop_Cons)
qed simp

section \<open>Padding and bytes\<close>

lemma rem512_bytes: "rem512 (8 * int n) = 448 \<longleftrightarrow> n mod 64 = 56"
proof -
  have "8 * int n mod 512 = 8 * int (n mod 64)" using mod_mult_mult1 [of 8 "int n" 64] by (simp add: zmod_int)
  then show ?thesis by (simp add: rem512_def)
qed

lemma pad_zeros_fill:
  "(n + k) mod 64 = 56 \<Longrightarrow> (\<And>j. j < k \<Longrightarrow> (n + j) mod 64 \<noteq> 56) \<Longrightarrow> 8 * int (n + k) \<le> INT_MAX \<Longrightarrow>
   pad_zeros (8 * int n) data = Inr (data @ replicate k NUL)"
proof (induction k arbitrary: n data)
  case 0
  then show ?case by (subst pad_zeros.simps) (simp add: rem512_bytes)
next
  case (Suc k)
  have "n mod 64 \<noteq> 56" using Suc.prems(2) [of 0] by simp
  moreover have "in_int32 (8 * int n + 8)" using Suc.prems(3) by (simp add: in_int32_def)
  moreover have "pad_zeros (8 * int (Suc n)) (data @ [NUL]) = Inr ((data @ [NUL]) @ replicate k NUL)"
  proof (rule Suc.IH)
    show "(Suc n + j) mod 64 \<noteq> 56" if "j < k" for j using Suc.prems(2) [of "Suc j"] that by simp
  qed (use Suc.prems in simp_all)
  ultimately show ?case by (subst pad_zeros.simps) (simp add: rem512_bytes add.commute)
qed

lemma pad_length_least: "j < pad_length n \<Longrightarrow> (Suc n + j) mod 64 \<noteq> 56"
proof (cases rule: pad_length_cases [of n])
  case (1 q r)
  assume "j < pad_length n"
  with 1(4) have "j < (if r \<le> 55 then 55 - r else 119 - r)" by (simp only:)
  then have "Suc r + j < 56 \<or> 57 \<le> Suc r + j \<and> Suc r + j < 120" by (cases "r \<le> 55") auto
  moreover have "x < 56 \<or> 57 \<le> x \<and> x < 120 \<Longrightarrow> x mod 64 \<noteq> 56" for x :: nat
    by (cases "x < 64") (auto simp: le_mod_geq not_less)
  ultimately have "(Suc r + j) mod 64 \<noteq> 56" by blast
  moreover have "Suc n + j = 64 * q + (Suc r + j)" using 1(1) by simp
  then have "(Suc n + j) mod 64 = (Suc r + j) mod 64" by (simp only: mod_mult_self4)
  ultimately show ?thesis by simp
qed

lemma MD5_padding_rfc:
  assumes "length (md5_data m) < 268435392"
  shows "MD5_padding m = Inr (m\<lparr>md5_data :=
    if length (md5_data m) mod 64 = 56 then md5_data m @ rfc_length (length (md5_data m))
    else rfc_pad (md5_data m)\<rparr>)"
proof -
  let ?n = "length (md5_data m)"
  have w: "wrap32 (8 * int ?n) = 8 * int ?n" using assms by (intro wrap32_in) simp_all
  have "8 * int (Suc ?n + pad_length ?n) \<le> INT_MAX" using pad_length_less [of ?n] assms by simp
  then have "pad_zeros (8 * int (Suc ?n)) (md5_data m @ [CHR 0x80]) =
      Inr ((md5_data m @ [CHR 0x80]) @ replicate (pad_length ?n) NUL)"
    by (intro pad_zeros_fill pad_length_total pad_length_least)
  moreover have "in_int32 (8 * int ?n + 8)" using assms by (intro in_int32I) simp_all
  ultimately show ?thesis
    by (simp add: MD5_padding_def Let_def w rem512_bytes rfc_pad_def length_rfc add.commute)
qed

lemma word_bytes_map:
  "uint n < 256 ^ k \<Longrightarrow> k = 0 \<or> 256 ^ (k - 1) \<le> uint n \<Longrightarrow>
   word_bytes n = map (\<lambda>i. char_of (uint n div 256 ^ i)) [0..<k]"
proof (induction k arbitrary: n)
  case 0
  then have "uint n < 1" by simp
  then have "uint n = 0" using uint_ge_0 [of n] by linarith
  then have "n = 0" by (simp only: uint_0_iff)
  then show ?case by (simp add: word_bytes.simps)
next
  case (Suc k)
  let ?r = "drop_bit 8 n"
  have r: "uint ?r = uint n div 256" by (simp add: drop_bit_eq_div uint_div)
  have "0 < (256 :: int) ^ k" "256 ^ k \<le> uint n" using Suc.prems(2) by simp_all
  then have "uint n \<noteq> 0" by linarith
  then have "n \<noteq> 0" by auto
  moreover have "word_bytes ?r = map (\<lambda>i. char_of (uint ?r div 256 ^ i)) [0..<k]"
  proof (rule Suc.IH)
    show "uint ?r < 256 ^ k" using Suc.prems(1) by (simp add: r div_less_iff_less_mult mult.commute)
    show "k = 0 \<or> 256 ^ (k - 1) \<le> uint ?r"
    proof (cases k)
      case (Suc k')
      with Suc.prems(2) show ?thesis by (simp add: r less_eq_div_iff_mult_less_eq mult.commute)
    qed simp
  qed
  moreover have "map (\<lambda>i. char_of (uint n div 256 ^ i)) [0..<Suc k] =
      char_of (uint n) # map (\<lambda>i. char_of (uint n div 256 div 256 ^ i)) [0..<k]"
    by (simp add: map_upt_Suc zdiv_zmult2_eq del: upt_Suc)
  ultimately show ?case by (simp add: word_bytes.simps [of n] r)
qed

lemma word_bytes_rfc: "2 ^ 24 \<le> uint w \<Longrightarrow> word_bytes w = rfc_bytes w"
  using word_bytes_map [of w 4] uint_bounded [of w] by (simp add: rfc_bytes_def)

lemma word_bytes_short: "uint w < 2 ^ 24 \<Longrightarrow> length (word_bytes w) < 4"
proof -
  assume "uint w < 2 ^ 24"
  then consider "uint w < 1" | "1 \<le> uint w" "uint w < 256" | "256 \<le> uint w" "uint w < 65536"
    | "65536 \<le> uint w" "uint w < 16777216" by fastforce
  then show ?thesis
    using word_bytes_map [of w 0] word_bytes_map [of w 1] word_bytes_map [of w 2] word_bytes_map [of w 3]
    by cases simp_all
qed

lemma MD5_digest_chain:
  assumes "length src < 268435392"
  shows "MD5_digest src =
    Inr (genDigest \<lparr>md5_data = [], md5_state =
      (if length src mod 64 = 56 then rfc_chain (src @ rfc_length (length src)) rfc_init
       else rfc_words src)\<rparr>)"
proof -
  have "length (src @ rfc_length (length src)) mod 64 = 0" if "length src mod 64 = 56"
    using that by (simp add: rfc_length_def) presburger
  moreover have "md5_data MD5_resetVector = []" by (simp add: MD5_resetVector_def)
  ultimately show ?thesis
    using assms by (simp add: MD5_digest_def MD5_padding_rfc string2BitStream_def init_rfc genDigest_def
        compute_blocks_chain length_padded rfc_words_def)
qed

text \<open>C27. The digest is computed for every string below 256 MB; unless the length is 56 modulo 64, its state
  is the one of RFC 1321, whose step constants are the integer parts of \<open>2 ^ 32 * abs (sin i)\<close>: so the tables,
  the round functions, the initial words, the unrolled rounds and the padding are right.
  The bytes are the published digest exactly when none of the four words is below 2 to the 24: the
  high zero bytes of such a word are dropped and the digest has fewer than 16 bytes.  At 56 modulo 64
  the padding bit is missing, and what is hashed is the string and its length alone.\<close>

theorem md5_digest_rfc:
  assumes "length src < 268435392" and "rfc_words src = (a, b, c, d)"
  shows "(length src mod 64 \<noteq> 56 \<longrightarrow>
            MD5_digest src = Inr (concat (map word_bytes [a, b, c, d])) \<and>
            (if \<forall>w \<in> {a, b, c, d}. 2 ^ 24 \<le> uint w then MD5_digest src = Inr (rfc_digest src)
             else \<exists>bs. MD5_digest src = Inr bs \<and> length bs < 16)) \<and>
         (length src mod 64 = 56 \<longrightarrow>
            MD5_digest src = Inr (genDigest \<lparr>md5_data = [], md5_state =
              rfc_chain (src @ rfc_length (length src)) rfc_init\<rparr>))"
proof -
  have le4: "length (word_bytes w) \<le> 4" for w
    using word_bytes_rfc [of w] word_bytes_short [of w] by (cases "2 ^ 24 \<le> uint w") (simp_all add: rfc_bytes_def)
  have "length (concat (map word_bytes [a, b, c, d])) < 16" if "w \<in> {a, b, c, d}" "uint w < 2 ^ 24" for w
    using word_bytes_short [OF that(2)] le4 [of a] le4 [of b] le4 [of c] le4 [of d] that(1) by auto
  moreover have "concat (map word_bytes [a, b, c, d]) = rfc_digest src" if "\<forall>w \<in> {a, b, c, d}. 2 ^ 24 \<le> uint w"
    using that assms(2) by (simp add: rfc_digest_def word_bytes_rfc)
  ultimately show ?thesis
    using MD5_digest_chain [OF assms(1)] assms(2) by (auto simp: genDigest_def not_le)
qed

end
