(* ===== verification/Md5_Example.thy ===== *)
theory Md5_Example
  imports Md5
begin

text \<open>
  The digest of one string, computed in the kernel: the key of virtual node 23 of the address
  \<open>127.0.0.1:12345\<close>.  Its third word is below 2 to the 24, so the digest has 15 bytes.
\<close>

definition node_key :: string where
  "node_key = ''127.0.0.1:1234523''"

definition node_words :: "nat \<Rightarrow> 32 word" where
  "node_words j = [0x2E373231, 0x2E302E30, 0x32313A31, 0x32353433, 0x8033, 0x0, 0x0, 0x0, 0x0, 0x0, 0x0, 0x0, 0x0, 0x0, 0x88, 0x0] ! j"

lemma quad_eval:
  "md5_op f a b c d (x (MD5_X ! i)) i = a' \<Longrightarrow> md5_op f d a' b c (x (MD5_X ! (i + 1))) (i + 1) = d' \<Longrightarrow>
   md5_op f c d' a' b (x (MD5_X ! (i + 2))) (i + 2) = c' \<Longrightarrow>
   md5_op f b c' d' a' (x (MD5_X ! (i + 3))) (i + 3) = b' \<Longrightarrow>
   md5_quad f x i (a, b, c, d) = (a', b', c', d')"
  by (simp add: md5_quad_def Let_def)

lemmas md5_eval = md5_op_def rotl_def MD5_T_def MD5_S_def MD5_X_def node_words_def
  MD5_F_def MD5_G_def MD5_H_def MD5_I_def

lemma node_round_F:
  "fold (md5_quad MD5_F node_words) [0, 4, 8, 12] (0x67452301, 0xEFCDAB89, 0x98BADCFE, 0x10325476) =
     (0xFA6DF892, 0x1B51061C, 0x65676094, 0x83016E30)"
proof -
  have "md5_quad MD5_F node_words 0
      (0x67452301, 0xEFCDAB89, 0x98BADCFE, 0x10325476) = (0xC0B8FF8B, 0x2990DDBD, 0x9E443F5A, 0x0F189F86)"
    by (rule quad_eval) (simp_all add: md5_eval)
  moreover have "md5_quad MD5_F node_words 4
      (0xC0B8FF8B, 0x2990DDBD, 0x9E443F5A, 0x0F189F86) = (0x4868219F, 0x81A5D090, 0x56D5E073, 0x90C100E9)"
    by (rule quad_eval) (simp_all add: md5_eval)
  moreover have "md5_quad MD5_F node_words 8
      (0x4868219F, 0x81A5D090, 0x56D5E073, 0x90C100E9) = (0xD8E348F1, 0xC1D822A4, 0x8FDFC488, 0x9675F31C)"
    by (rule quad_eval) (simp_all add: md5_eval)
  moreover have "md5_quad MD5_F node_words 12
      (0xD8E348F1, 0xC1D822A4, 0x8FDFC488, 0x9675F31C) = (0xFA6DF892, 0x1B51061C, 0x65676094, 0x83016E30)"
    by (rule quad_eval) (simp_all add: md5_eval)
  ultimately show ?thesis by (simp only: fold_simps)
qed

lemma node_round_G:
  "fold (md5_quad MD5_G node_words) [16, 20, 24, 28] (0xFA6DF892, 0x1B51061C, 0x65676094, 0x83016E30) =
     (0x8D698C8A, 0xD06F8E2B, 0xE115841C, 0x5BD729C6)"
proof -
  have "md5_quad MD5_G node_words 16
      (0xFA6DF892, 0x1B51061C, 0x65676094, 0x83016E30) = (0xDFBB5D2C, 0xC63FF1AC, 0xD10FAD0C, 0xCA8A5670)"
    by (rule quad_eval) (simp_all add: md5_eval)
  moreover have "md5_quad MD5_G node_words 20
      (0xDFBB5D2C, 0xC63FF1AC, 0xD10FAD0C, 0xCA8A5670) = (0xE58CC85D, 0x231CBE93, 0x4B6C4B56, 0xFC13A785)"
    by (rule quad_eval) (simp_all add: md5_eval)
  moreover have "md5_quad MD5_G node_words 24
      (0xE58CC85D, 0x231CBE93, 0x4B6C4B56, 0xFC13A785) = (0x808D6158, 0x3FDF0D1F, 0x65F3889A, 0x4FD8CB16)"
    by (rule quad_eval) (simp_all add: md5_eval)
  moreover have "md5_quad MD5_G node_words 28
      (0x808D6158, 0x3FDF0D1F, 0x65F3889A, 0x4FD8CB16) = (0x8D698C8A, 0xD06F8E2B, 0xE115841C, 0x5BD729C6)"
    by (rule quad_eval) (simp_all add: md5_eval)
  ultimately show ?thesis by (simp only: fold_simps)
qed

lemma node_round_H:
  "fold (md5_quad MD5_H node_words) [32, 36, 40, 44] (0x8D698C8A, 0xD06F8E2B, 0xE115841C, 0x5BD729C6) =
     (0x79EB927A, 0x60D583B4, 0x11C8C08D, 0x7A165F96)"
proof -
  have "md5_quad MD5_H node_words 32
      (0x8D698C8A, 0xD06F8E2B, 0xE115841C, 0x5BD729C6) = (0x517E2A0A, 0x8A5E1CA7, 0x88C5D56A, 0xBB824C24)"
    by (rule quad_eval) (simp_all add: md5_eval)
  moreover have "md5_quad MD5_H node_words 36
      (0x517E2A0A, 0x8A5E1CA7, 0x88C5D56A, 0xBB824C24) = (0x62CAA324, 0x124D4349, 0x6DAE8177, 0xFB01EE61)"
    by (rule quad_eval) (simp_all add: md5_eval)
  moreover have "md5_quad MD5_H node_words 40
      (0x62CAA324, 0x124D4349, 0x6DAE8177, 0xFB01EE61) = (0x16D227DA, 0x1073B0A7, 0x2DC69D6F, 0x7845ABC2)"
    by (rule quad_eval) (simp_all add: md5_eval)
  moreover have "md5_quad MD5_H node_words 44
      (0x16D227DA, 0x1073B0A7, 0x2DC69D6F, 0x7845ABC2) = (0x79EB927A, 0x60D583B4, 0x11C8C08D, 0x7A165F96)"
    by (rule quad_eval) (simp_all add: md5_eval)
  ultimately show ?thesis by (simp only: fold_simps)
qed

lemma node_round_I:
  "fold (md5_quad MD5_I node_words) [48, 52, 56, 60] (0x79EB927A, 0x60D583B4, 0x11C8C08D, 0x7A165F96) =
     (0xAD87EB61, 0xD1A6416F, 0x681A406B, 0x56C6D837)"
proof -
  have "md5_quad MD5_I node_words 48
      (0x79EB927A, 0x60D583B4, 0x11C8C08D, 0x7A165F96) = (0x81281B98, 0x1AA58027, 0xD7A006C5, 0x319608CC)"
    by (rule quad_eval) (simp_all add: md5_eval)
  moreover have "md5_quad MD5_I node_words 52
      (0x81281B98, 0x1AA58027, 0xD7A006C5, 0x319608CC) = (0x0EFF53A2, 0x2E21DC15, 0x6CE371D6, 0xD9140C3E)"
    by (rule quad_eval) (simp_all add: md5_eval)
  moreover have "md5_quad MD5_I node_words 56
      (0x0EFF53A2, 0x2E21DC15, 0x6CE371D6, 0xD9140C3E) = (0x5A39D945, 0x47C4C2F3, 0x1FE6FF5C, 0xCE143476)"
    by (rule quad_eval) (simp_all add: md5_eval)
  moreover have "md5_quad MD5_I node_words 60
      (0x5A39D945, 0x47C4C2F3, 0x1FE6FF5C, 0xCE143476) = (0xAD87EB61, 0xD1A6416F, 0x681A406B, 0x56C6D837)"
    by (rule quad_eval) (simp_all add: md5_eval)
  ultimately show ?thesis by (simp only: fold_simps)
qed

lemmas node_rounds = node_round_F [unfolded fold_simps] node_round_G [unfolded fold_simps]
  node_round_H [unfolded fold_simps] node_round_I [unfolded fold_simps]

lemma node_words_key: "j < 16 \<Longrightarrow> rfc_block_word (rfc_pad node_key) j = node_words j"
proof -
  let ?pad = "node_key @ CHR 0x80 # replicate (pad_length 17) NUL @ bytes64 136"
  have "length node_key = 17" by (simp add: node_key_def)
  then have pad: "rfc_pad node_key = ?pad" using length_rfc [of 17] by (simp add: rfc_pad_def)
  have "list_all (\<lambda>j. le_word (drop (4 * j) ?pad) = node_words j) [0..<16]" by code_simp
  then have "list_all (\<lambda>j. rfc_block_word (rfc_pad node_key) j = node_words j) [0..<16]"
    unfolding block_word_rfc pad .
  then show "j < 16 \<Longrightarrow> rfc_block_word (rfc_pad node_key) j = node_words j" by (simp add: list_all_iff)
qed

lemma quad_cong:
  assumes "\<And>j. j < 16 \<Longrightarrow> x j = y j" and "i + 3 < 64"
  shows "md5_quad f x i = md5_quad f y i"
  using assms by (simp add: md5_quad_def table_entry rfc_word_def fun_eq_iff)

lemma node_key_words: "rfc_words node_key = (0x14CD0E62, 0xC173ECF8, 0xD51D69, 0x66F92CAD)"
proof -
  let ?W = "rfc_block_word (rfc_pad node_key)"
  have len: "length (rfc_pad node_key) = 64" by (simp add: rfc_pad_def node_key_def pad_length_def rfc_length_def)
  then have "calculateBlock (rfc_pad node_key) (md5_state MD5_resetVector) =
      Inr (rfc_compress ?W (md5_state MD5_resetVector))"
    by (simp add: calculateBlock_compress)
  moreover have "md5_quad f ?W i = md5_quad f node_words i" if "i + 3 < 64" for f i
    using that by (intro quad_cong) (simp_all add: node_words_key)
  then have "calculateBlock (rfc_pad node_key) (md5_state MD5_resetVector) = Inr (0x14CD0E62, 0xC173ECF8, 0xD51D69, 0x66F92CAD)"
    by (simp add: calculateBlock_def len Let_def MD5_resetVector_def node_rounds block_word_rfc)
  ultimately have "rfc_compress ?W rfc_init = (0x14CD0E62, 0xC173ECF8, 0xD51D69, 0x66F92CAD)" by (simp add: init_rfc)
  moreover obtain b bs where "rfc_pad node_key = b # bs" using len by (cases "rfc_pad node_key") simp_all
  ultimately show ?thesis using len by (simp add: rfc_words_def rfc_chain.simps(2))
qed

theorem md5_digest_rfc_witness: "\<exists>bs. MD5_digest node_key = Inr bs \<and> length bs < 16"
proof -
  have "length node_key < 268435392" "length node_key mod 64 \<noteq> 56" by (simp_all add: node_key_def)
  then have "if \<forall>w \<in> {0x14CD0E62, 0xC173ECF8, 0xD51D69, 0x66F92CAD :: 32 word}. 2 ^ 24 \<le> uint w
      then MD5_digest node_key = Inr (rfc_digest node_key)
      else \<exists>bs. MD5_digest node_key = Inr bs \<and> length bs < 16"
    using md5_digest_rfc [OF _ node_key_words] by blast
  then show ?thesis by (simp split: if_splits)
qed

end
