(* ===== verification/Load_Balance.thy ===== *)
theory Load_Balance
  imports Net_Addr Std_Map TinyPB_Coder Md5_Example
begin

text \<open>
  \<open>net/load_balance.{h,cpp}\<close>: the strategies that choose a server.  The state of a strategy object is
  passed explicitly; the results of \<open>rand()\<close> and of \<open>std::hash<std::string>\<close>, which the standard
  library chooses, are arguments.  The locks have no effect on one thread's view.
\<close>

datatype LoadBalanceCategory = Random | Round | ConsistentHash

section \<open>Random and round robin\<close>

definition random_select :: "int \<Rightarrow> ip_net_addr list \<Rightarrow> tinypb \<Rightarrow> ip_net_addr res" where
  \<comment> \<open>\<open>rand_value\<close> is the result of \<open>rand()\<close>; it is converted to \<open>size_t\<close>, and \<open>% 0\<close> is undefined\<close>
  "random_select rand_value addrs invocation =
     (if addrs = [] then Inl Div_By_Zero
      else at_index addrs (to_size rand_value mod int (length addrs)))"

definition round_select :: "ip_net_addr list \<Rightarrow> tinypb \<Rightarrow> int \<Rightarrow> (ip_net_addr \<times> int) res" where
  \<comment> \<open>the state is \<open>index_\<close>\<close>
  "round_select addrs invocation index =
     (let index = (if index \<ge> wrap32 (int (length addrs)) then 0 else index)
      in bind_res (at_index addrs index) (\<lambda>a. Inr (a, index + 1)))"

section \<open>Consistent hashing\<close>

record selector =
  virtualInvokers :: "(int, ip_net_addr) smap"
  identityHashCode :: int

definition selector_hash :: "char list \<Rightarrow> int \<Rightarrow> int res" where
  "selector_hash digest number =
     bind_res (at_index digest (3 + number * 4)) (\<lambda>d3.
     bind_res (at_index digest (2 + number * 4)) (\<lambda>d2.
     bind_res (at_index digest (1 + number * 4)) (\<lambda>d1.
     bind_res (at_index digest (number * 4)) (\<lambda>d0.
     Inr (((push_bit 24 (of_char d3) OR push_bit 16 (of_char d2)) OR push_bit 8 (of_char d1)) OR of_char d0)))))"

definition place_replicas :: "ip_net_addr \<Rightarrow> int \<Rightarrow> (int, ip_net_addr) smap \<Rightarrow> (int, ip_net_addr) smap res" where
  \<comment> \<open>the body of the loop over \<open>i\<close>\<close>
  "place_replicas invoker i m =
     bind_res (MD5_digest (IPNetAddr_toString invoker @ to_string i)) (\<lambda>digest.
     fold_res (\<lambda>h m. bind_res (selector_hash digest h) (\<lambda>k. Inr (smap_assign k invoker m))) [0, 1, 2, 3] m)"

definition selector_new :: "ip_net_addr list \<Rightarrow> int \<Rightarrow> int \<Rightarrow> selector res" where
  "selector_new invokers replicaNumber identity =
     bind_res (fold_res (\<lambda>invoker. fold_res (place_replicas invoker) [0..replicaNumber div 4 - 1]) invokers []) (\<lambda>m.
     Inr \<lparr>virtualInvokers = m, identityHashCode = identity\<rparr>)"

definition selectForKey :: "int \<Rightarrow> selector \<Rightarrow> ip_net_addr res" where
  "selectForKey hashCode sel =
     (case (case smap_lower_bound hashCode (virtualInvokers sel) of
              None \<Rightarrow> smap_first (virtualInvokers sel) | e \<Rightarrow> e) of
        None \<Rightarrow> Inl Out_Of_Bounds | Some (_, a) \<Rightarrow> Inr a)"

definition selector_select :: "string \<Rightarrow> selector \<Rightarrow> ip_net_addr res" where
  "selector_select rpcServiceKey sel =
     bind_res (MD5_digest rpcServiceKey) (\<lambda>digest.
     bind_res (selector_hash digest 0) (\<lambda>k. selectForKey k sel))"

definition hashCode :: "(string \<Rightarrow> int) \<Rightarrow> ip_net_addr list \<Rightarrow> int" where
  "hashCode std_hash addrs =
     fold (\<lambda>item result. to_size (31 * result + std_hash (IPNetAddr_toString item))) addrs 1"

definition consistent_select ::
  "(string \<Rightarrow> int) \<Rightarrow> ip_net_addr list \<Rightarrow> tinypb \<Rightarrow> (string, selector) smap \<Rightarrow>
   (ip_net_addr \<times> (string, selector) smap) res" where
  \<comment> \<open>the state is \<open>selectors_\<close>; \<open>insert\<close> keeps an entry already there\<close>
  "consistent_select std_hash addrs invocation selectors =
     (let identity = hashCode std_hash addrs;
          name = m_method_name invocation
      in bind_res
           (case smap_find selectors name of
              Some sel \<Rightarrow>
                if to_size (identityHashCode sel) = identity then Inr (sel, selectors)
                else bind_res (selector_new addrs 160 (wrap32 identity)) (\<lambda>new.
                     Inr (sel, smap_insert name new selectors))
            | None \<Rightarrow> bind_res (selector_new addrs 160 (wrap32 identity)) (\<lambda>new.
                     Inr (new, smap_insert name new selectors))) (\<lambda>(sel, selectors).
         bind_res (selector_select (m_pb_data invocation) sel) (\<lambda>a. Inr (a, selectors))))"

section \<open>The registry of strategies\<close>

definition queryStrategy :: "LoadBalanceCategory \<Rightarrow> LoadBalanceCategory" where
  \<comment> \<open>a strategy object is named by its category\<close>
  "queryStrategy category = (case category of Random \<Rightarrow> Random | Round \<Rightarrow> Round | ConsistentHash \<Rightarrow> ConsistentHash)"

definition strategy2Str :: "LoadBalanceCategory \<Rightarrow> string" where
  "strategy2Str category =
     (case category of Random \<Rightarrow> ''Random'' | Round \<Rightarrow> ''Round'' | ConsistentHash \<Rightarrow> ''ConsistentHash'')"

definition str2Strategy :: "string \<Rightarrow> LoadBalanceCategory" where
  "str2Strategy str =
     (if str = ''Round'' then Round else if str = ''ConsistentHash'' then ConsistentHash else Random)"

record balancers =
  \<comment> \<open>the state of the three static strategy objects\<close>
  lb_index :: int
  lb_selectors :: "(string, selector) smap"

definition strategy_select ::
  "(string \<Rightarrow> int) \<Rightarrow> int \<Rightarrow> LoadBalanceCategory \<Rightarrow> ip_net_addr list \<Rightarrow> tinypb \<Rightarrow> balancers \<Rightarrow>
   (ip_net_addr \<times> balancers) res" where
  \<comment> \<open>the virtual call \<open>select\<close> on the object of a category\<close>
  "strategy_select std_hash rand_value category addrs invocation st =
     (case category of
        Random \<Rightarrow> bind_res (random_select rand_value addrs invocation) (\<lambda>a. Inr (a, st))
      | Round \<Rightarrow> bind_res (round_select addrs invocation (lb_index st)) (\<lambda>(a, i). Inr (a, st\<lparr>lb_index := i\<rparr>))
      | ConsistentHash \<Rightarrow> bind_res (consistent_select std_hash addrs invocation (lb_selectors st)) (\<lambda>(a, s).
                            Inr (a, st\<lparr>lb_selectors := s\<rparr>)))"

section \<open>Round robin is fair\<close>

fun round_selects :: "nat \<Rightarrow> ip_net_addr list \<Rightarrow> tinypb \<Rightarrow> int \<Rightarrow> (ip_net_addr list \<times> int) res" where
  \<comment> \<open>\<open>k\<close> selections in a row\<close>
  "round_selects 0 addrs req index = Inr ([], index)"
| "round_selects (Suc k) addrs req index =
     bind_res (round_select addrs req index) (\<lambda>(a, index).
     bind_res (round_selects k addrs req index) (\<lambda>(as, index). Inr (a # as, index)))"

lemma round_select_nth:
  assumes "0 \<le> index" and "index \<le> int n" and "n = length addrs" and "0 < n" and "int n \<le> INT_MAX"
  shows "round_select addrs req index = Inr (addrs ! (nat index mod n), int (nat index mod n) + 1)"
proof (cases "index = int n")
  case True
  with assms show ?thesis by (simp add: round_select_def wrap32_in at_index_in Let_def)
next
  case False
  with assms have "index < int n" by simp
  moreover from this assms(1) have "nat index mod n = nat index" by simp
  ultimately show ?thesis using assms by (simp add: round_select_def wrap32_in at_index_in Let_def)
qed

lemma round_selects_nth:
  assumes "0 \<le> index" and "index \<le> int n" and "n = length addrs" and "0 < n" and "int n \<le> INT_MAX"
  shows "\<exists>index'. round_selects k addrs req index =
           Inr (map (\<lambda>j. addrs ! ((nat index + j) mod n)) [0..<k], index') \<and> 0 \<le> index' \<and> index' \<le> int n"
  using assms(1,2)
proof (induction k arbitrary: index)
  case (Suc k)
  let ?i = "int (nat index mod n) + 1"
  have "nat index mod n < n" using assms(4) by simp
  then have "0 \<le> ?i" "?i \<le> int n" by simp_all
  from Suc.IH [OF this] obtain index' where
    i': "round_selects k addrs req ?i = Inr (map (\<lambda>j. addrs ! ((nat ?i + j) mod n)) [0..<k], index')"
      "0 \<le> index'" "index' \<le> int n" by blast
  have "(nat ?i + j) mod n = (nat index + Suc j) mod n" for j
    by (simp add: nat_add_distrib nat_int_add) (metis add_Suc_right mod_add_left_eq mod_Suc_eq)
  with i'(1) have "round_selects k addrs req ?i = Inr (map (\<lambda>j. addrs ! ((nat index + Suc j) mod n)) [0..<k], index')"
    by simp
  moreover have "map (\<lambda>j. addrs ! ((nat index + j) mod n)) [0..<Suc k] =
      addrs ! (nat index mod n) # map (\<lambda>j. addrs ! ((nat index + Suc j) mod n)) [0..<k]"
    by (simp add: map_upt_Suc del: upt_Suc)
  ultimately show ?case
    using round_select_nth [OF Suc.prems assms(3-5), of req] i'(2,3) by simp
qed simp

text \<open>Round robin: as many selections in a row as there are addresses return every address, each at
  its own place, starting from the stored index; the index stays usable for every later list, also a
  shorter one, and an empty list is read out of range.\<close>

theorem round_robin_fair:
  assumes "0 \<le> index" and "index \<le> int (length addrs)" and "int (length addrs) \<le> INT_MAX"
  shows "if addrs = [] then round_select addrs req index = Inl Out_Of_Bounds
         else \<exists>index'. round_selects (length addrs) addrs req index = Inr (rotate (nat index) addrs, index') \<and>
              0 \<le> index' \<and> index' \<le> int (length addrs) \<and>
              (\<forall>shorter. shorter \<noteq> [] \<and> int (length shorter) \<le> index' \<longrightarrow>
                 round_select shorter req index' = Inr (hd shorter, 1))"
proof (cases "addrs = []")
  case True
  then show ?thesis using assms(1,2) by (simp add: round_select_def at_index_def)
next
  case False
  then have n: "0 < length addrs" by simp
  obtain index' where
    "round_selects (length addrs) addrs req index =
       Inr (map (\<lambda>j. addrs ! ((nat index + j) mod length addrs)) [0..<length addrs], index')"
    "0 \<le> index'" "index' \<le> int (length addrs)"
    using round_selects_nth [OF assms(1,2) refl n assms(3)] by blast
  moreover have "map (\<lambda>j. addrs ! ((nat index + j) mod length addrs)) [0..<length addrs] = rotate (nat index) addrs"
    by (rule nth_equalityI) (simp_all add: nth_rotate add.commute)
  moreover have "round_select shorter req index' = Inr (hd shorter, 1)"
    if "shorter \<noteq> []" "int (length shorter) \<le> index'" for shorter
    using that \<open>index' \<le> int (length addrs)\<close> assms(3)
    by (simp add: round_select_def wrap32_in at_index_in hd_conv_nth Let_def)
  ultimately show ?thesis using False by auto
qed

definition sample_addr :: "int \<Rightarrow> ip_net_addr" where
  "sample_addr port = IPNetAddr_of_ip (\<lambda>_. 0x0100007F) ''127.0.0.1'' port"

theorem round_robin_fair_witness:
  "\<exists>i. round_selects 3 [sample_addr 1, sample_addr 2, sample_addr 3] tinypb_new 1 =
     Inr ([sample_addr 2, sample_addr 3, sample_addr 1], i)"
  using round_robin_fair [of 1 "[sample_addr 1, sample_addr 2, sample_addr 3]" tinypb_new]
  by (auto simp: numeral_3_eq_3 simp del: round_selects.simps)

section \<open>The selector\<close>

lemma selector_hash_range:
  "0 \<le> h \<Longrightarrow> if 4 * h + 3 < int (length digest) then \<exists>k. selector_hash digest h = Inr k
             else selector_hash digest h = Inl Out_Of_Bounds"
  by (simp add: selector_hash_def at_index_def)

definition full_digest :: "ip_net_addr \<Rightarrow> int \<Rightarrow> bool" where
  "full_digest a i \<longleftrightarrow> (\<exists>d. MD5_digest (IPNetAddr_toString a @ to_string i) = Inr d \<and> length d = 16)"

lemma MD5_digest_total:
  assumes "length src < 268435392"
  obtains d where "MD5_digest src = Inr d" and "length d \<le> 16"
proof -
  have le4: "length (word_bytes w) \<le> 4" for w
    using word_bytes_rfc [of w] word_bytes_short [of w] by (cases "2 ^ 24 \<le> uint w") (simp_all add: rfc_bytes_def)
  have "length (genDigest m) \<le> 16" for m
    using le4 by (auto simp: genDigest_def split: prod.split intro!: order.trans [OF add_mono [OF le4 add_mono [OF le4 add_mono [OF le4 le4]]]])
  with MD5_digest_chain [OF assms] that show thesis by blast
qed

lemma place_replicas_faults:
  assumes "length (IPNetAddr_toString a @ to_string i) < 268435392"
  shows "if full_digest a i then \<exists>m'. place_replicas a i m = Inr m' else place_replicas a i m = Inl Out_Of_Bounds"
proof -
  obtain d where d: "MD5_digest (IPNetAddr_toString a @ to_string i) = Inr d" "length d \<le> 16"
    by (rule MD5_digest_total [OF assms])
  let ?f = "\<lambda>h m. bind_res (selector_hash d h) (\<lambda>k. Inr (smap_assign k a m))"
  have "if \<forall>h \<in> set [0, 1, 2, 3]. 4 * h + 3 < int (length d) then \<exists>t. fold_res ?f [0, 1, 2, 3] m = Inr t
      else fold_res ?f [0, 1, 2, 3] m = Inl Out_Of_Bounds"
  proof (rule fold_res_faults)
    fix h m assume "h \<in> set [0, 1, 2, 3 :: int]"
    then have "0 \<le> h" by auto
    from selector_hash_range [OF this, of d]
    show "if 4 * h + 3 < int (length d) then \<exists>t. ?f h m = Inr t else ?f h m = Inl Out_Of_Bounds"
      by (auto split: if_splits)
  qed
  moreover have "(\<forall>h \<in> set [0, 1, 2, 3]. 4 * h + 3 < int (length d)) \<longleftrightarrow> full_digest a i"
    using d by (auto simp: full_digest_def)
  ultimately show ?thesis by (simp only: place_replicas_def d bind_res_simps)
qed

lemma to_string_40: "i \<in> {0..<40} \<Longrightarrow> length (to_string i) \<le> 2"
proof -
  have "list_all (\<lambda>i. length (to_string i) \<le> 2) [0..39]" by code_simp
  then show "i \<in> {0..<40} \<Longrightarrow> length (to_string i) \<le> 2" by (simp add: list_all_iff)
qed

lemma selector_new_faults:
  assumes "\<forall>a \<in> set addrs. length (IPNetAddr_toString a) < 268435000"
  shows "if \<forall>a \<in> set addrs. \<forall>i \<in> {0..<40}. full_digest a i
         then \<exists>sel. selector_new addrs 160 identity = Inr sel
         else selector_new addrs 160 identity = Inl Out_Of_Bounds"
proof -
  let ?f = "\<lambda>invoker. fold_res (place_replicas invoker) [0..39]"
  have one: "if \<forall>i \<in> {0..<40}. full_digest a i then \<exists>m'. ?f a m = Inr m' else ?f a m = Inl Out_Of_Bounds"
    if "a \<in> set addrs" for a m
  proof -
    have "if \<forall>i \<in> set [0..39]. full_digest a i then \<exists>m'. ?f a m = Inr m' else ?f a m = Inl Out_Of_Bounds"
    proof (rule fold_res_faults)
      fix i m assume "i \<in> set [0..39]"
      then have "length (to_string i) \<le> 2" using to_string_40 [of i] by auto
      with assms that have "length (IPNetAddr_toString a @ to_string i) < 268435392" by auto
      from place_replicas_faults [OF this]
      show "if full_digest a i then \<exists>m'. place_replicas a i m = Inr m' else place_replicas a i m = Inl Out_Of_Bounds" .
    qed
    moreover have "set [0..39] = {0..<40 :: int}" by auto
    ultimately show ?thesis by simp
  qed
  have "if \<forall>a \<in> set addrs. \<forall>i \<in> {0..<40}. full_digest a i then \<exists>m. fold_res ?f addrs [] = Inr m
      else fold_res ?f addrs [] = Inl Out_Of_Bounds"
    by (rule fold_res_faults) (rule one)
  then show ?thesis by (auto simp: selector_new_def split: if_splits)
qed

lemma node_key_digest:
  obtains d where "MD5_digest node_key = Inr d" and "4 \<le> length d" and "length d < 16"
proof -
  have "length node_key < 268435392" "length node_key mod 64 \<noteq> 56" by (simp_all add: node_key_def)
  with MD5_digest_chain [of node_key] have d: "MD5_digest node_key =
      Inr (concat (map word_bytes [0x14CD0E62, 0xC173ECF8, 0xD51D69, 0x66F92CAD]))"
    by (simp add: node_key_words genDigest_def)
  have "word_bytes 0x14CD0E62 = rfc_bytes 0x14CD0E62" by (rule word_bytes_rfc) simp
  then have "length (word_bytes 0x14CD0E62) = 4" by (simp add: rfc_bytes_def)
  moreover have "length (word_bytes 0xD51D69) < 4" by (rule word_bytes_short) simp
  moreover have "length (word_bytes w) \<le> 4" for w
    using word_bytes_rfc [of w] word_bytes_short [of w] by (cases "2 ^ 24 \<le> uint w") (simp_all add: rfc_bytes_def)
  from this [of "0xC173ECF8"] this [of "0x66F92CAD"]
  have "length (word_bytes 0xC173ECF8) \<le> 4" "length (word_bytes 0x66F92CAD) \<le> 4" .
  ultimately show thesis by (intro that [OF d]) simp_all
qed

lemma sample_addr_key: "IPNetAddr_toString (sample_addr 12345) @ to_string 23 = node_key"
proof -
  have "to_string 12345 = ''12345''" "to_string 23 = ''23''" 
    by (simp_all add: to_string_def dec.simps digit_chars)
  then show ?thesis by (simp add: IPNetAddr_toString_def sample_addr_def IPNetAddr_of_ip_def node_key_def)
qed

text \<open>C28. A selector is built exactly when each of the forty digests of each address has all of its sixteen
  bytes; otherwise the constructor reads past the end of a digest.  For the address
  \<open>127.0.0.1:12345\<close> one digest is short, so the consistent-hash strategy faults on every list with
  this address, whatever the method and the request.\<close>

theorem selector_needs_full_digests:
  assumes "\<forall>a \<in> set addrs. length (IPNetAddr_toString a) < 268435000"
  shows "(if \<forall>a \<in> set addrs. \<forall>i \<in> {0..<40}. full_digest a i
          then \<exists>sel. selector_new addrs 160 identity = Inr sel
          else selector_new addrs 160 identity = Inl Out_Of_Bounds) \<and>
         (sample_addr 12345 \<in> set addrs \<and> smap_find selectors (m_method_name req) = None \<longrightarrow>
            consistent_select std_hash addrs req selectors = Inl Out_Of_Bounds)"
proof -
  note built = selector_new_faults [OF assms]
  have "\<not> full_digest (sample_addr 12345) 23"
    by (rule node_key_digest) (simp add: full_digest_def sample_addr_key)
  then have "\<not> (\<forall>a \<in> set addrs. \<forall>i \<in> {0..<40}. full_digest a i)" if "sample_addr 12345 \<in> set addrs"
    using that by (auto intro!: bexI [of _ "sample_addr 12345"] bexI [of _ "23 :: int"])
  with built [of "wrap32 (hashCode std_hash addrs)"]
  have "selector_new addrs 160 (wrap32 (hashCode std_hash addrs)) = Inl Out_Of_Bounds"
    if "sample_addr 12345 \<in> set addrs"
    using that by (simp split: if_splits)
  with built [of identity] show ?thesis by (simp add: consistent_select_def Let_def)
qed

theorem selector_needs_full_digests_witness:
  "consistent_select (\<lambda>_. 0) [sample_addr 12345] tinypb_new [] = Inl Out_Of_Bounds"
proof -
  have "length (IPNetAddr_toString (sample_addr 12345)) < 268435000"
    using arg_cong [OF sample_addr_key, of length] by (simp add: node_key_def)
  then show ?thesis using selector_needs_full_digests [of "[sample_addr 12345]"] by simp
qed

section \<open>Selectors stay\<close>

fun consistent_run ::
  "(string \<Rightarrow> int) \<Rightarrow> (ip_net_addr list \<times> tinypb) list \<Rightarrow> (string, selector) smap \<Rightarrow>
   (ip_net_addr list \<times> (string, selector) smap) res" where
  \<comment> \<open>selections in a row: the addresses chosen and the selectors\<close>
  "consistent_run std_hash [] selectors = Inr ([], selectors)"
| "consistent_run std_hash ((addrs, req) # calls) selectors =
     bind_res (consistent_select std_hash addrs req selectors) (\<lambda>(a, selectors).
     bind_res (consistent_run std_hash calls selectors) (\<lambda>(as, selectors). Inr (a # as, selectors)))"

lemma consistent_select_sticky:
  assumes "smap_ok selectors" and "smap_find selectors name = Some sel"
    and "consistent_select std_hash addrs req selectors = Inr (a, selectors')"
  shows "smap_ok selectors' \<and> smap_find selectors' name = Some sel \<and>
         (m_method_name req = name \<longrightarrow> selector_select (m_pb_data req) sel = Inr a)"
  using assms
  by (auto simp: consistent_select_def Let_def bind_res_eq_Inr smap_ok_insert smap_find_insert
      split: option.splits if_splits)

lemma selector_select_range:
  assumes "selector_select key sel = Inr a"
  shows "a \<in> snd ` set (virtualInvokers sel)"
proof -
  have "e \<in> set (virtualInvokers sel)"
    if "(case smap_lower_bound k (virtualInvokers sel) of None \<Rightarrow> smap_first (virtualInvokers sel) | e \<Rightarrow> e) = Some e" for k e
    using that by (auto simp: smap_lower_bound_def smap_first_def dest: find_in_set split: option.splits list.splits)
  moreover obtain k where "selectForKey k sel = Inr a"
    using assms by (auto simp: selector_select_def bind_res_eq_Inr)
  then obtain k' where "(case smap_lower_bound k (virtualInvokers sel) of
      None \<Rightarrow> smap_first (virtualInvokers sel) | e \<Rightarrow> e) = Some (k', a)"
    unfolding selectForKey_def by (auto split: option.splits)
  ultimately show ?thesis by force
qed

lemma place_replicas_range:
  "place_replicas a i m = Inr m' \<Longrightarrow> snd ` set m' \<subseteq> insert a (snd ` set m)"
proof -
  have assign: "snd ` set (smap_assign k a m) \<subseteq> insert a (snd ` set m)" for k m
    by (induction k a m rule: smap_assign.induct) auto
  assume "place_replicas a i m = Inr m'"
  then obtain d where "fold_res (\<lambda>h m. bind_res (selector_hash d h) (\<lambda>k. Inr (smap_assign k a m))) [0, 1, 2, 3] m = Inr m'"
    by (auto simp only: place_replicas_def bind_res_eq_Inr)
  then show ?thesis
    proof (rule fold_res_invariant)
    show "snd ` set v \<subseteq> insert a (snd ` set m)"
      if "snd ` set u \<subseteq> insert a (snd ` set m)" "bind_res (selector_hash d h) (\<lambda>k. Inr (smap_assign k a u)) = Inr v"
      for h u v
      using that assign by (fastforce simp only: bind_res_eq_Inr)
  qed (rule subset_insertI)
qed

lemma selector_new_range:
  assumes "selector_new addrs n identity = Inr sel"
  shows "snd ` set (virtualInvokers sel) \<subseteq> set addrs"
proof -
  obtain m where m: "fold_res (\<lambda>invoker. fold_res (place_replicas invoker) [0..n div 4 - 1]) addrs [] = Inr m"
    "virtualInvokers sel = m" using assms by (auto simp: selector_new_def bind_res_eq_Inr)
  have "snd ` set m \<subseteq> set addrs"
  proof (rule fold_res_invariant [OF m(1)])
    fix a u v assume a: "a \<in> set addrs" "snd ` set u \<subseteq> set addrs"
      and "fold_res (place_replicas a) [0..n div 4 - 1] u = Inr v"
    from this(3) show "snd ` set v \<subseteq> set addrs"
    proof (rule fold_res_invariant)
      show "snd ` set m' \<subseteq> set addrs" if "snd ` set m \<subseteq> set addrs" "place_replicas a i m = Inr m'" for i m m'
        using place_replicas_range [OF that(2)] that(1) a(1) by auto
    qed (rule a(2))
  qed simp
  with m(2) show ?thesis by simp
qed

text \<open>Once a method has a selector, that selector answers every later request for the method, whatever
  the list of servers then is: the choice depends only on the payload, and it is one of the servers
  the selector was built from.  The test for a changed list builds a new selector, which \<open>insert\<close>
  drops.\<close>

theorem selector_never_replaced:
  assumes "smap_ok selectors" and "smap_find selectors name = Some sel"
    and "consistent_run std_hash calls selectors = Inr (as, selectors')"
  shows "length as = length calls \<and> smap_find selectors' name = Some sel \<and>
         (\<forall>j < length calls. m_method_name (snd (calls ! j)) = name \<longrightarrow>
            selector_select (m_pb_data (snd (calls ! j))) sel = Inr (as ! j) \<and>
            (\<forall>built n identity. selector_new built n identity = Inr sel \<longrightarrow> as ! j \<in> set built))"
  using assms
proof (induction calls arbitrary: selectors as)
  case (Cons call calls)
  obtain addrs req where call: "call = (addrs, req)" by fastforce
  from Cons.prems(3) obtain a u bs where
    u: "consistent_select std_hash addrs req selectors = Inr (a, u)"
      "consistent_run std_hash calls u = Inr (bs, selectors')" "as = a # bs"
    by (auto simp: call bind_res_eq_Inr)
  note step = consistent_select_sticky [OF Cons.prems(1,2) u(1)]
  have "length bs = length calls \<and> smap_find selectors' name = Some sel \<and>
      (\<forall>j < length calls. m_method_name (snd (calls ! j)) = name \<longrightarrow>
         selector_select (m_pb_data (snd (calls ! j))) sel = Inr (bs ! j) \<and>
         (\<forall>built n identity. selector_new built n identity = Inr sel \<longrightarrow> bs ! j \<in> set built))"
    using Cons.IH [OF _ _ u(2)] step by blast
  moreover have "a \<in> set built"
    if "m_method_name req = name" "selector_new built n identity = Inr sel" for built n identity
    using selector_select_range selector_new_range [OF that(2)] step that(1) by blast
  ultimately show ?case
    using step by (auto simp: u(3) call nth_Cons split: nat.split)
qed simp

theorem selector_never_replaced_witness:
  "\<exists>st. consistent_run (\<lambda>_. 0) [([], tinypb_new\<lparr>m_method_name := ''f'', m_pb_data := node_key\<rparr>)]
      [(''f'', \<lparr>virtualInvokers = [(5, sample_addr 1)], identityHashCode = 0\<rparr>)] = Inr ([sample_addr 1], st) \<and>
     smap_find st ''f'' = Some \<lparr>virtualInvokers = [(5, sample_addr 1)], identityHashCode = 0\<rparr>"
proof -
  let ?sel = "\<lparr>virtualInvokers = [(5, sample_addr 1)], identityHashCode = 0\<rparr>"
  let ?calls = "[([], tinypb_new\<lparr>m_method_name := ''f'', m_pb_data := node_key\<rparr>)]"
  obtain d where d: "MD5_digest node_key = Inr d" "4 \<le> length d" by (rule node_key_digest)
  then obtain k where "selector_hash d 0 = Inr k" using selector_hash_range [of 0 d] by auto
  then have "selector_select node_key ?sel = Inr (sample_addr 1)"
    by (simp add: selector_select_def d selectForKey_def smap_lower_bound_def smap_first_def)
  then have run: "consistent_run (\<lambda>_. 0) ?calls [(''f'', ?sel)] = Inr ([sample_addr 1], [(''f'', ?sel)])"
    by (simp add: consistent_select_def Let_def selector_new_def hashCode_def to_size_def)
  have "smap_find [(''f'', ?sel)] ''f'' = Some ?sel"
    using selector_never_replaced [OF _ _ run, of "''f''" ?sel] by (simp add: smap_ok_def)
  with run show ?thesis by blast
qed

end
