(* ===== verification/Config.thy ===== *)
theory Config
  imports Net_Addr Std_Map
begin

text \<open>
  \<open>common/config.{h,cc}\<close>: the configuration of the process, read from an XML file.  The document is
  TinyXML's: its functions are the fields of an argument.  A missing node ends the process
  (\<open>exit(0)\<close> after a message that names the node); that and a fault are outcomes of \<open>Config_Init\<close>.
\<close>

section \<open>State\<close>

record rpc_stub =
  st_name :: string
  st_addr :: "ip_net_addr option"
  st_timeout :: int

record config =
  cf_log_level :: string
  cf_log_file_name :: string
  cf_log_file_path :: string
  cf_log_max_file_size :: int
  cf_log_sync_interval :: int
  cf_ip :: string
  cf_port :: int
  cf_io_threads :: int
  cf_rpc_stubs :: "(string, rpc_stub) smap"
  cf_zk_ip :: string
  cf_zk_port :: string

definition config_new :: config where
  "config_new = \<lparr>cf_log_level = ''DEBUG'', cf_log_file_name = [], cf_log_file_path = [],
     cf_log_max_file_size = 0, cf_log_sync_interval = 0, cf_ip = [], cf_port = 0, cf_io_threads = 0,
     cf_rpc_stubs = [], cf_zk_ip = ''127.0.0.1'', cf_zk_port = ''0''\<rparr>"

record 'e xml =
  xm_load :: "string \<Rightarrow> 'e option"           \<comment> \<open>\<open>LoadFile\<close>\<close>
  xm_children :: "'e \<Rightarrow> string \<Rightarrow> 'e list"
    \<comment> \<open>the elements of a name: \<open>FirstChildElement\<close> is the first of them, \<open>NextSiblingElement\<close> goes on\<close>
  xm_text :: "'e \<Rightarrow> string option"           \<comment> \<open>\<open>GetText\<close>\<close>

datatype 'a start = Exits string \<comment> \<open>the node that could not be read, or what failed\<close> | Faults fault | Starts 'a

definition bind_start :: "'a start \<Rightarrow> ('a \<Rightarrow> 'b start) \<Rightarrow> 'b start" where
  "bind_start m f = (case m of Exits s \<Rightarrow> Exits s | Faults e \<Rightarrow> Faults e | Starts x \<Rightarrow> f x)"

definition lift_start :: "'a res \<Rightarrow> 'a start" where
  "lift_start r = (case r of Inl e \<Rightarrow> Faults e | Inr x \<Rightarrow> Starts x)"

lemma bind_start_simps [simp]:
  "bind_start (Exits s) f = Exits s" "bind_start (Faults e) f = Faults e" "bind_start (Starts x) f = f x"
  by (simp_all add: bind_start_def)

lemma lift_start_simps [simp]: "lift_start (Inl e) = Faults e" "lift_start (Inr x) = Starts x"
  by (simp_all add: lift_start_def)

lemma bind_start_Starts: "bind_start m f = Starts y \<longleftrightarrow> (\<exists>x. m = Starts x \<and> f x = Starts y)"
  by (cases m) simp_all

lemma lift_start_Starts: "lift_start r = Starts x \<longleftrightarrow> r = Inr x"
  by (cases r) simp_all

section \<open>Reading\<close>

definition first_child :: "'e xml \<Rightarrow> 'e \<Rightarrow> string \<Rightarrow> 'e option" where
  "first_child xml parent name = (case xm_children xml parent name of [] \<Rightarrow> None | e # _ \<Rightarrow> Some e)"

definition READ_XML_NODE :: "'e xml \<Rightarrow> string \<Rightarrow> 'e \<Rightarrow> 'e start" where
  "READ_XML_NODE xml name parent =
     (case first_child xml parent name of None \<Rightarrow> Exits name | Some e \<Rightarrow> Starts e)"

definition READ_STR_FROM_XML_NODE :: "'e xml \<Rightarrow> string \<Rightarrow> 'e \<Rightarrow> string start" where
  "READ_STR_FROM_XML_NODE xml name parent =
     (case first_child xml parent name of None \<Rightarrow> Exits name
      | Some e \<Rightarrow> (case xm_text xml e of None \<Rightarrow> Exits name | Some s \<Rightarrow> Starts s))"

definition child_text :: "'e xml \<Rightarrow> 'e \<Rightarrow> string \<Rightarrow> string res" where
  \<comment> \<open>\<open>node->FirstChildElement(name)->GetText()\<close>, given to \<open>std::string\<close> or \<open>atoi\<close>\<close>
  "child_text xml node name =
     (case first_child xml node name of None \<Rightarrow> Inl Null_Deref
      | Some e \<Rightarrow> (case xm_text xml e of None \<Rightarrow> Inl Null_Deref | Some s \<Rightarrow> Inr s))"

definition read_stub :: "(string \<Rightarrow> 32 word) \<Rightarrow> 'e xml \<Rightarrow> 'e \<Rightarrow> rpc_stub res" where
  \<comment> \<open>one turn of the loop over the \<open>rpc_server\<close> nodes; the port is cut to 16 bits\<close>
  "read_stub inet_addr xml node =
     bind_res (child_text xml node ''name'') (\<lambda>name.
     bind_res (child_text xml node ''timeout'') (\<lambda>t.
     bind_res (atoi t) (\<lambda>timeout.
     bind_res (child_text xml node ''ip'') (\<lambda>ip.
     bind_res (child_text xml node ''port'') (\<lambda>p.
     bind_res (atoi p) (\<lambda>port.
     Inr \<lparr>st_name = name, st_addr = Some (IPNetAddr_of_ip inet_addr ip (port mod 65536)),
          st_timeout = timeout\<rparr>))))))"

definition read_stubs ::
  "(string \<Rightarrow> 32 word) \<Rightarrow> 'e xml \<Rightarrow> 'e list \<Rightarrow> (string, rpc_stub) smap \<Rightarrow> (string, rpc_stub) smap res" where
  "read_stubs inet_addr xml =
     fold_res (\<lambda>node stubs. bind_res (read_stub inet_addr xml node) (\<lambda>stub. Inr (smap_insert (st_name stub) stub stubs)))"

definition Config_Init :: "(string \<Rightarrow> 32 word) \<Rightarrow> 'e xml \<Rightarrow> string \<Rightarrow> config \<Rightarrow> config start" where
  "Config_Init inet_addr xml xmlfile c =
     (case xm_load xml xmlfile of None \<Rightarrow> Exits xmlfile | Some doc \<Rightarrow>
     bind_start (READ_XML_NODE xml ''root'' doc) (\<lambda>root_node.
     bind_start (READ_XML_NODE xml ''log'' root_node) (\<lambda>log_node.
     bind_start (READ_XML_NODE xml ''server'' root_node) (\<lambda>server_node.
     bind_start (READ_XML_NODE xml ''zk_config'' root_node) (\<lambda>zk_config_node.
     bind_start (READ_STR_FROM_XML_NODE xml ''log_level'' log_node) (\<lambda>log_level_str.
     bind_start (READ_STR_FROM_XML_NODE xml ''log_file_name'' log_node) (\<lambda>log_file_name_str.
     bind_start (READ_STR_FROM_XML_NODE xml ''log_file_path'' log_node) (\<lambda>log_file_path_str.
     bind_start (READ_STR_FROM_XML_NODE xml ''log_max_file_size'' log_node) (\<lambda>log_max_file_size_str.
     bind_start (READ_STR_FROM_XML_NODE xml ''log_sync_interval'' log_node) (\<lambda>log_sync_interval_str.
     bind_start (lift_start (atoi log_max_file_size_str)) (\<lambda>max_size.
     bind_start (lift_start (atoi log_sync_interval_str)) (\<lambda>interval.
     bind_start (READ_STR_FROM_XML_NODE xml ''ip'' server_node) (\<lambda>ip_str.
     bind_start (READ_STR_FROM_XML_NODE xml ''port'' server_node) (\<lambda>port_str.
     bind_start (READ_STR_FROM_XML_NODE xml ''io_threads'' server_node) (\<lambda>io_threads_str.
     bind_start (lift_start (atoi port_str)) (\<lambda>port.
     bind_start (lift_start (atoi io_threads_str)) (\<lambda>io_threads.
     bind_start (READ_STR_FROM_XML_NODE xml ''zk_ip'' zk_config_node) (\<lambda>zk_ip_str.
     bind_start (READ_STR_FROM_XML_NODE xml ''zk_port'' zk_config_node) (\<lambda>zk_port_str.
     bind_start (lift_start (case first_child xml root_node ''stubs'' of
         None \<Rightarrow> Inr (cf_rpc_stubs c)
       | Some stubs_node \<Rightarrow> read_stubs inet_addr xml (xm_children xml stubs_node ''rpc_server'') (cf_rpc_stubs c))) (\<lambda>stubs.
     Starts \<lparr>cf_log_level = log_level_str, cf_log_file_name = log_file_name_str, cf_log_file_path = log_file_path_str,
       cf_log_max_file_size = max_size, cf_log_sync_interval = interval, cf_ip = ip_str, cf_port = port,
       cf_io_threads = io_threads, cf_rpc_stubs = stubs, cf_zk_ip = zk_ip_str, cf_zk_port = zk_port_str\<rparr>))))))))))))))))))))"

section \<open>The stubs\<close>

lemma read_stubs_find:
  assumes "read_stubs inet_addr xml nodes m = Inr m'" and "smap_ok m"
  shows "smap_ok m' \<and> (\<exists>stubs. map (read_stub inet_addr xml) nodes = map Inr stubs \<and>
    (\<forall>k. smap_find m' k = (case smap_find m k of Some s \<Rightarrow> Some s | None \<Rightarrow> find (\<lambda>s. st_name s = k) stubs)))"
  using assms
proof (induction nodes arbitrary: m)
  case (Cons node nodes)
  from Cons.prems(1) obtain s where s: "read_stub inet_addr xml node = Inr s"
    "read_stubs inet_addr xml nodes (smap_insert (st_name s) s m) = Inr m'"
    by (auto simp: read_stubs_def bind_res_eq_Inr)
  from Cons.IH [OF s(2) smap_ok_insert [OF Cons.prems(2)]] obtain stubs where
    "smap_ok m'" "map (read_stub inet_addr xml) nodes = map Inr stubs"
    "\<forall>k. smap_find m' k = (case smap_find (smap_insert (st_name s) s m) k of
       Some s \<Rightarrow> Some s | None \<Rightarrow> find (\<lambda>s. st_name s = k) stubs)" by blast
  with s(1) smap_find_insert [OF Cons.prems(2), of "st_name s" s] show ?case
    by (intro conjI exI [of _ "s # stubs"]) (auto split: option.split)
qed (simp add: read_stubs_def split: option.split)

end
