(* ===== verification/Tcp_Client.thy ===== *)
theory Tcp_Client
  imports Tcp_Connection
begin

text \<open>
  \<open>net/tcp/tcp_client.{h,cc}\<close>: the connecting end of a connection.  The client object and the rest of
  the process it reaches (the socket, and whatever its callbacks work on) are the environment of the
  connection's world.  The system calls are arguments acting on that environment.
\<close>

section \<open>State\<close>

record tcp_client =
  cl_peer_addr :: ip_net_addr
  cl_local_addr :: "ip_net_addr option"
  cl_fd :: int
  cl_connect_error_code :: int
  cl_connect_error_info :: string

record 'e client_env =
  ce_client :: tcp_client
  ce_rest :: 'e

type_synonym ('d, 'e) client_world = "('d, 'e client_env) conn_world"

datatype connect_ret = Connect_Ok | Connect_Errno int

record 'e client_sys =
  sys_connect :: "int \<Rightarrow> sockaddr_in option \<Rightarrow> 'e \<Rightarrow> connect_ret \<times> 'e"
  sys_socket :: "'e \<Rightarrow> int \<times> 'e"
  sys_close :: "int \<Rightarrow> 'e \<Rightarrow> 'e"
  sys_getsockname :: "int \<Rightarrow> 'e \<Rightarrow> sockaddr_in option"    \<comment> \<open>\<open>None\<close> is an error\<close>
  sys_strerror :: "int \<Rightarrow> string"
  sys_inet_ntoa :: "32 word \<Rightarrow> string"

abbreviation EINPROGRESS :: int where "EINPROGRESS \<equiv> 115"
abbreviation EISCONN :: int where "EISCONN \<equiv> 106"
abbreviation ECONNREFUSED :: int where "ECONNREFUSED \<equiv> 111"
abbreviation EALREADY :: int where "EALREADY \<equiv> 114"

abbreviation client_of :: "('d, 'e) client_world \<Rightarrow> tcp_client" where
  "client_of w \<equiv> ce_client (cw_sock w)"

abbreviation rest_of :: "('d, 'e) client_world \<Rightarrow> 'e" where
  "rest_of w \<equiv> ce_rest (cw_sock w)"

definition with_client :: "(tcp_client \<Rightarrow> tcp_client) \<Rightarrow> ('d, 'e) client_world \<Rightarrow> ('d, 'e) client_world" where
  "with_client f w = w\<lparr>cw_sock := (cw_sock w)\<lparr>ce_client := f (client_of w)\<rparr>\<rparr>"

definition with_rest :: "('e \<Rightarrow> 'e) \<Rightarrow> ('d, 'e) client_world \<Rightarrow> ('d, 'e) client_world" where
  "with_rest f w = w\<lparr>cw_sock := (cw_sock w)\<lparr>ce_rest := f (rest_of w)\<rparr>\<rparr>"

section \<open>Operations\<close>

definition TcpClient_new ::
  "ip_net_addr \<Rightarrow> int \<Rightarrow> fd_event \<Rightarrow> event_loop \<Rightarrow> int \<Rightarrow> run_time option \<Rightarrow> 'e \<Rightarrow> ('d, 'e) client_world option res" where
  \<comment> \<open>\<open>fd\<close> is the result of \<open>socket\<close>, \<open>event\<close> is \<open>getFdEvent(fd)\<close>; with \<open>None\<close> the client has neither
      a connection nor an \<open>FdEvent\<close>\<close>
  "TcpClient_new peer_addr fd event eventloop tid rt rest =
     (if fd < 0 then Inr None
      else bind_res (TcpConnection_new eventloop fd 128 (Some peer_addr) None TcpConnectionByClient event tid rt
                       \<lparr>ce_client = \<lparr>cl_peer_addr = peer_addr, cl_local_addr = None, cl_fd = fd,
                          cl_connect_error_code = 0, cl_connect_error_info = []\<rparr>, ce_rest = rest\<rparr>) (\<lambda>w.
           Inr (Some (setConnectionType TcpConnectionByClient w))))"

definition initLocalAddr :: "'e client_sys \<Rightarrow> ('d, 'e) client_world \<Rightarrow> ('d, 'e) client_world" where
  "initLocalAddr sys w =
     (case sys_getsockname sys (cl_fd (client_of w)) (rest_of w) of
        None \<Rightarrow> w
      | Some a \<Rightarrow> with_client (cl_local_addr_update (\<lambda>_. Some (IPNetAddr_of_sockaddr (sys_inet_ntoa sys) a))) w)"

definition call_connect :: "'e client_sys \<Rightarrow> ('d, 'e) client_world \<Rightarrow> connect_ret \<times> ('d, 'e) client_world" where
  \<comment> \<open>\<open>::connect(m_fd, m_peer_addr->getSockAddr(), m_peer_addr->getSockLen())\<close>\<close>
  "call_connect sys w =
     (let (rt, e) = sys_connect sys (cl_fd (client_of w)) (getSockAddr (cl_peer_addr (client_of w))) (rest_of w)
      in (rt, with_rest (\<lambda>_. e) w))"

definition set_connect_error :: "int \<Rightarrow> string \<Rightarrow> ('d, 'e) client_world \<Rightarrow> ('d, 'e) client_world" where
  "set_connect_error code info =
     with_client (\<lambda>c. c\<lparr>cl_connect_error_code := code, cl_connect_error_info := info\<rparr>)"

definition connect_outcome :: "'e client_sys \<Rightarrow> ('d, 'e) client_world \<Rightarrow> ('d, 'e) client_world" where
  \<comment> \<open>the write handler that \<open>connect\<close> installs, as far as the call of \<open>done\<close>; the descriptor it
      reopens is not registered again\<close>
  "connect_outcome sys w =
     (let (rt, w) = call_connect sys w;
          w = (case rt of
                 Connect_Ok \<Rightarrow> setState Connected (initLocalAddr sys w)
               | Connect_Errno errno \<Rightarrow>
                   if errno = EISCONN then setState Connected (initLocalAddr sys w)
                   else let w = (if errno = ECONNREFUSED
                              then set_connect_error ERROR_PEER_CLOSED
                                     (''connect refused, sys error = '' @ sys_strerror sys errno) w
                              else set_connect_error ERROR_FAILED_CONNECT
                                     (''connect unkonwn error, sys error ='' @ sys_strerror sys errno) w);
                            w = with_rest (sys_close sys (cl_fd (client_of w))) w;
                            (fd, e) = sys_socket sys (rest_of w)
                        in with_client (cl_fd_update (\<lambda>_. fd)) (with_rest (\<lambda>_. e) w))
      in w\<lparr>cw_loop := deleteEpollEvent (cw_tid w) (cw_fd_event w) (cw_loop w)\<rparr>)"

definition connect_ready ::
  "'e client_sys \<Rightarrow> (('d, 'e) client_world \<Rightarrow> ('d, 'e) client_world res option) option \<Rightarrow>
   ('d, 'e) client_world \<Rightarrow> ('d, 'e) client_world res option" where
  "connect_ready sys done_cb w =
     (let w = connect_outcome sys w in case done_cb of None \<Rightarrow> Some (Inr w) | Some d \<Rightarrow> d w)"

definition TcpClient_connect ::
  "'e client_sys \<Rightarrow> (('d, 'e) client_world \<Rightarrow> ('d, 'e) client_world res option) \<Rightarrow>
   (('d, 'e) client_world \<Rightarrow> ('d, 'e) client_world res option) option \<Rightarrow>
   ('d, 'e) client_world \<Rightarrow> ('d, 'e) client_world res option" where
  \<comment> \<open>\<open>loop\<close> is what \<open>m_eventloop->loop()\<close> does\<close>
  "TcpClient_connect sys loop done_cb w =
     (let (rt, w) = call_connect sys w; run_done = (\<lambda>w. case done_cb of None \<Rightarrow> Some (Inr w) | Some d \<Rightarrow> d w)
      in case rt of
           Connect_Ok \<Rightarrow> run_done (initLocalAddr sys (setState Connected w))
         | Connect_Errno errno \<Rightarrow>
             if errno = EINPROGRESS
             then let w = update_epoll (w\<lparr>cw_fd_event :=
                        fd_listen OUT_EVENT (Some (TcpClient_onConnect (tc_fd (cw_conn w)))) None (cw_fd_event w)\<rparr>)
                  in if el_is_looping (cw_loop w) then Some (Inr w) else loop w
             else run_done (set_connect_error ERROR_FAILED_CONNECT
                              (''connect error, sys error = '' @ sys_strerror sys errno) w))"

definition TcpClient_stop :: "('d, 'e) client_world \<Rightarrow> ('d, 'e) client_world" where
  "TcpClient_stop w = (if el_is_looping (cw_loop w) then w\<lparr>cw_loop := EventLoop_stop (cw_loop w)\<rparr> else w)"

definition writeMessage :: "tinypb \<Rightarrow> 'd \<Rightarrow> ('d, 'e) client_world \<Rightarrow> ('d, 'e) client_world" where
  "writeMessage message done_cb w = listenWrite (pushSendMessage message done_cb w)"

definition readMessage :: "string \<Rightarrow> 'd \<Rightarrow> ('d, 'e) client_world \<Rightarrow> ('d, 'e) client_world" where
  "readMessage msg_id done_cb w = listenRead (pushReadMessage msg_id done_cb w)"

definition getConnectErrorCode :: "('d, 'e) client_world \<Rightarrow> int" where
  "getConnectErrorCode w = cl_connect_error_code (client_of w)"

definition getConnectErrorInfo :: "('d, 'e) client_world \<Rightarrow> string" where
  "getConnectErrorInfo w = cl_connect_error_info (client_of w)"

definition TcpClient_addTimerEvent :: "clock \<Rightarrow> nat \<Rightarrow> ('d, 'e) client_world \<Rightarrow> ('d, 'e) client_world" where
  "TcpClient_addTimerEvent clock event w = w\<lparr>cw_loop := EventLoop_addTimerEvent clock event (cw_loop w)\<rparr>"

section \<open>Frames\<close>

lemma with_client_simps [simp]:
  "client_of (with_client f w) = f (client_of w)" "rest_of (with_client f w) = rest_of w"
  "cw_conn (with_client f w) = cw_conn w" "cw_loop (with_client f w) = cw_loop w"
  "cw_fd_event (with_client f w) = cw_fd_event w" "cw_tid (with_client f w) = cw_tid w"
  by (simp_all add: with_client_def)

lemma with_rest_simps [simp]:
  "client_of (with_rest g w) = client_of w" "rest_of (with_rest g w) = g (rest_of w)"
  "cw_conn (with_rest g w) = cw_conn w" "cw_loop (with_rest g w) = cw_loop w"
  "cw_fd_event (with_rest g w) = cw_fd_event w" "cw_tid (with_rest g w) = cw_tid w"
  by (simp_all add: with_rest_def)

lemma setState_simps [simp]:
  "cw_sock (setState s w) = cw_sock w" "cw_loop (setState s w) = cw_loop w" "cw_tid (setState s w) = cw_tid w"
  "cw_fd_event (setState s w) = cw_fd_event w" "cw_conn (setState s w) = (cw_conn w)\<lparr>tc_state := Connected\<rparr>"
  by (simp_all add: setState_def)

lemma initLocalAddr_simps [simp]:
  "rest_of (initLocalAddr sys w) = rest_of w" "cw_conn (initLocalAddr sys w) = cw_conn w"
  "cw_loop (initLocalAddr sys w) = cw_loop w" "cw_tid (initLocalAddr sys w) = cw_tid w"
  "cw_fd_event (initLocalAddr sys w) = cw_fd_event w"
  "cl_connect_error_code (client_of (initLocalAddr sys w)) = cl_connect_error_code (client_of w)"
  "cl_connect_error_info (client_of (initLocalAddr sys w)) = cl_connect_error_info (client_of w)"
  by (simp_all add: initLocalAddr_def split: option.split)

lemma listenRead_conn [simp]:
  "cw_conn (listenRead w) = cw_conn w" "cw_sock (listenRead w) = cw_sock w"
  "cw_tid (listenRead w) = cw_tid w" "cw_run_time (listenRead w) = cw_run_time w"
  by (simp_all add: listenRead_def update_epoll_def)

section \<open>What the handlers of a client keep\<close>

text \<open>
  A property of the environment that the system calls and the callbacks keep is kept by \<open>onRead\<close> and
  \<open>onWrite\<close> of a client, whatever arrives and however the loops of these functions run.
\<close>

abbreviation by_client :: "('d, 'k) conn_world \<Rightarrow> bool" where
  "by_client w \<equiv> tc_connection_type (cw_conn w) = TcpConnectionByClient"

locale client_invariant =
  fixes kept :: "'k \<Rightarrow> bool" and sread :: "'k sys_read" and swrite :: "'k sys_write"
    and run :: "('d, 'k) sys_run"
  assumes kept_read: "kept k \<Longrightarrow> kept (snd (sread k n))"
    and kept_write: "kept k \<Longrightarrow> kept (snd (swrite k bs))"
    and kept_run: "kept (cw_sock w) \<Longrightarrow> by_client w \<Longrightarrow> run d m w = Some (Inr w') \<Longrightarrow> kept (cw_sock w') \<and> by_client w'"
begin

lemma read_loop_kept:
  assumes "read_loop sread b k = Some (Inr (all, close, b', k'))" and "kept k"
  shows "kept k'"
  by (rule read_loop_invariant [where P = "\<lambda>b k. kept k", OF assms]) (auto intro: kept_read)

lemma write_loop_kept:
  assumes "write_loop swrite b k = Some (Inr (all, k'))" and "kept k"
  shows "kept k'"
proof -
  have "sw = swrite \<longrightarrow> kept k \<longrightarrow> (case r of Inl e \<Rightarrow> True | Inr (all, k') \<Rightarrow> kept k')"
    if "write_loop sw b k = Some r" for sw b k r
  proof (rule write_loop.raw_induct [OF _ that])
    fix loop :: "'k sys_write \<Rightarrow> tcp_buffer \<Rightarrow> 'k \<Rightarrow> (bool \<times> 'k) res option"
    fix sw b k r
    assume IH: "\<And>sw b k r. loop sw b k = Some r \<Longrightarrow>
        sw = swrite \<longrightarrow> kept k \<longrightarrow> (case r of Inl e \<Rightarrow> True | Inr (all, k') \<Rightarrow> kept k')"
    assume eq: "(if readAble b = 0 then Some (Inr (True, k))
      else let write_size = readAble b; read_index = readIndex b in
        case read_bytes (m_buffer b) read_index write_size of
           Inl e \<Rightarrow> Some (Inl e)
         | Inr bs \<Rightarrow>
             (case sw k bs of
                (Wrote rt, k) \<Rightarrow> if rt \<ge> write_size then Some (Inr (True, k)) else loop sw b k
              | (Write_Again, k) \<Rightarrow> Some (Inr (False, k))
              | (Write_Fail, k) \<Rightarrow> loop sw b k)) = Some r"
    show "sw = swrite \<longrightarrow> kept k \<longrightarrow> (case r of Inl e \<Rightarrow> True | Inr (all, k') \<Rightarrow> kept k')"
    proof (intro impI)
      assume sw: "sw = swrite" and k: "kept k"
      show "case r of Inl e \<Rightarrow> True | Inr (all, k') \<Rightarrow> kept k'"
      proof (cases "read_bytes (m_buffer b) (readIndex b) (readAble b)")
        case (Inr bs)
        obtain wr k1 where wr: "swrite k bs = (wr, k1)" by fastforce
        with kept_write [OF k, of bs] have k1: "kept k1" by simp
        have step: "loop swrite b k1 = Some r \<Longrightarrow> case r of Inl e \<Rightarrow> True | Inr (all, k') \<Rightarrow> kept k'"
          using IH k1 by blast
        show ?thesis
          using eq k k1 step unfolding Let_def Inr sw
          by (auto simp: wr split: write_ret.splits if_splits)
      qed (use eq k in \<open>auto simp: Let_def split: if_splits\<close>)
    qed
  qed
  with assms show ?thesis by fastforce
qed

lemma run_write_dones_kept:
  assumes "run_write_dones run i w = Some (Inr w')" and "kept (cw_sock w)" and "by_client w"
  shows "kept (cw_sock w') \<and> by_client w'"
  by (rule run_write_dones_invariant [where P = "\<lambda>w. kept (cw_sock w) \<and> by_client w", OF assms(1)])
    (use assms(2,3) kept_run in blast)+

lemma run_read_dones_kept:
  assumes "run_read_dones run ms w = Some (Inr w')" and "kept (cw_sock w)" and "by_client w"
  shows "kept (cw_sock w') \<and> by_client w'"
proof (rule run_read_dones_invariant [where P = "\<lambda>w. kept (cw_sock w) \<and> by_client w", OF assms(1)])
  show "kept (cw_sock w) \<and> by_client w" using assms(2,3) by simp
next
  fix d m u u'
  assume "kept (cw_sock u) \<and> by_client u" "run d m u = Some (Inr u')"
  then have "kept (cw_sock u') \<and> by_client u'" using kept_run by blast
  then show "kept (cw_sock (with_conn (tc_read_dones_update (smap_erase (m_msg_id m))) u')) \<and>
      by_client (with_conn (tc_read_dones_update (smap_erase (m_msg_id m))) u')" by simp
qed

lemma onRead_kept:
  assumes "onRead sread run services w = Some (Inr w')" and "kept (cw_sock w)" and "by_client w"
  shows "kept (cw_sock w') \<and> by_client w'"
proof (cases "tc_state (cw_conn w) = Connected")
  case True
  with assms(1) obtain all close b k where k: "read_loop sread (tc_in_buffer (cw_conn w)) (cw_sock w) = Some (Inr (all, close, b, k))"
    and w': "(let w = (with_conn (tc_in_buffer_update (\<lambda>_. b)) w)\<lparr>cw_sock := k\<rparr> in
        if close then Some (Inr (TcpConnection_clear w)) else excute run services w) = Some (Inr w')"
    by (auto simp: onRead_def bind_ro_def split: option.splits sum.splits)
  have "kept k" by (rule read_loop_kept [OF k assms(2)])
  show ?thesis
  proof (cases close)
    case True
    with w' \<open>kept k\<close> assms(3) show ?thesis by (auto simp: TcpConnection_clear_def Let_def)
  next
    case False
    with w' assms(3) obtain ms in_buffer where
      "run_read_dones run ms (w\<lparr>cw_sock := k, cw_conn := (cw_conn w)\<lparr>tc_in_buffer := in_buffer\<rparr>\<rparr>) = Some (Inr w')"
      by (auto simp: excute_def bind_ro_def Let_def split: option.splits sum.splits)
    from run_read_dones_kept [OF this] \<open>kept k\<close> assms(3) show ?thesis by simp
  qed
qed (use assms in \<open>simp add: onRead_def\<close>)

lemma onWrite_kept:
  assumes "onWrite swrite run w = Some (Inr w')" and "kept (cw_sock w)" and "by_client w"
  shows "kept (cw_sock w') \<and> by_client w'"
proof (cases "tc_state (cw_conn w) = Connected")
  case True
  let ?ds = "tc_write_dones (cw_conn w)"
  from True assms(1,3) obtain msgs b where enc: "TinyPBCoder_encode (map fst ?ds) (tc_out_buffer (cw_conn w)) = Inr (msgs, b)"
    by (cases "TinyPBCoder_encode (map fst ?ds) (tc_out_buffer (cw_conn w))") (auto simp: onWrite_def)
  let ?c = "(cw_conn w)\<lparr>tc_out_buffer := b, tc_write_dones := zip msgs (map snd ?ds)\<rparr>"
  from True assms(1,3) enc obtain all k where wl: "write_loop swrite b (cw_sock w) = Some (Inr (all, k))"
    by (auto simp: onWrite_def bind_ro_def split: option.splits sum.splits)
  define u where "u = (let v = (w\<lparr>cw_conn := ?c\<rparr>)\<lparr>cw_sock := k\<rparr> in
      if all then update_epoll (v\<lparr>cw_fd_event := fd_cancle OUT_EVENT (cw_fd_event v)\<rparr>) else v)"
  have u: "kept (cw_sock u) \<and> by_client u"
    using write_loop_kept [OF wl assms(2)] assms(3) by (simp add: u_def update_epoll_def Let_def)
  from True assms(1,3) have "bind_ro (run_write_dones run 0 u) (\<lambda>w.
      Some (Inr (with_conn (tc_write_dones_update (\<lambda>_. [])) w))) = Some (Inr w')"
    unfolding onWrite_def u_def by (auto simp: enc wl Let_def update_epoll_def split: if_splits)
  then obtain v where "run_write_dones run 0 u = Some (Inr v)" "w' = with_conn (tc_write_dones_update (\<lambda>_. [])) v"
    by (auto simp: bind_ro_def split: option.splits sum.splits)
  with run_write_dones_kept u show ?thesis by auto
qed (use assms in \<open>simp add: onWrite_def\<close>)

end

section \<open>One message each way\<close>

text \<open>What is left to do when a client has exactly one message to write, and when one awaited
  response has arrived, in one copy or several: the function registered for it runs in the world named here.\<close>

lemma onWrite_one:
  assumes "accepting_socket sys_write sent_bytes" and "out_ok w" and "tc_state (cw_conn w) = Connected"
    and "by_client w" and "tc_write_dones (cw_conn w) = [(m, d)]" and "packet_length (with_msg_id m) \<le> out_room w"
  obtains b k where "contents b = out_bytes w @ packet (with_msg_id m)" and "buf_inv b"
    and "write_loop sys_write b (cw_sock w) = Some (Inr (True, k))" and "sent_bytes k = sent_bytes (cw_sock w) @ contents b"
    and "onWrite sys_write run w =
      bind_ro (run d (sent m) (update_epoll (w\<lparr>cw_conn := (cw_conn w)\<lparr>tc_out_buffer := b, tc_write_dones := [(sent m, d)]\<rparr>,
          cw_sock := k, cw_fd_event := fd_cancle OUT_EVENT (cw_fd_event w)\<rparr>))) (\<lambda>w.
      bind_ro (run_write_dones run 1 w) (\<lambda>w. Some (Inr (with_conn (tc_write_dones_update (\<lambda>_. [])) w))))"
proof -
  have "cost [m] \<le> out_room w" using assms(6) by simp
  from encode_in_world [OF assms(2) this] obtain b where
    b: "TinyPBCoder_encode [m] (tc_out_buffer (cw_conn w)) = Inr ([sent m], b)" "buf_inv b"
      "contents b = out_bytes w @ packet (with_msg_id m)" by auto
  from write_loop_accepted [OF assms(1) b(2), of "cw_sock w"] obtain k where
    k: "write_loop sys_write b (cw_sock w) = Some (Inr (True, k))" "sent_bytes k = sent_bytes (cw_sock w) @ contents b"
    by blast
  let ?w = "update_epoll (w\<lparr>cw_conn := (cw_conn w)\<lparr>tc_out_buffer := b, tc_write_dones := [(sent m, d)]\<rparr>,
          cw_sock := k, cw_fd_event := fd_cancle OUT_EVENT (cw_fd_event w)\<rparr>)"
  have "run_write_dones run 0 ?w = bind_ro (run d (sent m) ?w) (run_write_dones run 1)"
    by (subst run_write_dones.simps) (simp add: update_epoll_def bind_ro_def split: option.split sum.split)
  then have "onWrite sys_write run w = bind_ro (bind_ro (run d (sent m) ?w) (run_write_dones run 1)) (\<lambda>w.
      Some (Inr (with_conn (tc_write_dones_update (\<lambda>_. [])) w)))"
    using assms(3-5) b(1) k(1) by (simp add: onWrite_def update_epoll_def)
  also have "\<dots> = bind_ro (run d (sent m) ?w) (\<lambda>w.
      bind_ro (run_write_dones run 1 w) (\<lambda>w. Some (Inr (with_conn (tc_write_dones_update (\<lambda>_. [])) w))))"
    by (simp add: bind_ro_def split: option.split sum.split)
  finally show thesis by (rule that [OF b(3,2) k])
qed

lemma run_read_dones_answered:
  "smap_find (tc_read_dones (cw_conn w)) (m_msg_id m) = None \<Longrightarrow> run_read_dones run (replicate n m) w = Some (Inr w)"
  by (induction n) simp_all

lemma onRead_copies:
  assumes "arrives sys_read stream w (replicate (Suc n) r) []" and "by_client w"
    and "smap_find (tc_read_dones (cw_conn w)) (m_msg_id (with_msg_id r)) = Some d"
  obtains b b' k where "read_loop sys_read (tc_in_buffer (cw_conn w)) (cw_sock w) = Some (Inr (True, False, b', k))"
    and "contents b = []" and "stream k = []"
    and "onRead sys_read run services w =
      bind_ro (run d (received r) (w\<lparr>cw_sock := k, cw_conn := (cw_conn w)\<lparr>tc_in_buffer := b\<rparr>\<rparr>)) (\<lambda>w.
      Some (Inr (with_conn (tc_read_dones_update (smap_erase (m_msg_id (with_msg_id r)))) w)))"
proof -
  obtain b' b k where b: "read_loop sys_read (tc_in_buffer (cw_conn w)) (cw_sock w) = Some (Inr (True, False, b', k))"
    "stream k = []" "TinyPBCoder_decode [] b' = Some (Inr (replicate (Suc n) (received r), b))" "contents b = []"
    using arrives_read [OF assms(1)] by (metis map_replicate)
  have id: "m_msg_id (received r) = m_msg_id (with_msg_id r)" by (simp add: received_def sent_def)
  have rest: "run_read_dones run (replicate n (received r)) (with_conn (tc_read_dones_update (smap_erase (m_msg_id (with_msg_id r)))) u) =
      Some (Inr (with_conn (tc_read_dones_update (smap_erase (m_msg_id (with_msg_id r)))) u))" for u
    by (rule run_read_dones_answered) (simp add: id smap_find_erase)
  show thesis
  proof (rule that [OF b(1,4,2)])
    show "onRead sys_read run services w =
      bind_ro (run d (received r) (w\<lparr>cw_sock := k, cw_conn := (cw_conn w)\<lparr>tc_in_buffer := b\<rparr>\<rparr>)) (\<lambda>w.
      Some (Inr (with_conn (tc_read_dones_update (smap_erase (m_msg_id (with_msg_id r)))) w)))"
      using assms b(1,3) by (simp add: onRead_def arrives_def excute_def id rest)
  qed
qed

end
