(* ===== verification/Rpc_Channel.thy ===== *)
theory Rpc_Channel
  imports Tcp_Client Load_Balance Msg_Id Config
begin

text \<open>
  \<open>net/rpc/rpc_channel.{h,cc}\<close>: one call of a client.  The controllers live in a store and are named
  by their place, since the channel and the caller hold pointers to them; the lambdas of \<open>CallMethod\<close>
  are the constructors of \<open>rpc_done\<close> and the functions that run them.  The protobuf method, request
  and response are arguments: the full name, the serialised request (\<open>None\<close> when that fails) and the
  test whether a response parses.  The user's callback sees the controller and acts on the rest of
  the process and on the event loop; it does not call back into the channel.
\<close>

section \<open>State\<close>

record rpc_channel =
  ch_peer_addr :: "ip_net_addr option"
  ch_addrs :: "ip_net_addr list"
  ch_load_balancer :: LoadBalanceCategory
  ch_is_init :: bool
  ch_controller :: "nat option"      \<comment> \<open>\<open>m_controller\<close>\<close>
  ch_closure :: bool                 \<comment> \<open>\<open>m_closure\<close> is not null\<close>

record 'k rpc_env =
  re_channel :: rpc_channel
  re_controllers :: "nat \<Rightarrow> rpc_controller"
  re_runs :: "rpc_controller list"   \<comment> \<open>the controller as each run of the closure found it\<close>
  re_response :: "string option"     \<comment> \<open>the bytes the response was last parsed from\<close>
  re_balancers :: balancers
  re_sock :: 'k

datatype rpc_done =
    Send_Done "nat option"           \<comment> \<open>run when the request was written\<close>
  | Recv_Done "nat option"           \<comment> \<open>run with the response\<close>

type_synonym 'k user_callback = "rpc_controller \<Rightarrow> 'k \<times> event_loop \<Rightarrow> 'k \<times> event_loop"

type_synonym 'k rpc_world = "(rpc_done, 'k rpc_env) client_world"

record 'k rpc_ext =
  \<comment> \<open>what the channel uses of the user's code, of protobuf and of the logger\<close>
  ex_callback :: "'k user_callback option"    \<comment> \<open>\<open>m_cb\<close> of the closure\<close>
  ex_parse :: "string \<Rightarrow> bool"
  ex_info_log :: bool                         \<comment> \<open>the log level lets \<open>INFOLOG\<close> evaluate its arguments\<close>

definition RpcChannel_of_addr :: "ip_net_addr option \<Rightarrow> rpc_channel" where
  \<comment> \<open>a null address in \<open>m_addrs\<close> is left out: no call gets as far as using the list then\<close>
  "RpcChannel_of_addr peer_addr = \<lparr>ch_peer_addr = peer_addr,
     ch_addrs = (case peer_addr of None \<Rightarrow> [] | Some a \<Rightarrow> [a]), ch_load_balancer = queryStrategy Random,
     ch_is_init = False, ch_controller = None, ch_closure = False\<rparr>"

definition RpcChannel_of_addrs :: "ip_net_addr list \<Rightarrow> LoadBalanceCategory \<Rightarrow> rpc_channel" where
  "RpcChannel_of_addrs addrs loadBalance = \<lparr>ch_peer_addr = None, ch_addrs = addrs,
     ch_load_balancer = queryStrategy loadBalance,
     ch_is_init = False, ch_controller = None, ch_closure = False\<rparr>"

definition RpcChannel_Init :: "nat option \<Rightarrow> bool \<Rightarrow> rpc_channel \<Rightarrow> rpc_channel" where
  "RpcChannel_Init controller closure ch =
     (if ch_is_init ch then ch
      else ch\<lparr>ch_controller := controller, ch_closure := closure, ch_is_init := True\<rparr>)"

definition FindAddr ::
  "(string \<Rightarrow> 32 word) \<Rightarrow> (string, rpc_stub) smap \<Rightarrow> string \<Rightarrow> ip_net_addr option res" where
  \<comment> \<open>\<open>stubs\<close> is \<open>m_rpc_stubs\<close> of the configuration\<close>
  "FindAddr inet_addr stubs str =
     bind_res (IPNetAddr_CheckValid str) (\<lambda>valid.
     if valid then bind_res (IPNetAddr_of_string inet_addr str) (\<lambda>a. Inr (Some a))
     else Inr (case smap_find stubs str of None \<Rightarrow> None | Some stub \<Rightarrow> st_addr stub))"

section \<open>Ending a call\<close>

definition with_controller :: "(rpc_controller \<Rightarrow> rpc_controller) \<Rightarrow> nat \<Rightarrow> 'k rpc_env \<Rightarrow> 'k rpc_env" where
  "with_controller f c e = e\<lparr>re_controllers := (re_controllers e)(c := f (re_controllers e c))\<rparr>"

definition callBack :: "'k rpc_ext \<Rightarrow> 'k rpc_env \<times> event_loop \<Rightarrow> ('k rpc_env \<times> event_loop) res" where
  "callBack ext = (\<lambda>(e, el).
     case ch_controller (re_channel e) of
       None \<Rightarrow> Inl Null_Deref
     | Some c \<Rightarrow>
         if Finished (re_controllers e c) then Inr (e, el)
         else if ch_closure (re_channel e)
         then let e = e\<lparr>re_runs := re_runs e @ [re_controllers e c]\<rparr>;
                  (k, el) = RpcClosure_Run (map_option (\<lambda>cb. cb (re_controllers e c)) (ex_callback ext)) (re_sock e, el);
                  e = with_controller (SetFinished True) c (e\<lparr>re_sock := k\<rparr>)
              in Inr (e, el)
         else Inr (e, el))"

definition set_error :: "int \<Rightarrow> string \<Rightarrow> nat option \<Rightarrow> 'k rpc_env \<Rightarrow> 'k rpc_env res" where
  \<comment> \<open>\<open>my_controller->SetError\<close>\<close>
  "set_error code info c e =
     (case c of None \<Rightarrow> Inl Null_Deref | Some c \<Rightarrow> Inr (with_controller (SetError code info) c e))"

definition call_back :: "'k rpc_ext \<Rightarrow> 'k rpc_world \<Rightarrow> 'k rpc_world res" where
  \<comment> \<open>\<open>callBack\<close> from a handler\<close>
  "call_back ext w =
     bind_res (callBack ext (rest_of w, cw_loop w)) (\<lambda>(e, el). Inr (with_rest (\<lambda>_. e) (w\<lparr>cw_loop := el\<rparr>)))"

definition fail_call :: "'k rpc_ext \<Rightarrow> int \<Rightarrow> string \<Rightarrow> nat option \<Rightarrow> 'k rpc_world \<Rightarrow> 'k rpc_world res" where
  \<comment> \<open>\<open>SetError\<close>, then \<open>callBack\<close>\<close>
  "fail_call ext code info c w =
     bind_res (set_error code info c (rest_of w)) (\<lambda>e. call_back ext (with_rest (\<lambda>_. e) w))"

section \<open>The lambdas of \<open>CallMethod\<close>\<close>

definition log_addrs :: "'k rpc_ext \<Rightarrow> 'k rpc_world \<Rightarrow> 'k rpc_world res" where
  \<comment> \<open>\<open>INFOLOG\<close> with \<open>getLocalAddr()->toString()\<close>\<close>
  "log_addrs ext w =
     (if ex_info_log ext \<and> cl_local_addr (client_of w) = None then Inl Null_Deref else Inr w)"

definition connect_done :: "'k rpc_ext \<Rightarrow> tinypb \<Rightarrow> 'k rpc_world \<Rightarrow> 'k rpc_world res option" where
  \<comment> \<open>the argument of \<open>connect\<close>\<close>
  "connect_done ext req_protocol w =
     Some (let my_controller = ch_controller (re_channel (rest_of w)) in
       if getConnectErrorCode w \<noteq> 0
       then fail_call ext (getConnectErrorCode w) (getConnectErrorInfo w) my_controller w
       else bind_res (log_addrs ext w) (\<lambda>w. Inr (writeMessage req_protocol (Send_Done my_controller) w)))"

fun run_rpc_done :: "'k rpc_ext \<Rightarrow> rpc_done \<Rightarrow> tinypb \<Rightarrow> 'k rpc_world \<Rightarrow> 'k rpc_world res option" where
  \<comment> \<open>the arguments of \<open>writeMessage\<close> and of \<open>readMessage\<close>; the message written is \<open>req_protocol\<close> itself\<close>
  "run_rpc_done ext (Send_Done my_controller) msg w =
     Some (bind_res (log_addrs ext w) (\<lambda>w. Inr (readMessage (m_msg_id msg) (Recv_Done my_controller) w)))"
| "run_rpc_done ext (Recv_Done my_controller) rsp_protocol w =
     Some (bind_res (log_addrs ext w) (\<lambda>w.
       let w = with_rest (re_response_update (\<lambda>_. Some (m_pb_data rsp_protocol))) w in
       if \<not> ex_parse ext (m_pb_data rsp_protocol)
       then fail_call ext ERROR_FAILED_SERIALIZE ''serialize error'' my_controller w
       else if m_err_code rsp_protocol \<noteq> 0
       then fail_call ext (m_err_code rsp_protocol) (m_err_info rsp_protocol) my_controller w
       else call_back ext w))"

definition on_timeout :: "'k rpc_ext \<Rightarrow> nat \<Rightarrow> 'k rpc_world \<Rightarrow> 'k rpc_world res" where
  \<comment> \<open>the task of the timer event\<close>
  "on_timeout ext c w =
     (if Finished (re_controllers (rest_of w) c) then Inr w
      else let e = with_controller StartCancel c (rest_of w);
               info = ''rpc call timeout '' @ to_string (GetTimeout (re_controllers e c))
           in fail_call ext ERROR_RPC_CALL_TIMEOUT info (Some c) (with_rest (\<lambda>_. e) w))"

section \<open>The call\<close>

text \<open>The system calls of the client act on the socket.\<close>

definition lift_sys :: "'k client_sys \<Rightarrow> 'k rpc_env client_sys" where
  "lift_sys sys = \<lparr>
     sys_connect = (\<lambda>fd a e. let (rt, k) = sys_connect sys fd a (re_sock e) in (rt, e\<lparr>re_sock := k\<rparr>)),
     sys_socket = (\<lambda>e. let (fd, k) = sys_socket sys (re_sock e) in (fd, e\<lparr>re_sock := k\<rparr>)),
     sys_close = (\<lambda>fd e. e\<lparr>re_sock := sys_close sys fd (re_sock e)\<rparr>),
     sys_getsockname = (\<lambda>fd e. sys_getsockname sys fd (re_sock e)),
     sys_strerror = sys_strerror sys, sys_inet_ntoa = sys_inet_ntoa sys\<rparr>"

fun connect_retries ::
  "'k rpc_env client_sys \<Rightarrow> ('k rpc_world \<Rightarrow> 'k rpc_world res option) \<Rightarrow>
   ('k rpc_world \<Rightarrow> 'k rpc_world res option) \<Rightarrow> nat \<Rightarrow> 'k rpc_world \<Rightarrow> 'k rpc_world res option" where
  "connect_retries sys loop done_cb 0 w = Some (Inr w)"
| "connect_retries sys loop done_cb (Suc n) w =
     (if getState w = Connected then Some (Inr w)
      else bind_ro (TcpClient_connect sys loop (Some done_cb) w) (connect_retries sys loop done_cb n))"

record 'k rpc_thread =
  \<comment> \<open>the calling thread before there is a connection\<close>
  th_env :: "'k rpc_env"
  th_loop :: event_loop
  th_tid :: int
  th_run_time :: "run_time option"
  th_msg_ids :: msg_id_state

record 'k rpc_call =
  \<comment> \<open>the arguments of one call, and what the system and the library return during it\<close>
  ca_full_name :: string
  ca_controller :: "nat option"
  ca_request_null :: bool
  ca_response_null :: bool
  ca_serialized :: "string option"
  ca_random :: "char list"            \<comment> \<open>read from \<open>/dev/urandom\<close>\<close>
  ca_std_hash :: "string \<Rightarrow> int"
  ca_rand :: int
  ca_fd :: int                        \<comment> \<open>the result of \<open>socket\<close>\<close>
  ca_fd_event :: fd_event
  ca_clock :: clock
  ca_timer_id :: nat                  \<comment> \<open>the unused place of the new timer event\<close>
  ca_sys :: "'k client_sys"
  ca_loop :: "tinypb \<Rightarrow> 'k rpc_world \<Rightarrow> 'k rpc_world res option"
    \<comment> \<open>what \<open>loop()\<close> does; the handler installed by \<open>connect\<close> holds the request\<close>

datatype 'k call_result = Refused "'k rpc_thread" | Issued "'k rpc_world" msg_id_state

definition refuse :: "'k rpc_ext \<Rightarrow> int \<Rightarrow> string \<Rightarrow> nat option \<Rightarrow> 'k rpc_thread \<Rightarrow> 'k call_result res option" where
  "refuse ext code info c th =
     Some (bind_res (set_error code info c (th_env th)) (\<lambda>e.
           bind_res (callBack ext (e, th_loop th)) (\<lambda>(e, el).
           Inr (Refused (th\<lparr>th_env := e, th_loop := el\<rparr>)))))"

definition choose_msg_id ::
  "char list \<Rightarrow> nat \<Rightarrow> 'k rpc_thread \<Rightarrow> (string \<times> 'k rpc_thread) res" where
  "choose_msg_id random c th =
     (if GetMsgId (re_controllers (th_env th) c) \<noteq> [] then Inr (GetMsgId (re_controllers (th_env th) c), th)
      else let (rt, t) = GetRunTime (th_run_time th);
               th = th\<lparr>th_run_time := t\<rparr>;
               set_id = (\<lambda>i th. th\<lparr>th_env := with_controller (SetMsgId i) c (th_env th)\<rparr>)
           in if rt_msgid rt \<noteq> [] then Inr (rt_msgid rt, set_id (rt_msgid rt) th)
              else bind_res (GenMsgID random (th_msg_ids th)) (\<lambda>(i, ids).
                   Inr (i, set_id i (th\<lparr>th_msg_ids := ids\<rparr>))))"

definition CallMethod :: "'k rpc_ext \<Rightarrow> 'k rpc_call \<Rightarrow> 'k rpc_thread \<Rightarrow> 'k call_result res option" where
  "CallMethod ext call th =
     (if ca_controller call = None \<or> ca_request_null call \<or> ca_response_null call
      then refuse ext ERROR_RPC_CHANNEL_INIT ''controller or request or response NULL'' (ca_controller call) th
      else let c = the (ca_controller call) in
      case ch_peer_addr (re_channel (th_env th)) of
        None \<Rightarrow> refuse ext ERROR_RPC_PEER_ADDR ''peer addr nullptr'' (Some c) th
      | Some peer_addr \<Rightarrow>
      (case choose_msg_id (ca_random call) c th of Inl f \<Rightarrow> Some (Inl f) | Inr (msg_id, th) \<Rightarrow>
      let req_protocol = tinypb_new\<lparr>m_msg_id := msg_id, m_method_name := ca_full_name call\<rparr> in
      if \<not> ch_is_init (re_channel (th_env th))
      then refuse ext ERROR_RPC_CHANNEL_INIT ''RpcChannel not call init()'' (Some c) th
      else case ca_serialized call of
        None \<Rightarrow> refuse ext ERROR_FAILED_SERIALIZE ''failed to serialize'' (Some c) th
      | Some data \<Rightarrow>
          let req_protocol = req_protocol\<lparr>m_pb_data := data\<rparr>;
              tmp = tinypb_new\<lparr>m_method_name := ca_full_name call, m_pb_data := data\<rparr>;
              e = th_env th
          in (case strategy_select (ca_std_hash call) (ca_rand call) (ch_load_balancer (re_channel e))
                     (ch_addrs (re_channel e)) tmp (re_balancers e) of Inl f \<Rightarrow> Some (Inl f) | Inr (_, st) \<Rightarrow>
             let e = e\<lparr>re_balancers := st\<rparr>;
                 add_timer = (\<lambda>el. EventLoop_addTimerEvent (ca_clock call) (ca_timer_id call)
                   (el\<lparr>el_timer := TimerEvent_new (ca_clock call) (ca_timer_id call)
                      (GetTimeout (re_controllers e c)) False (Some (RpcChannel_onTimeout c)) (el_timer el)\<rparr>));
                 maxRetry = nat (GetMaxRetry (re_controllers e c))
             in (case TcpClient_new peer_addr (ca_fd call) (ca_fd_event call) (th_loop th) (th_tid th)
                        (th_run_time th) e of
                   Inl f \<Rightarrow> Some (Inl f)
                 | Inr None \<Rightarrow>
                     \<comment> \<open>\<open>getConnection()\<close> is null\<close>
                     if maxRetry > 0 then Some (Inl Null_Deref)
                     else Some (Inr (Refused (th\<lparr>th_env := e, th_loop := add_timer (th_loop th)\<rparr>)))
                 | Inr (Some w) \<Rightarrow>
                     let w = w\<lparr>cw_loop := add_timer (cw_loop w)\<rparr>
                     in bind_ro (connect_retries (lift_sys (ca_sys call)) (ca_loop call req_protocol)
                                   (connect_done ext req_protocol) maxRetry w) (\<lambda>w.
                        Some (Inr (Issued w (th_msg_ids th))))))))"

section \<open>The handlers of a call under way\<close>

text \<open>
  After \<open>CallMethod\<close>, and inside the \<open>loop()\<close> it may run, the loop calls the handlers registered for
  the connection and the timer, in an order the network and the clock decide.
\<close>

datatype rpc_event = Ev_Writable | Ev_Readable | Ev_Timeout nat

definition lift_read :: "'k sys_read \<Rightarrow> 'k rpc_env client_env sys_read" where
  "lift_read sr = (\<lambda>e n. let (r, k) = sr (re_sock (ce_rest e)) n in (r, e\<lparr>ce_rest := (ce_rest e)\<lparr>re_sock := k\<rparr>\<rparr>))"

definition lift_write :: "'k sys_write \<Rightarrow> 'k rpc_env client_env sys_write" where
  "lift_write sw = (\<lambda>e bs. let (r, k) = sw (re_sock (ce_rest e)) bs in (r, e\<lparr>ce_rest := (ce_rest e)\<lparr>re_sock := k\<rparr>\<rparr>))"

fun rpc_handle ::
  "'k rpc_ext \<Rightarrow> 'k client_sys \<Rightarrow> 'k sys_read \<Rightarrow> 'k sys_write \<Rightarrow> tinypb \<Rightarrow> rpc_event \<Rightarrow>
   'k rpc_world \<Rightarrow> 'k rpc_world res option" where
  "rpc_handle ext sys sr sw req Ev_Writable w =
     (if \<not> wants_out (cw_fd_event w) then Some (Inr w)
      else case fd_handler OUT_EVENT (cw_fd_event w) of
        Some (TcpClient_onConnect _) \<Rightarrow> connect_ready (lift_sys sys) (Some (connect_done ext req)) w
      | Some (TcpConnection_onWrite _) \<Rightarrow> onWrite (lift_write sw) (run_rpc_done ext) w
      | _ \<Rightarrow> Some (Inr w))"
| "rpc_handle ext sys sr sw req Ev_Readable w =
     (if \<not> wants_in (cw_fd_event w) then Some (Inr w)
      else case fd_handler IN_EVENT (cw_fd_event w) of
        Some (TcpConnection_onRead _) \<Rightarrow>
          onRead (lift_read sr) (run_rpc_done ext) ([] :: (unit, unit) service_map) w
      | _ \<Rightarrow> Some (Inr w))"
| "rpc_handle ext sys sr sw req (Ev_Timeout c) w = Some (on_timeout ext c w)"

fun rpc_events ::
  "'k rpc_ext \<Rightarrow> 'k client_sys \<Rightarrow> 'k sys_read \<Rightarrow> 'k sys_write \<Rightarrow> tinypb \<Rightarrow> rpc_event list \<Rightarrow>
   'k rpc_world \<Rightarrow> 'k rpc_world res option" where
  "rpc_events ext sys sr sw req [] w = Some (Inr w)"
| "rpc_events ext sys sr sw req (ev # evs) w =
     bind_ro (rpc_handle ext sys sr sw req ev w) (rpc_events ext sys sr sw req evs)"

section \<open>The closure runs at most once\<close>

text \<open>
  \<open>settles c rs e\<close>: from an environment where the closure had run as \<open>rs\<close>, it has run at most once
  more, and then the controller is finished.  \<open>silent c rs e\<close>: the call was cancelled and the closure
  has not run since.
\<close>

definition settles :: "nat \<Rightarrow> rpc_controller list \<Rightarrow> 'k rpc_env \<Rightarrow> bool" where
  "settles c rs e \<longleftrightarrow> ch_controller (re_channel e) = Some c \<and>
     (re_runs e = rs \<or> Finished (re_controllers e c) \<and> (\<exists>r. re_runs e = rs @ [r]))"

definition silent :: "nat \<Rightarrow> rpc_controller list \<Rightarrow> 'k rpc_env \<Rightarrow> bool" where
  "silent c rs e \<longleftrightarrow> ch_controller (re_channel e) = Some c \<and> Finished (re_controllers e c) \<and>
     IsCanceled (re_controllers e c) \<and> Failed (re_controllers e c) \<and> re_runs e = rs"

lemma controller_keeps [simp]:
  "Finished (SetError n s c) = Finished c" "IsCanceled (SetError n s c) = IsCanceled c" "Failed (SetError n s c)"
  "Finished (SetFinished v c) = v" "IsCanceled (SetFinished v c) = IsCanceled c" "Failed (SetFinished v c) = Failed c"
  "Finished (StartCancel c)" "IsCanceled (StartCancel c)" "Failed (StartCancel c)"
  "GetErrorCode (SetError n s c) = n" "GetErrorInfo (SetError n s c) = s"
  "GetErrorCode (SetFinished v c) = GetErrorCode c" "GetErrorInfo (SetFinished v c) = GetErrorInfo c"
  "GetTimeout (StartCancel c) = GetTimeout c" "GetMsgId (SetMsgId i c) = i" "Finished (SetMsgId i c) = Finished c"
  by (simp_all add: controller_defs)

lemma with_controller_simps [simp]:
  "re_controllers (with_controller f c e) c = f (re_controllers e c)"
  "c' \<noteq> c \<Longrightarrow> re_controllers (with_controller f c e) c' = re_controllers e c'"
  "re_channel (with_controller f c e) = re_channel e" "re_runs (with_controller f c e) = re_runs e"
  "re_sock (with_controller f c e) = re_sock e" "re_response (with_controller f c e) = re_response e"
  by (simp_all add: with_controller_def)

lemma callBack_settles: "callBack ext (e, el) = Inr (e', el') \<Longrightarrow> settles c rs e \<Longrightarrow> settles c rs e'"
  by (auto simp: callBack_def settles_def Let_def split: option.splits if_splits prod.splits)

lemma callBack_silent: "callBack ext (e, el) = Inr (e', el') \<Longrightarrow> silent c rs e \<Longrightarrow> silent c rs e'"
  by (auto simp: callBack_def silent_def Let_def split: option.splits if_splits prod.splits)

lemma set_error_keeps:
  assumes "set_error code info d e = Inr e'"
  shows "settles c rs e \<Longrightarrow> settles c rs e'" and "silent c rs e \<Longrightarrow> silent c rs e'"
proof -
  obtain d' where "e' = with_controller (SetError code info) d' e"
    using assms by (auto simp: set_error_def split: option.splits)
  then show "settles c rs e \<Longrightarrow> settles c rs e'" and "silent c rs e \<Longrightarrow> silent c rs e'"
    by (cases "d' = c"; simp add: settles_def silent_def)+
qed

lemma call_back_keeps:
  assumes "call_back ext w = Inr w'"
  shows "settles c rs (rest_of w) \<Longrightarrow> settles c rs (rest_of w')" and "silent c rs (rest_of w) \<Longrightarrow> silent c rs (rest_of w')"
    and "cw_conn w' = cw_conn w"
  using assms callBack_settles callBack_silent by (auto simp: call_back_def bind_res_eq_Inr)

lemma fail_call_keeps:
  assumes "fail_call ext code info d w = Inr w'"
  shows "settles c rs (rest_of w) \<Longrightarrow> settles c rs (rest_of w')" and "silent c rs (rest_of w) \<Longrightarrow> silent c rs (rest_of w')"
    and "cw_conn w' = cw_conn w"
  using assms set_error_keeps call_back_keeps by (fastforce simp: fail_call_def bind_res_eq_Inr)+

lemma log_addrs_Inr: "log_addrs ext w = Inr w' \<Longrightarrow> w' = w"
  by (simp add: log_addrs_def split: if_splits)

lemma settles_sock [simp]:
  "settles c rs (e\<lparr>re_sock := k\<rparr>) = settles c rs e" "silent c rs (e\<lparr>re_sock := k\<rparr>) = silent c rs e"
  "settles c rs (e\<lparr>re_response := b\<rparr>) = settles c rs e" "silent c rs (e\<lparr>re_response := b\<rparr>) = silent c rs e"
  "settles c rs (e\<lparr>re_balancers := st\<rparr>) = settles c rs e"
  by (simp_all add: settles_def silent_def)

lemma run_rpc_done_keeps:
  assumes "run_rpc_done ext d m w = Some (Inr w')" and "by_client w"
  shows "settles c rs (rest_of w) \<Longrightarrow> settles c rs (rest_of w')"
    and "silent c rs (rest_of w) \<Longrightarrow> silent c rs (rest_of w')" and "by_client w'"
proof -
  show "settles c rs (rest_of w) \<Longrightarrow> settles c rs (rest_of w')"
    using assms(1) by (cases d) (auto simp: bind_res_eq_Inr Let_def readMessage_def pushReadMessage_def
      dest!: log_addrs_Inr split: if_splits dest: call_back_keeps(1) fail_call_keeps(1))
  show "silent c rs (rest_of w) \<Longrightarrow> silent c rs (rest_of w')"
    using assms(1) by (cases d) (auto simp: bind_res_eq_Inr Let_def readMessage_def pushReadMessage_def
      dest!: log_addrs_Inr split: if_splits dest: call_back_keeps(2) fail_call_keeps(2))
  show "by_client w'"
    using assms by (cases d) (auto simp: bind_res_eq_Inr Let_def readMessage_def pushReadMessage_def
      dest!: log_addrs_Inr split: if_splits dest: call_back_keeps(3) fail_call_keeps(3))
qed

lemma lift_sock:
  "ce_rest (snd (lift_read sr e n)) = (ce_rest e)\<lparr>re_sock := snd (sr (re_sock (ce_rest e)) n)\<rparr>"
  "ce_rest (snd (lift_write sw e bs)) = (ce_rest e)\<lparr>re_sock := snd (sw (re_sock (ce_rest e)) bs)\<rparr>"
  by (simp_all add: lift_read_def lift_write_def split: prod.split)

interpretation settling: client_invariant "\<lambda>e. settles c rs (ce_rest e)" "lift_read sr" "lift_write sw"
  "run_rpc_done ext" for c rs sr sw ext
  by unfold_locales (simp_all add: lift_sock run_rpc_done_keeps)

interpretation silenced: client_invariant "\<lambda>e. silent c rs (ce_rest e)" "lift_read sr" "lift_write sw"
  "run_rpc_done ext" for c rs sr sw ext
  by unfold_locales (simp_all add: lift_sock run_rpc_done_keeps)

interpretation client_kept: client_invariant "\<lambda>_. True" "lift_read sr" "lift_write sw" "run_rpc_done ext" for sr sw ext
  by unfold_locales (simp_all add: run_rpc_done_keeps)

lemma call_connect_lift:
  assumes "call_connect (lift_sys sys) w = (rt, w1)"
  shows "\<exists>k. rest_of w1 = (rest_of w)\<lparr>re_sock := k\<rparr>" and "cw_conn w1 = cw_conn w"
    and "client_of w1 = client_of w"
  using assms by (auto simp: call_connect_def lift_sys_def split: prod.splits)

lemma set_connect_error_simps [simp]:
  "rest_of (set_connect_error code info w) = rest_of w" "cw_conn (set_connect_error code info w) = cw_conn w"
  "cl_connect_error_code (client_of (set_connect_error code info w)) = code"
  "cl_connect_error_info (client_of (set_connect_error code info w)) = info"
  "cw_loop (set_connect_error code info w) = cw_loop w"
  by (simp_all add: set_connect_error_def)

text \<open>Every way through \<open>connect\<close> and its handler ends in the function it was given, on a world that
  differs only in the socket, the connection and the client.\<close>

lemma lift_strerror: "sys_strerror (lift_sys sys) = sys_strerror sys"
  by (simp add: lift_sys_def)

lemma connect_outcome_frame:
  obtains k where "rest_of (connect_outcome (lift_sys sys) w) = (rest_of w)\<lparr>re_sock := k\<rparr>"
    and "by_client (connect_outcome (lift_sys sys) w) = by_client w"
proof -
  obtain rt u where u: "call_connect (lift_sys sys) w = (rt, u)" by fastforce
  obtain k where k: "rest_of u = (rest_of w)\<lparr>re_sock := k\<rparr>" "cw_conn u = cw_conn w"
    using call_connect_lift [OF u] by blast
  show thesis
  proof (cases "rt = Connect_Ok \<or> rt = Connect_Errno EISCONN")
    case True
    with k show thesis by (intro that [of k]) (auto simp: connect_outcome_def u)
  next
    case False
    define v where "v = (if rt = Connect_Errno ECONNREFUSED
        then set_connect_error ERROR_PEER_CLOSED (''connect refused, sys error = '' @ sys_strerror sys ECONNREFUSED) u
        else set_connect_error ERROR_FAILED_CONNECT (''connect unkonwn error, sys error ='' @
          sys_strerror sys (case rt of Connect_Errno e \<Rightarrow> e | Connect_Ok \<Rightarrow> 0)) u)"
    have "rest_of v = (rest_of w)\<lparr>re_sock := k\<rparr>" "cw_conn v = cw_conn w"
      using k by (auto simp: v_def)
    moreover have "connect_outcome (lift_sys sys) w =
        (let w = with_rest (sys_close (lift_sys sys) (cl_fd (client_of v))) v;
             (fd, e) = sys_socket (lift_sys sys) (rest_of w);
             w = with_client (cl_fd_update (\<lambda>_. fd)) (with_rest (\<lambda>_. e) w)
         in w\<lparr>cw_loop := deleteEpollEvent (cw_tid w) (cw_fd_event w) (cw_loop w)\<rparr>)"
      using False by (cases rt) (simp_all add: connect_outcome_def u v_def Let_def case_prod_beta lift_strerror)
    ultimately show thesis
      by (intro that [of "snd (sys_socket sys (sys_close sys (cl_fd (client_of v)) k))"])
        (auto simp: Let_def lift_sys_def split: prod.splits)
  qed
qed

lemma connect_ends:
  obtains w1 k where "TcpClient_connect (lift_sys sys) loop (Some d) w \<in> {d w1, loop w1, Some (Inr w1)}"
    and "rest_of w1 = (rest_of w)\<lparr>re_sock := k\<rparr>" and "by_client w1 = by_client w"
proof -
  obtain rt u where u: "call_connect (lift_sys sys) w = (rt, u)" by fastforce
  obtain k where k: "rest_of u = (rest_of w)\<lparr>re_sock := k\<rparr>" "cw_conn u = cw_conn w"
    using call_connect_lift [OF u] by blast
  show thesis
  proof (cases rt)
    case Connect_Ok
    with u k show thesis
      by (intro that [of "initLocalAddr (lift_sys sys) (setState Connected u)" k]) (simp_all add: TcpClient_connect_def)
  next
    case (Connect_Errno errno)
    let ?v = "update_epoll (u\<lparr>cw_fd_event :=
        fd_listen OUT_EVENT (Some (TcpClient_onConnect (tc_fd (cw_conn u)))) None (cw_fd_event u)\<rparr>)"
    show thesis
    proof (cases "errno = EINPROGRESS")
      case True
      with Connect_Errno u k show thesis
        by (intro that [of ?v k]) (simp_all add: TcpClient_connect_def Let_def update_epoll_def)
    next
      case False
      with Connect_Errno u k show thesis
        by (intro that [of "set_connect_error ERROR_FAILED_CONNECT
            (''connect error, sys error = '' @ sys_strerror (lift_sys sys) errno) u" k])
          (simp_all add: TcpClient_connect_def Let_def)
    qed
  qed
qed

lemma connect_done_keeps:
  assumes "connect_done ext req w = Some (Inr w')"
  shows "settles c rs (rest_of w) \<Longrightarrow> settles c rs (rest_of w')"
    and "silent c rs (rest_of w) \<Longrightarrow> silent c rs (rest_of w')" and "by_client w' = by_client w"
  using assms
  by (auto simp: connect_done_def Let_def bind_res_eq_Inr writeMessage_def pushSendMessage_def
      dest!: log_addrs_Inr split: if_splits dest: fail_call_keeps)

lemma cancel_keeps:
  "settles c rs e \<Longrightarrow> settles c rs (with_controller StartCancel d e)"
  "silent c rs e \<Longrightarrow> silent c rs (with_controller StartCancel d e)"
  by (cases "d = c"; auto simp: settles_def silent_def)+

lemma on_timeout_keeps:
  assumes "on_timeout ext d w = Inr w'"
  shows "settles c rs (rest_of w) \<Longrightarrow> settles c rs (rest_of w')"
    and "silent c rs (rest_of w) \<Longrightarrow> silent c rs (rest_of w')" and "by_client w' = by_client w"
  using assms fail_call_keeps(1) fail_call_keeps(2) fail_call_keeps(3) cancel_keeps
  by (fastforce simp: on_timeout_def Let_def split: if_splits)+

lemma rpc_handle_keeps:
  assumes "rpc_handle ext sys sr sw req ev w = Some (Inr w')" and "by_client w"
  shows "(settles c rs (rest_of w) \<longrightarrow> settles c rs (rest_of w')) \<and>
         (silent c rs (rest_of w) \<longrightarrow> silent c rs (rest_of w')) \<and> by_client w'"
proof (cases ev)
  case Ev_Writable
  let ?w1 = "connect_outcome (lift_sys sys) w"
  obtain k where k: "rest_of ?w1 = (rest_of w)\<lparr>re_sock := k\<rparr>" "by_client ?w1 = by_client w"
    by (rule connect_outcome_frame)
  have ready: ?thesis if "connect_ready (lift_sys sys) (Some (connect_done ext req)) w = Some (Inr w')"
    using that connect_done_keeps [of ext req ?w1 w'] k assms(2) by (auto simp: connect_ready_def)
  show ?thesis using assms Ev_Writable ready
    using settling.onWrite_kept silenced.onWrite_kept client_kept.onWrite_kept
    by (simp split: if_splits option.splits callback.splits) blast+
next
  case Ev_Readable
  with assms show ?thesis
    using settling.onRead_kept silenced.onRead_kept client_kept.onRead_kept
    by (simp split: if_splits option.splits callback.splits) blast+
next
  case (Ev_Timeout d)
  with assms show ?thesis using on_timeout_keeps [of ext d w w'] by auto
qed

lemma rpc_events_keep:
  "rpc_events ext sys sr sw req evs w = Some (Inr w') \<Longrightarrow> by_client w \<Longrightarrow>
   (settles c rs (rest_of w) \<longrightarrow> settles c rs (rest_of w')) \<and>
   (silent c rs (rest_of w) \<longrightarrow> silent c rs (rest_of w')) \<and> by_client w'"
proof (induction evs arbitrary: w)
  case (Cons ev evs)
  from Cons.prems(1) obtain u where u: "rpc_handle ext sys sr sw req ev w = Some (Inr u)"
    "rpc_events ext sys sr sw req evs u = Some (Inr w')"
    by (auto simp: bind_ro_def split: option.splits sum.splits)
  with Cons.IH [OF u(2)] rpc_handle_keeps [OF u(1) Cons.prems(2)] show ?case by blast
qed simp

end
