(* ===== verification/Rpc_Call.thy ===== *)
theory Rpc_Call
  imports Rpc_Channel
begin

text \<open>
  What a call of \<open>RpcChannel::CallMethod\<close> comes to: refused at once, answered, or timed out; whatever
  the network does, the user's closure runs at most once.
\<close>

section \<open>Finding the address of a server\<close>

text \<open>C32. A name that is not an address is looked up in the configuration: when \<open>Config_Init\<close> has read a
  file into a fresh configuration, every \<open>rpc_server\<close> node of it was readable, and \<open>FindAddr\<close> returns
  the address of the first of these nodes with that name, and null when there is none.\<close>

theorem config_stub_found:
  assumes "Config_Init inet_addr xml file c = Starts c'" and "cf_rpc_stubs c = []"
    and "IPNetAddr_CheckValid str = Inr False"
  shows "\<exists>doc root stubs. xm_load xml file = Some doc \<and> first_child xml doc ''root'' = Some root \<and>
    map (read_stub inet_addr xml) (case first_child xml root ''stubs'' of None \<Rightarrow> []
       | Some n \<Rightarrow> xm_children xml n ''rpc_server'') = map Inr stubs \<and>
    FindAddr inet_addr (cf_rpc_stubs c') str =
      Inr (case find (\<lambda>s. st_name s = str) stubs of None \<Rightarrow> None | Some s \<Rightarrow> st_addr s)"
proof -
  obtain doc where doc: "xm_load xml file = Some doc"
    using assms(1) by (auto simp: Config_Init_def split: option.splits)
  obtain root where root: "first_child xml doc ''root'' = Some root"
    using assms(1) by (auto simp: Config_Init_def doc READ_XML_NODE_def split: option.splits)
  let ?nodes = "case first_child xml root ''stubs'' of None \<Rightarrow> [] | Some n \<Rightarrow> xm_children xml n ''rpc_server''"
  have "read_stubs inet_addr xml ?nodes [] = Inr (cf_rpc_stubs c')"
    using assms(1,2) by (cases "first_child xml root ''stubs''")
      (auto simp: Config_Init_def doc READ_XML_NODE_def [of xml "''root''"] root bind_start_Starts lift_start_Starts read_stubs_def)
  from read_stubs_find [OF this] obtain stubs where "map (read_stub inet_addr xml) ?nodes = map Inr stubs"
    "\<And>k. smap_find (cf_rpc_stubs c') k = find (\<lambda>s. st_name s = k) stubs" by auto
  with doc root assms(3) show ?thesis by (auto simp: FindAddr_def)
qed

datatype xml_elem = Xml_Elem string "string option" "xml_elem list"

definition sample_xml :: "xml_elem \<Rightarrow> xml_elem xml" where
  "sample_xml doc = \<lparr>xm_load = \<lambda>f. Some doc,
     xm_children = (\<lambda>e n. case e of Xml_Elem _ _ es \<Rightarrow> filter (\<lambda>e. case e of Xml_Elem n' _ _ \<Rightarrow> n' = n) es),
     xm_text = (\<lambda>e. case e of Xml_Elem _ t _ \<Rightarrow> t)\<rparr>"

abbreviation Xml_Text :: "string \<Rightarrow> string \<Rightarrow> xml_elem" where
  "Xml_Text n t \<equiv> Xml_Elem n (Some t) []"

abbreviation stub_node :: "string \<Rightarrow> xml_elem" where
  "stub_node port \<equiv> Xml_Elem ''rpc_server'' None [Xml_Text ''name'' ''a'', Xml_Text ''timeout'' ''7'',
     Xml_Text ''ip'' ''1.2.3.4'', Xml_Text ''port'' port]"

definition sample_doc :: xml_elem where
  "sample_doc = Xml_Elem [] None [Xml_Elem ''root'' None [
     Xml_Elem ''log'' None [Xml_Text ''log_level'' ''INFO'', Xml_Text ''log_file_name'' ''f'',
       Xml_Text ''log_file_path'' ''/'', Xml_Text ''log_max_file_size'' ''9'', Xml_Text ''log_sync_interval'' ''5''],
     Xml_Elem ''server'' None [Xml_Text ''ip'' ''0.0.0.0'', Xml_Text ''port'' ''80'', Xml_Text ''io_threads'' ''4''],
     Xml_Elem ''zk_config'' None [Xml_Text ''zk_ip'' ''0.0.0.0'', Xml_Text ''zk_port'' ''1''],
     Xml_Elem ''stubs'' None [
       stub_node ''8'', stub_node ''9'']]]"

lemmas sample_config_defs = sample_xml_def sample_doc_def first_child_def

lemma sample_numbers:
  "atoi ''5'' = Inr 5" "atoi ''9'' = Inr 9" "atoi ''80'' = Inr 80" "atoi ''4'' = Inr 4" "atoi ''7'' = Inr 7" "atoi ''8'' = Inr 8"
  by code_simp+

lemma sample_stub:
  "read_stub (\<lambda>_. 0) (sample_xml doc) (stub_node p) =
   bind_res (atoi p) (\<lambda>port. Inr \<lparr>st_name = ''a'',
     st_addr = Some (IPNetAddr_of_ip (\<lambda>_. 0) ''1.2.3.4'' (port mod 65536)), st_timeout = 7\<rparr>)"
  by (simp add: read_stub_def child_text_def sample_config_defs sample_numbers)

lemma sample_config: "\<exists>c'. Config_Init (\<lambda>_. 0) (sample_xml sample_doc) ''f'' config_new = Starts c'"
  unfolding Config_Init_def READ_XML_NODE_def READ_STR_FROM_XML_NODE_def
  by (simp add: sample_config_defs sample_numbers read_stubs_def sample_stub [unfolded sample_xml_def])

lemma sample_nodes:
  fixes doc root :: xml_elem
  assumes "xm_load (sample_xml sample_doc) f = Some doc" and "first_child (sample_xml sample_doc) doc ''root'' = Some root"
  shows "(case first_child (sample_xml sample_doc) root ''stubs'' of None \<Rightarrow> []
    | Some n \<Rightarrow> xm_children (sample_xml sample_doc) n ''rpc_server'') = [stub_node ''8'', stub_node ''9'']"
  using assms by (auto simp: sample_config_defs)

theorem config_stub_found_witness:
  "\<exists>c'. Config_Init (\<lambda>_. 0) (sample_xml sample_doc) ''f'' config_new = Starts c' \<and>
     FindAddr (\<lambda>_. 0) (cf_rpc_stubs c') ''a'' = Inr (Some (IPNetAddr_of_ip (\<lambda>_. 0) ''1.2.3.4'' 8))"
proof -
  obtain c' where c': "Config_Init (\<lambda>_. 0) (sample_xml sample_doc) ''f'' config_new = Starts c'"
    using sample_config by blast
  have "cf_rpc_stubs config_new = []" by (simp add: config_new_def)
  moreover have "IPNetAddr_CheckValid ''a'' = Inr False" by (simp add: IPNetAddr_CheckValid_def cut_at_def)
  ultimately obtain doc root stubs where s: "xm_load (sample_xml sample_doc) ''f'' = Some doc"
    "first_child (sample_xml sample_doc) doc ''root'' = Some root"
    "map (read_stub (\<lambda>_. 0) (sample_xml sample_doc)) (case first_child (sample_xml sample_doc) root ''stubs'' of None \<Rightarrow> []
       | Some n \<Rightarrow> xm_children (sample_xml sample_doc) n ''rpc_server'') = map Inr stubs"
    "FindAddr (\<lambda>_. 0) (cf_rpc_stubs c') ''a'' =
      Inr (case find (\<lambda>s. st_name s = ''a'') stubs of None \<Rightarrow> None | Some s \<Rightarrow> st_addr s)"
    using config_stub_found [OF c'] by blast
  have "map (Inr :: rpc_stub \<Rightarrow> rpc_stub res) stubs =
      map (\<lambda>port. Inr \<lparr>st_name = ''a'', st_addr = Some (IPNetAddr_of_ip (\<lambda>_. 0) ''1.2.3.4'' port), st_timeout = 7\<rparr>) [8, 9]"
    using s(3) [unfolded sample_nodes [OF s(1,2)]] by (simp add: sample_stub sample_numbers)
  then obtain rest where "stubs = \<lparr>st_name = ''a'', st_addr = Some (IPNetAddr_of_ip (\<lambda>_. 0) ''1.2.3.4'' 8), st_timeout = 7\<rparr> # rest"
    by (cases stubs) simp_all
  with c' s(4) show ?thesis by simp
qed



section \<open>Refusals\<close>

lemma refuse_inited:
  assumes "ch_controller (re_channel (th_env th)) = Some c" and "ch_closure (re_channel (th_env th))"
    and "\<not> Finished (re_controllers (th_env th) c)"
  shows "\<exists>th'. refuse ext code info (Some c) th = Some (Inr (Refused th')) \<and>
           re_runs (th_env th') = re_runs (th_env th) @ [SetError code info (re_controllers (th_env th) c)] \<and>
           re_controllers (th_env th') c = SetFinished True (SetError code info (re_controllers (th_env th) c))"
  using assms by (auto simp: refuse_def set_error_def callBack_def Let_def with_controller_def split: prod.split)

lemma refuse_uninited:
  "ch_controller (re_channel (th_env th)) = None \<Longrightarrow> refuse ext code info c th = Some (Inl Null_Deref)"
  by (cases c) (simp_all add: refuse_def set_error_def callBack_def)

lemma choose_msg_id_frame:
  assumes "choose_msg_id random c th = Inr (i, th')"
  shows "re_channel (th_env th') = re_channel (th_env th)" and "re_runs (th_env th') = re_runs (th_env th)"
    and "Finished (re_controllers (th_env th') c) = Finished (re_controllers (th_env th) c)"
    and "re_controllers (th_env th') c = SetMsgId i (re_controllers (th_env th) c)"
  using assms
  by (auto simp: choose_msg_id_def Let_def bind_res_eq_Inr SetMsgId_def GetMsgId_def
      Finished_def split: if_splits prod.splits)

lemma refused_uninited:
  assumes "ch_controller (re_channel (th_env th)) = None" and "\<not> ch_is_init (re_channel (th_env th))"
  shows "\<exists>f. CallMethod ext call th = Some (Inl f)"
proof (cases "choose_msg_id (ca_random call) (the (ca_controller call)) th")
  case (Inr x)
  then have "ch_controller (re_channel (th_env (snd x))) = None" "\<not> ch_is_init (re_channel (th_env (snd x)))"
    using choose_msg_id_frame(1) [of "ca_random call" _ th "fst x" "snd x"] assms by (auto simp: prod_eq_iff)
  then show ?thesis
    using Inr refuse_uninited [OF assms(1)] refuse_uninited [of "snd x"]
    by (auto simp: CallMethod_def Let_def split: option.splits prod.splits)
qed (use refuse_uninited [OF assms(1)] in \<open>auto simp: CallMethod_def split: option.splits\<close>)

abbreviation null_argument :: "'k rpc_call \<Rightarrow> bool" where
  "null_argument call \<equiv> ca_request_null call \<or> ca_response_null call"

lemma refused_inited:
  assumes ch: "ch_controller (re_channel (th_env th)) = Some c" "ch_closure (re_channel (th_env th))"
      "ch_is_init (re_channel (th_env th))"
    and call: "ca_controller call = Some c" "\<not> Finished (re_controllers (th_env th) c)"
    and why: "null_argument call \<or> ch_peer_addr (re_channel (th_env th)) = None \<or>
      (\<exists>x. choose_msg_id (ca_random call) c th = Inr x) \<and> ca_serialized call = None"
  shows "\<exists>th' r. CallMethod ext call th = Some (Inr (Refused th')) \<and>
    re_runs (th_env th') = re_runs (th_env th) @ [r] \<and> Failed r \<and>
    GetErrorCode r = (if null_argument call then ERROR_RPC_CHANNEL_INIT
      else if ch_peer_addr (re_channel (th_env th)) = None then ERROR_RPC_PEER_ADDR else ERROR_FAILED_SERIALIZE) \<and>
    re_controllers (th_env th') c = SetFinished True r"
proof (cases "null_argument call \<or> ch_peer_addr (re_channel (th_env th)) = None")
  case True
  then have "CallMethod ext call th = (if null_argument call
      then refuse ext ERROR_RPC_CHANNEL_INIT ''controller or request or response NULL'' (Some c) th
      else refuse ext ERROR_RPC_PEER_ADDR ''peer addr nullptr'' (Some c) th)"
    using call(1) by (auto simp: CallMethod_def)
  with True refuse_inited [OF ch(1,2) call(2), of ext] show ?thesis by (simp split del: if_split) force
next
  case False
  with why obtain i th1 where th1: "choose_msg_id (ca_random call) c th = Inr (i, th1)"
    and data: "ca_serialized call = None" by auto
  note frame = choose_msg_id_frame [OF th1]
  have eq: "CallMethod ext call th = refuse ext ERROR_FAILED_SERIALIZE ''failed to serialize'' (Some c) th1"
    using False call(1) ch th1 data by (auto simp: CallMethod_def Let_def frame)
  have "ch_controller (re_channel (th_env th1)) = Some c" "ch_closure (re_channel (th_env th1))"
    "\<not> Finished (re_controllers (th_env th1) c)" using ch call(2) by (simp_all add: frame(1,3))
  from refuse_inited [OF this, of ext ERROR_FAILED_SERIALIZE "''failed to serialize''"] False
  show ?thesis unfolding eq frame(2) by (simp split del: if_split) force
qed

lemma refused_only:
  assumes "CallMethod ext call th = Some (Inr (Refused th'))" and "\<not> null_argument call"
    and "ch_peer_addr (re_channel (th_env th)) \<noteq> None" and "ch_is_init (re_channel (th_env th))"
    and "ca_serialized call \<noteq> None" and "ca_controller call = Some c"
  shows "ca_fd call < 0 \<and> GetMaxRetry (re_controllers (th_env th) c) \<le> 0 \<and> re_runs (th_env th') = re_runs (th_env th)"
proof -
  obtain i th1 where th1: "choose_msg_id (ca_random call) c th = Inr (i, th1)"
    using assms by (auto simp: CallMethod_def split: option.splits sum.splits)
  note frame = choose_msg_id_frame [OF th1]
  have "GetMaxRetry (re_controllers (th_env th1) c) = GetMaxRetry (re_controllers (th_env th) c)"
    by (simp add: frame SetMsgId_def GetMaxRetry_def)
  then show ?thesis
    using assms th1
    by (auto simp: CallMethod_def Let_def frame TcpClient_new_def bind_res_eq_Inr bind_ro_def
        split: option.splits sum.splits prod.splits if_splits)
qed

text \<open>C31. Every way \<open>CallMethod\<close> refuses.  A null controller is dereferenced; a channel that was not
  given its controller by \<open>Init\<close> cannot report its error and dereferences null as well.  On a channel
  with a controller and a closure, a null request or response is refused with
  \<open>ERROR_RPC_CHANNEL_INIT\<close>; a channel made from a list of addresses (or a null one) has no peer
  address, so each of its calls is refused with \<open>ERROR_RPC_PEER_ADDR\<close>; a request that does not
  serialise is refused with \<open>ERROR_FAILED_SERIALIZE\<close>.  In these cases the closure has run exactly
  once, on the controller with that error.  A channel that went through \<open>Init\<close> refuses in one more
  way only: when \<open>socket\<close> fails and the retry limit is 0 or less, \<open>CallMethod\<close> returns without having
  run the closure, and the call is left to its timeout.\<close>

theorem rpc_refusals:
  "(ca_controller call = None \<longrightarrow> CallMethod ext call th = Some (Inl Null_Deref)) \<and>
   (re_channel (th_env th) \<in> {RpcChannel_of_addr a, RpcChannel_of_addrs as lb} \<longrightarrow>
      (\<exists>f. CallMethod ext call th = Some (Inl f))) \<and>
   (\<forall>c. re_channel (th_env th) = RpcChannel_Init (Some c) True (RpcChannel_of_addrs as lb) \<or>
        re_channel (th_env th) = RpcChannel_Init (Some c) True (RpcChannel_of_addr a) \<and>
          (a = None \<or> null_argument call \<or>
           (\<exists>x. choose_msg_id (ca_random call) c th = Inr x) \<and> ca_serialized call = None) \<longrightarrow>
      ca_controller call = Some c \<and> \<not> Finished (re_controllers (th_env th) c) \<longrightarrow>
      (\<exists>th' r. CallMethod ext call th = Some (Inr (Refused th')) \<and>
         re_runs (th_env th') = re_runs (th_env th) @ [r] \<and> Failed r \<and>
         GetErrorCode r = (if null_argument call then ERROR_RPC_CHANNEL_INIT
           else if ch_peer_addr (re_channel (th_env th)) = None then ERROR_RPC_PEER_ADDR else ERROR_FAILED_SERIALIZE) \<and>
         re_controllers (th_env th') c = SetFinished True r)) \<and>
   (\<forall>th' c. CallMethod ext call th = Some (Inr (Refused th')) \<longrightarrow> ca_controller call = Some c \<longrightarrow>
      null_argument call \<or> ch_peer_addr (re_channel (th_env th)) = None \<or>
      \<not> ch_is_init (re_channel (th_env th)) \<or> ca_serialized call = None \<or>
      ca_fd call < 0 \<and> GetMaxRetry (re_controllers (th_env th) c) \<le> 0 \<and> re_runs (th_env th') = re_runs (th_env th))"
proof (intro conjI allI impI)
  assume "ca_controller call = None"
  then show "CallMethod ext call th = Some (Inl Null_Deref)"
    by (simp add: CallMethod_def refuse_def set_error_def)
next
  assume "re_channel (th_env th) \<in> {RpcChannel_of_addr a, RpcChannel_of_addrs as lb}"
  then show "\<exists>f. CallMethod ext call th = Some (Inl f)"
    by (intro refused_uninited) (auto simp: RpcChannel_of_addr_def RpcChannel_of_addrs_def)
next
  fix c
  assume "re_channel (th_env th) = RpcChannel_Init (Some c) True (RpcChannel_of_addrs as lb) \<or>
        re_channel (th_env th) = RpcChannel_Init (Some c) True (RpcChannel_of_addr a) \<and>
          (a = None \<or> null_argument call \<or>
           (\<exists>x. choose_msg_id (ca_random call) c th = Inr x) \<and> ca_serialized call = None)"
    and "ca_controller call = Some c \<and> \<not> Finished (re_controllers (th_env th) c)"
  then show "\<exists>th' r. CallMethod ext call th = Some (Inr (Refused th')) \<and>
         re_runs (th_env th') = re_runs (th_env th) @ [r] \<and> Failed r \<and>
         GetErrorCode r = (if null_argument call then ERROR_RPC_CHANNEL_INIT
           else if ch_peer_addr (re_channel (th_env th)) = None then ERROR_RPC_PEER_ADDR else ERROR_FAILED_SERIALIZE) \<and>
         re_controllers (th_env th') c = SetFinished True r"
    by (intro refused_inited)
      (auto simp: RpcChannel_Init_def RpcChannel_of_addr_def RpcChannel_of_addrs_def split: option.splits)
next
  fix th' c
  assume "CallMethod ext call th = Some (Inr (Refused th'))" and "ca_controller call = Some c"
  then show "null_argument call \<or> ch_peer_addr (re_channel (th_env th)) = None \<or>
      \<not> ch_is_init (re_channel (th_env th)) \<or> ca_serialized call = None \<or>
      ca_fd call < 0 \<and> GetMaxRetry (re_controllers (th_env th) c) \<le> 0 \<and> re_runs (th_env th') = re_runs (th_env th)"
    using refused_only by blast
qed

section \<open>The closure runs at most once\<close>

lemma connect_retries_settles:
  assumes "\<And>w w'. loop w = Some (Inr w') \<Longrightarrow> by_client w \<Longrightarrow> settles c rs (rest_of w) \<Longrightarrow>
      settles c rs (rest_of w') \<and> by_client w'"
  shows "connect_retries (lift_sys sys) loop (connect_done ext req) n w = Some (Inr w') \<Longrightarrow>
    by_client w \<Longrightarrow> settles c rs (rest_of w) \<Longrightarrow> settles c rs (rest_of w') \<and> by_client w'"
proof (induction n arbitrary: w)
  case (Suc n)
  show ?case
  proof (cases "getState w = Connected")
    case False
    with Suc.prems(1) obtain u where u:
      "TcpClient_connect (lift_sys sys) loop (Some (connect_done ext req)) w = Some (Inr u)"
      "connect_retries (lift_sys sys) loop (connect_done ext req) n u = Some (Inr w')"
      by (auto simp: bind_ro_def split: option.splits sum.splits)
    obtain w1 k where w1: "TcpClient_connect (lift_sys sys) loop (Some (connect_done ext req)) w \<in>
        {connect_done ext req w1, loop w1, Some (Inr w1)}"
      "rest_of w1 = (rest_of w)\<lparr>re_sock := k\<rparr>" "by_client w1 = by_client w"
      by (rule connect_ends)
    have pre: "settles c rs (rest_of w1)" "by_client w1" using w1(2,3) Suc.prems(2,3) by simp_all
    have "settles c rs (rest_of u) \<and> by_client u"
      using w1(1) u(1) connect_done_keeps(1,3) [of ext req w1 u] assms [of w1 u] pre by auto
    with Suc.IH u(2) show ?thesis by blast
  qed (use Suc.prems in simp)
qed simp

lemma TcpClient_new_Some:
  assumes "TcpClient_new a fd event el tid rt e = Inr (Some w)"
  shows "rest_of w = e" and "by_client w" and "cw_loop w = el"
  using assms by (auto simp: TcpClient_new_def TcpConnection_new_def setConnectionType_def bind_res_eq_Inr Let_def
      split: if_splits)

lemma CallMethod_Issued:
  assumes "CallMethod ext call th = Some (Inr (Issued w ids))"
  obtains c i th1 st w0 req n el peer l tid rt where "ca_controller call = Some c"
    and "choose_msg_id (ca_random call) c th = Inr (i, th1)"
    and "ch_peer_addr (re_channel (th_env th)) = Some peer"
    and "TcpClient_new peer (ca_fd call) (ca_fd_event call) l tid rt ((th_env th1)\<lparr>re_balancers := st\<rparr>) = Inr (Some w0)"
    and "connect_retries (lift_sys (ca_sys call)) (ca_loop call req) (connect_done ext req) n (w0\<lparr>cw_loop := el\<rparr>) =
      Some (Inr w)"
proof -
  from assms obtain c where c: "ca_controller call = Some c"
    by (auto simp: CallMethod_def refuse_def bind_res_def split: if_splits sum.splits)
  from assms c obtain i th1 where ch: "choose_msg_id (ca_random call) c th = Inr (i, th1)"
    by (auto simp: CallMethod_def Let_def refuse_def bind_res_def split: if_splits sum.splits option.splits)
  from assms c ch obtain st w0 req n el peer l tid rt where "ch_peer_addr (re_channel (th_env th)) = Some peer"
    and "TcpClient_new peer (ca_fd call) (ca_fd_event call) l tid rt ((th_env th1)\<lparr>re_balancers := st\<rparr>) = Inr (Some w0)"
    and "connect_retries (lift_sys (ca_sys call)) (ca_loop call req) (connect_done ext req) n (w0\<lparr>cw_loop := el\<rparr>) =
      Some (Inr w)"
    by (auto simp: CallMethod_def Let_def refuse_def bind_res_def bind_ro_def simp del: connect_retries.simps
        split: if_splits sum.splits option.splits prod.splits)
  then show thesis by (rule that [OF c ch])
qed

lemma CallMethod_settles:
  assumes "CallMethod ext call th = Some (Inr (Issued w ids))" and "ch_controller (re_channel (th_env th)) = Some c"
    and loop: "\<And>req w w'. ca_loop call req w = Some (Inr w') \<Longrightarrow> by_client w \<Longrightarrow>
      settles c (re_runs (th_env th)) (rest_of w) \<Longrightarrow> settles c (re_runs (th_env th)) (rest_of w') \<and> by_client w'"
  shows "settles c (re_runs (th_env th)) (rest_of w) \<and> by_client w"
  using assms(1)
proof (rule CallMethod_Issued)
  fix d i th1 st req n el peer l tid rt and w0 :: "'a rpc_world"
  assume ch: "choose_msg_id (ca_random call) d th = Inr (i, th1)"
    and new: "TcpClient_new peer (ca_fd call) (ca_fd_event call) l tid rt ((th_env th1)\<lparr>re_balancers := st\<rparr>) = Inr (Some w0)"
    and retries: "connect_retries (lift_sys (ca_sys call)) (ca_loop call req) (connect_done ext req) n
      (w0\<lparr>cw_loop := el\<rparr>) = Some (Inr w)"
  note w0 = TcpClient_new_Some(1,2) [OF new]
  have "settles c (re_runs (th_env th)) (rest_of w0)"
    using choose_msg_id_frame(1,2) [OF ch] assms(2) by (simp add: settles_def w0(1))
  then show ?thesis
    using connect_retries_settles [OF _ retries, of c "re_runs (th_env th)"] loop [of req] w0(2) by simp
qed

text \<open>C29. One call, one answer: while \<open>CallMethod\<close> connects (with the loop it may run inside) and after
  it, whatever the sockets do and in whatever order the handlers of the connection and the timer run,
  the closure of the call runs at most once, and once it has run the controller is finished.\<close>

theorem rpc_answered_once:
  assumes "ch_controller (re_channel (th_env th)) = Some c"
    and "ca_loop call = (\<lambda>req. rpc_events ext (ca_sys call) sr sw req evs)"
    and "CallMethod ext call th = Some (Inr (Issued w ids))"
    and "rpc_events ext (ca_sys call) sr sw req evs' w = Some (Inr w')"
  shows "re_runs (rest_of w') = re_runs (th_env th) \<or>
    (\<exists>r. re_runs (rest_of w') = re_runs (th_env th) @ [r]) \<and> Finished (re_controllers (rest_of w') c)"
proof -
  have "settles c (re_runs (th_env th)) (rest_of w) \<and> by_client w"
    by (rule CallMethod_settles [OF assms(3,1)]) (simp add: assms(2), use rpc_events_keep in blast)
  with rpc_events_keep [OF assms(4)] show ?thesis by (auto simp: settles_def)
qed

section \<open>Timeout\<close>

text \<open>C30. A timeout never crashes, fails the call with \<open>ERROR_RPC_CALL_TIMEOUT\<close> and cancels it; but it
  finishes the controller before it asks \<open>callBack\<close> to run the closure, so the closure of a call that
  times out is not run, neither then nor by anything that arrives later.\<close>

theorem rpc_timeout_silent:
  assumes "ch_controller (re_channel (rest_of w)) = Some c" and "\<not> Finished (re_controllers (rest_of w) c)"
    and "by_client w"
  shows "\<exists>w'. rpc_handle ext sys sr sw req (Ev_Timeout c) w = Some (Inr w') \<and>
    GetErrorCode (re_controllers (rest_of w') c) = ERROR_RPC_CALL_TIMEOUT \<and>
    GetErrorInfo (re_controllers (rest_of w') c) =
      ''rpc call timeout '' @ to_string (GetTimeout (re_controllers (rest_of w) c)) \<and>
    (\<forall>evs w''. rpc_events ext sys sr sw req evs w' = Some (Inr w'') \<longrightarrow>
       IsCanceled (re_controllers (rest_of w'') c) \<and> Failed (re_controllers (rest_of w'') c) \<and>
       re_runs (rest_of w'') = re_runs (rest_of w))"
proof -
  let ?e = "rest_of w" and ?c = "re_controllers (rest_of w) c"
  let ?info = "''rpc call timeout '' @ to_string (GetTimeout ?c)"
  let ?e' = "with_controller (SetError ERROR_RPC_CALL_TIMEOUT ?info) c (with_controller StartCancel c ?e)"
  let ?w' = "with_rest (\<lambda>_. ?e') w"
  have "rpc_handle ext sys sr sw req (Ev_Timeout c) w = Some (Inr ?w')"
    using assms(1,2) by (simp add: on_timeout_def Let_def fail_call_def set_error_def call_back_def callBack_def with_rest_def)
  moreover have "silent c (re_runs ?e) (rest_of ?w')" "by_client ?w'"
    using assms(1,3) by (simp_all add: silent_def)
  ultimately show ?thesis
    using rpc_events_keep [of ext sys sr sw req _ ?w' _ c "re_runs ?e"]
    by (intro exI [of _ ?w']) (auto simp: silent_def)
qed

section \<open>An answered call\<close>

text \<open>
  \<open>idle c w\<close>: the client is connected with nothing under way, for a call of controller \<open>c\<close> that is not
  finished.  \<open>awaiting c i w\<close>: its request was written and the response of id \<open>i\<close> is awaited.
\<close>

definition can_end :: "nat \<Rightarrow> 'k rpc_env \<Rightarrow> bool" where
  "can_end c e \<longleftrightarrow> ch_controller (re_channel e) = Some c \<and> ch_closure (re_channel e) \<and> \<not> Finished (re_controllers e c)"

definition idle :: "nat \<Rightarrow> 'k rpc_world \<Rightarrow> bool" where
  "idle c w \<longleftrightarrow> tc_state (cw_conn w) = Connected \<and> by_client w \<and> getConnectErrorCode w = 0 \<and>
     cl_local_addr (client_of w) \<noteq> None \<and> out_ok w \<and> out_bytes w = [] \<and>
     tc_write_dones (cw_conn w) = [] \<and> tc_read_dones (cw_conn w) = [] \<and> can_end c (rest_of w)"

definition awaiting :: "nat \<Rightarrow> string \<Rightarrow> 'k rpc_world \<Rightarrow> bool" where
  "awaiting c i w \<longleftrightarrow> tc_state (cw_conn w) = Connected \<and> by_client w \<and> cl_local_addr (client_of w) \<noteq> None \<and>
     smap_find (tc_read_dones (cw_conn w)) i = Some (Recv_Done (Some c)) \<and>
     wants_in (cw_fd_event w) \<and> fd_handler IN_EVENT (cw_fd_event w) = Some (TcpConnection_onRead (tc_fd (cw_conn w))) \<and>
     can_end c (rest_of w)"

lemma lift_accepting:
  assumes "accepting_socket sw sent_bytes"
  shows "accepting_socket (lift_write sw) (\<lambda>e. sent_bytes (re_sock (ce_rest e)))"
  unfolding accepting_socket_def
proof (intro allI)
  fix e :: "'a rpc_env client_env" and bs
  obtain k where "sw (re_sock (ce_rest e)) bs = (Wrote (int (length bs)), k)"
    "sent_bytes k = sent_bytes (re_sock (ce_rest e)) @ bs"
    using assms unfolding accepting_socket_def by blast
  then show "\<exists>e'. lift_write sw e bs = (Wrote (int (length bs)), e') \<and>
      sent_bytes (re_sock (ce_rest e')) = sent_bytes (re_sock (ce_rest e)) @ bs"
    by (simp add: lift_write_def)
qed

lemma lift_stream:
  assumes "stream_socket sr stream"
  shows "stream_socket (lift_read sr) (\<lambda>e. stream (re_sock (ce_rest e)))"
  using assms unfolding stream_socket_def lift_read_def
  by (auto split: if_splits prod.split) (metis prod.inject)+

interpretation framed: client_invariant "\<lambda>e. ce_client e = cl \<and> (\<exists>k. ce_rest e = r\<lparr>re_sock := k\<rparr>)"
  "lift_read sr" "lift_write sw" "\<lambda>d m w. None" for cl and r :: "'k rpc_env" and sr sw
  by unfold_locales (auto simp: lift_read_def lift_write_def split: prod.split)

lemma request_sent:
  assumes "idle c w" and "accepting_socket sw sent_bytes" and "m_msg_id req \<noteq> []"
    and "packet_length req \<le> out_room w"
  obtains w1 w2 where "connect_done ext req w = Some (Inr w1)" and "getState w1 = Connected"
    and "rpc_handle ext sys sr sw req' Ev_Writable w1 = Some (Inr w2)"
    and "sent_bytes (re_sock (rest_of w2)) = sent_bytes (re_sock (rest_of w)) @ packet req"
    and "awaiting c (m_msg_id req) w2" and "tc_in_buffer (cw_conn w2) = tc_in_buffer (cw_conn w)"
    and "rest_of w2 = (rest_of w)\<lparr>re_sock := re_sock (rest_of w2)\<rparr>"
proof -
  note idle = assms(1) [unfolded idle_def]
  let ?d = "Send_Done (Some c)"
  let ?w1 = "writeMessage req ?d w"
  have w1: "tc_write_dones (cw_conn ?w1) = [(req, ?d)]" "tc_state (cw_conn ?w1) = Connected" "by_client ?w1"
    "out_ok ?w1" "out_bytes ?w1 = []" "out_room ?w1 = out_room w" "cw_sock ?w1 = cw_sock w"
    "tc_in_buffer (cw_conn ?w1) = tc_in_buffer (cw_conn w)"
    "tc_read_dones (cw_conn ?w1) = []" "tc_fd (cw_conn ?w1) = tc_fd (cw_conn w)"
    using idle by (simp_all add: writeMessage_def pushSendMessage_def out_room_def)
  have fe: "wants_out (cw_fd_event ?w1)" "fd_handler OUT_EVENT (cw_fd_event ?w1) = Some (TcpConnection_onWrite (tc_fd (cw_conn w)))"
    by (simp_all add: writeMessage_def listenWrite_def update_epoll_def pushSendMessage_def)
  have req: "with_msg_id req = req" using assms(3) by (simp add: with_msg_id_def)
  have done1: "connect_done ext req w = Some (Inr ?w1)"
    using idle by (simp add: connect_done_def log_addrs_def can_end_def)
  obtain b k where k: "contents b = out_bytes ?w1 @ packet req" "buf_inv b"
    "write_loop (lift_write sw) b (cw_sock ?w1) = Some (Inr (True, k))"
    "sent_bytes (re_sock (ce_rest k)) = sent_bytes (re_sock (ce_rest (cw_sock ?w1))) @ contents b"
    and w: "onWrite (lift_write sw) (run_rpc_done ext) ?w1 =
      bind_ro (run_rpc_done ext ?d (sent req) (update_epoll (?w1\<lparr>cw_conn := (cw_conn ?w1)\<lparr>tc_out_buffer := b,
          tc_write_dones := [(sent req, ?d)]\<rparr>, cw_sock := k, cw_fd_event := fd_cancle OUT_EVENT (cw_fd_event ?w1)\<rparr>))) (\<lambda>w.
      bind_ro (run_write_dones (run_rpc_done ext) 1 w) (\<lambda>w. Some (Inr (with_conn (tc_write_dones_update (\<lambda>_. [])) w))))"
    by (rule onWrite_one [OF lift_accepting [OF assms(2)] w1(4,2,3,1), unfolded req, of "run_rpc_done ext"])
      (use assms(4) w1(6) in simp)
  let ?u = "update_epoll (?w1\<lparr>cw_conn := (cw_conn ?w1)\<lparr>tc_out_buffer := b,
          tc_write_dones := [(sent req, ?d)]\<rparr>, cw_sock := k, cw_fd_event := fd_cancle OUT_EVENT (cw_fd_event ?w1)\<rparr>)"
  let ?v = "readMessage (m_msg_id (sent req)) (Recv_Done (Some c)) ?u"
  let ?w2 = "with_conn (tc_write_dones_update (\<lambda>_. [])) ?v"
  have "\<exists>k. rest_of w = (rest_of w)\<lparr>re_sock := k\<rparr>" by (intro exI [of _ "re_sock (rest_of w)"]) simp
  then obtain k' where frame: "ce_client k = client_of w" "ce_rest k = (rest_of w)\<lparr>re_sock := k'\<rparr>"
    using framed.write_loop_kept [OF k(3), of "client_of w" "rest_of w"] w1(7) by auto
  have "cw_sock ?u = k" "cw_conn ?u = (cw_conn ?w1)\<lparr>tc_out_buffer := b, tc_write_dones := [(sent req, ?d)]\<rparr>"
    by (simp_all add: update_epoll_def)
  note u = this
  have "run_rpc_done ext ?d (sent req) ?u = Some (Inr ?v)"
    using idle by (simp add: log_addrs_def u frame(1))
  moreover have "run_write_dones (run_rpc_done ext) 1 ?v = Some (Inr ?v)"
    by (subst run_write_dones.simps) (simp add: readMessage_def pushReadMessage_def u)
  ultimately have "onWrite (lift_write sw) (run_rpc_done ext) ?w1 = Some (Inr ?w2)" using w by simp
  with fe have "rpc_handle ext sys sr sw req' Ev_Writable ?w1 = Some (Inr ?w2)" by simp
  moreover have "m_msg_id (sent req) = m_msg_id req" by (simp add: sent_def req)
  ultimately show thesis
    using idle k(1,4) w1 frame
    by (intro that [OF done1, of ?w2]) (simp_all add: getState_def awaiting_def readMessage_def pushReadMessage_def u can_end_def
      listenRead_def update_epoll_def smap_find_insert)
qed

lemma response_read:
  assumes "awaiting c i w" and "stream_socket sr stream"
    and "stream (re_sock (rest_of w)) = concat (replicate (Suc n) (packet r))"
    and "m_msg_id r = i" and "i \<noteq> []" and "wf_msg r"
    and "buf_inv (tc_in_buffer (cw_conn w))" and "contents (tc_in_buffer (cw_conn w)) = []"
    and "int (Suc n) * packet_length r < writeAble (tc_in_buffer (cw_conn w))"
  shows "\<exists>w' ctl. rpc_handle ext sys sr sw req Ev_Readable w = Some (Inr w') \<and>
    re_response (rest_of w') = Some (m_pb_data r) \<and> re_runs (rest_of w') = re_runs (rest_of w) @ [ctl] \<and>
    re_controllers (rest_of w') c = SetFinished True ctl \<and>
    ctl = (if \<not> ex_parse ext (m_pb_data r)
           then SetError ERROR_FAILED_SERIALIZE ''serialize error'' (re_controllers (rest_of w) c)
           else if m_err_code r \<noteq> 0 then SetError (m_err_code r) (m_err_info r) (re_controllers (rest_of w) c)
           else re_controllers (rest_of w) c)"
proof -
  note aw = assms(1) [unfolded awaiting_def]
  let ?str = "\<lambda>e. stream (re_sock (ce_rest e))"
  have r: "with_msg_id r = r" using assms(4,5) by (simp add: with_msg_id_def)
  have "int (length (m_buffer (tc_in_buffer (cw_conn w)))) \<le> INT_MAX" using assms(7) by (simp add: buf_inv_def)
  moreover have "int (length (concat (replicate m (packet r)))) = int m * packet_length r" for m
    by (simp add: length_concat sum_list_replicate length_packet)
  ultimately have arr: "arrives (lift_read sr) ?str w (replicate (Suc n) r) []"
    using aw assms lift_stream [OF assms(2)]
    by (simp add: arrives_def map_replicate r incomplete_def announced_def del: replicate_Suc)
  have find: "smap_find (tc_read_dones (cw_conn w)) (m_msg_id (with_msg_id r)) = Some (Recv_Done (Some c))"
    using aw assms(4) by (simp add: r)
  obtain b b' k where k: "read_loop (lift_read sr) (tc_in_buffer (cw_conn w)) (cw_sock w) = Some (Inr (True, False, b', k))"
    "contents b = []" "stream (re_sock (ce_rest k)) = []"
    and on: "onRead (lift_read sr) (run_rpc_done ext) ([] :: (unit, unit) service_map) w =
      bind_ro (run_rpc_done ext (Recv_Done (Some c)) (received r) (w\<lparr>cw_sock := k,
        cw_conn := (cw_conn w)\<lparr>tc_in_buffer := b\<rparr>\<rparr>)) (\<lambda>w.
      Some (Inr (with_conn (tc_read_dones_update (smap_erase (m_msg_id (with_msg_id r)))) w)))"
    by (rule onRead_copies [where run = "run_rpc_done ext" and services = "[] :: (unit, unit) service_map", OF arr _ find])
      (use aw in simp)
  have "\<exists>k. rest_of w = (rest_of w)\<lparr>re_sock := k\<rparr>" by (intro exI [of _ "re_sock (rest_of w)"]) simp
  then obtain k' where frame: "ce_client k = client_of w" "ce_rest k = (rest_of w)\<lparr>re_sock := k'\<rparr>"
    using framed.read_loop_kept [OF k(1), of "client_of w" "rest_of w"] by auto
  let ?u = "w\<lparr>cw_sock := k, cw_conn := (cw_conn w)\<lparr>tc_in_buffer := b\<rparr>\<rparr>"
  have rec: "m_pb_data (received r) = m_pb_data r" "m_err_code (received r) = m_err_code r"
    "m_err_info (received r) = m_err_info r"
    by (simp_all add: received_def sent_def)
  have "\<exists>w' ctl. run_rpc_done ext (Recv_Done (Some c)) (received r) ?u = Some (Inr w') \<and>
    re_response (rest_of w') = Some (m_pb_data r) \<and> re_runs (rest_of w') = re_runs (rest_of w) @ [ctl] \<and>
    re_controllers (rest_of w') c = SetFinished True ctl \<and>
    ctl = (if \<not> ex_parse ext (m_pb_data r)
           then SetError ERROR_FAILED_SERIALIZE ''serialize error'' (re_controllers (rest_of w) c)
           else if m_err_code r \<noteq> 0 then SetError (m_err_code r) (m_err_info r) (re_controllers (rest_of w) c)
           else re_controllers (rest_of w) c)"
    using aw by (auto simp: log_addrs_def frame rec can_end_def Let_def fail_call_def set_error_def call_back_def
        callBack_def with_controller_def split: prod.split)
  then show ?thesis using aw on by auto
qed

lemma TcpClient_new_ok:
  assumes "0 \<le> fd"
  obtains w where "TcpClient_new a fd event el tid rt e = Inr (Some w)" and "rest_of w = e" and "by_client w"
    and "client_of w = \<lparr>cl_peer_addr = a, cl_local_addr = None, cl_fd = fd, cl_connect_error_code = 0,
      cl_connect_error_info = []\<rparr>"
    and "getState w = NotConnected" and "tc_write_dones (cw_conn w) = []" and "tc_read_dones (cw_conn w) = []"
    and "out_ok w" and "out_bytes w = []" and "out_room w = WRITE_LIMIT"
    and "buf_inv (tc_in_buffer (cw_conn w))" and "contents (tc_in_buffer (cw_conn w)) = []"
    and "writeAble (tc_in_buffer (cw_conn w)) = 128"
proof -
  let ?b = "\<lparr>m_read_index = 0, m_write_index = 0, m_size = 128, m_buffer = replicate 128 NUL\<rparr>"
  have "tcp_buffer_init 128 = Inr ?b" by (simp add: tcp_buffer_init_def new_bytes_def)
  moreover have "buf_inv ?b" "contents ?b = []" "writeAble ?b = 128" "m_write_index ?b = 0"
    by (simp_all add: buf_inv_def contents_def readAble_def writeAble_def wrap32_def)
  ultimately obtain b where b: "tcp_buffer_init 128 = Inr b" "buf_inv b" "contents b = []" "writeAble b = 128"
    "m_write_index b = 0" by blast
  show thesis
    by (rule that [of "\<lparr>cw_conn = \<lparr>tc_local_addr = None, tc_peer_addr = Some a, tc_in_buffer = b, tc_out_buffer = b,
        tc_state = NotConnected, tc_fd = fd, tc_connection_type = TcpConnectionByClient, tc_write_dones = [],
        tc_read_dones = []\<rparr>, cw_fd_event = event, cw_loop = el, cw_tid = tid, cw_run_time = rt,
        cw_sock = \<lparr>ce_client = \<lparr>cl_peer_addr = a, cl_local_addr = None, cl_fd = fd, cl_connect_error_code = 0,
          cl_connect_error_info = []\<rparr>, ce_rest = e\<rparr>\<rparr>"])
      (use assms b in \<open>simp_all add: TcpClient_new_def TcpConnection_new_def setConnectionType_def getState_def
        out_room_def\<close>)
qed

lemma call_connects:
  assumes "re_channel (th_env th) = RpcChannel_Init (Some c) True (RpcChannel_of_addr (Some a))"
    and "ca_controller call = Some c" and "\<not> ca_request_null call" and "\<not> ca_response_null call"
    and "ca_serialized call = Some data" and "0 \<le> ca_fd call"
    and "\<not> Finished (re_controllers (th_env th) c)" and "GetMsgId (re_controllers (th_env th) c) = i" and "i \<noteq> []"
    and "0 < GetMaxRetry (re_controllers (th_env th) c)"
    and "sys_connect (ca_sys call) (ca_fd call) (getSockAddr a) (re_sock (th_env th)) = (Connect_Ok, k)"
    and "sys_getsockname (ca_sys call) (ca_fd call) k = Some l"
    and "req = tinypb_new\<lparr>m_msg_id := i, m_method_name := ca_full_name call, m_pb_data := data\<rparr>"
  obtains w where "idle c w"
    and "\<And>w1. connect_done ext req w = Some (Inr w1) \<Longrightarrow> getState w1 = Connected \<Longrightarrow>
        CallMethod ext call th = Some (Inr (Issued w1 (th_msg_ids th)))"
    and "rest_of w = (th_env th)\<lparr>re_sock := k\<rparr>" and "out_room w = WRITE_LIMIT"
    and "buf_inv (tc_in_buffer (cw_conn w))" and "contents (tc_in_buffer (cw_conn w)) = []"
    and "writeAble (tc_in_buffer (cw_conn w)) = 128"
proof -
  let ?e = "th_env th" and ?sys = "lift_sys (ca_sys call)"
  obtain w0 :: "'a rpc_world" where w0: "TcpClient_new a (ca_fd call) (ca_fd_event call) (th_loop th) (th_tid th) (th_run_time th) ?e =
      Inr (Some w0)" "rest_of w0 = ?e" "by_client w0"
    "client_of w0 = \<lparr>cl_peer_addr = a, cl_local_addr = None, cl_fd = ca_fd call, cl_connect_error_code = 0,
      cl_connect_error_info = []\<rparr>"
    "getState w0 = NotConnected" "tc_write_dones (cw_conn w0) = []" "tc_read_dones (cw_conn w0) = []"
    "out_ok w0" "out_bytes w0 = []" "out_room w0 = WRITE_LIMIT"
    "buf_inv (tc_in_buffer (cw_conn w0))" "contents (tc_in_buffer (cw_conn w0)) = []"
    "writeAble (tc_in_buffer (cw_conn w0)) = 128"
    by (rule TcpClient_new_ok [OF assms(6)])
  define timed where "timed = w0\<lparr>cw_loop := EventLoop_addTimerEvent (ca_clock call) (ca_timer_id call)
      ((cw_loop w0)\<lparr>el_timer := TimerEvent_new (ca_clock call) (ca_timer_id call)
        (GetTimeout (re_controllers ?e c)) False (Some (RpcChannel_onTimeout c)) (el_timer (cw_loop w0))\<rparr>)\<rparr>"
  have timed: "client_of timed = client_of w0" "rest_of timed = ?e" "cw_conn timed = cw_conn w0"
    by (simp_all add: timed_def w0(2))
  define w where "w = initLocalAddr ?sys (setState Connected (with_rest (\<lambda>_. ?e\<lparr>re_sock := k\<rparr>) timed))"
  have connect: "TcpClient_connect ?sys loop (Some d) timed = d w" for loop d
    using assms(11) by (simp add: TcpClient_connect_def call_connect_def timed w0(4) lift_sys_def w_def)
  have chan: "ch_peer_addr (re_channel ?e) = Some a" "ch_is_init (re_channel ?e)" "ch_addrs (re_channel ?e) = [a]"
    "ch_load_balancer (re_channel ?e) = Random" "ch_controller (re_channel ?e) = Some c" "ch_closure (re_channel ?e)"
    using assms(1) by (simp_all add: RpcChannel_Init_def RpcChannel_of_addr_def queryStrategy_def)
  have select: "strategy_select (ca_std_hash call) (ca_rand call) Random [a] tmp (re_balancers ?e) =
      Inr (a, re_balancers ?e)" for tmp
    by (simp add: strategy_select_def random_select_def at_index_def)
  have "idle c w"
    using w0 timed chan assms(7,12)
    by (simp add: idle_def w_def can_end_def getConnectErrorCode_def initLocalAddr_def lift_sys_def)
  moreover have "CallMethod ext call th = Some (Inr (Issued w1 (th_msg_ids th)))"
    if "connect_done ext req w = Some (Inr w1)" "getState w1 = Connected" for w1
  proof -
    obtain n where n: "nat (GetMaxRetry (re_controllers ?e c)) = Suc n" using assms(10) by (cases "nat (GetMaxRetry (re_controllers ?e c))") auto
    have rest: "connect_retries ?sys loop d n w1 = Some (Inr w1)" for loop d
      using that(2) by (cases n) simp_all
    have "connect_retries ?sys (ca_loop call req) (connect_done ext req) (Suc n) timed = Some (Inr w1)"
      using that(1) w0(5) by (simp add: connect rest getState_def timed)
    then show ?thesis
      using assms(2-5,8,9) unfolding CallMethod_def
      by (simp add: chan select choose_msg_id_def w0(1) n assms(13) Let_def del: connect_retries.simps)
        (simp add: timed_def [unfolded w0(2)] del: connect_retries.simps)
  qed
  moreover have "rest_of w = ?e\<lparr>re_sock := k\<rparr>" "out_room w = WRITE_LIMIT" "tc_in_buffer (cw_conn w) = tc_in_buffer (cw_conn w0)"
    using w0(10) by (simp_all add: w_def timed out_room_def)
  ultimately show thesis using w0(11-13) by (intro that [of w]) simp_all
qed

text \<open>A call that works, from the stub to the closure: when \<open>connect\<close> succeeds at once, \<open>CallMethod\<close>
  issues the call; the writable socket carries exactly the packet of the request; and when a response
  with the id of the request arrives, in one copy or several, whole and in fewer than the 128 bytes of
  the fresh input buffer, the closure runs once.  It finds the controller as it was, unless the
  response does not parse or carries an error code: then it finds that error, and the response was
  parsed all the same.\<close>

theorem rpc_completes:
  assumes "re_channel (th_env th) = RpcChannel_Init (Some c) True (RpcChannel_of_addr (Some a))"
    and "ca_controller call = Some c" and "\<not> ca_request_null call" and "\<not> ca_response_null call"
    and "ca_serialized call = Some data" and "0 \<le> ca_fd call" and "ctl = re_controllers (th_env th) c"
    and "\<not> Finished ctl" and "GetMsgId ctl = i" and "i \<noteq> []" and "0 < GetMaxRetry ctl"
    and "sys_connect (ca_sys call) (ca_fd call) (getSockAddr a) (re_sock (th_env th)) = (Connect_Ok, k)"
    and "sys_getsockname (ca_sys call) (ca_fd call) k = Some l"
    and "accepting_socket sw sent_bytes" and "stream_socket sr stream"
    and "req = tinypb_new\<lparr>m_msg_id := i, m_method_name := ca_full_name call, m_pb_data := data\<rparr>"
    and "packet_length req \<le> WRITE_LIMIT"
  shows "\<exists>w w'. CallMethod ext call th = Some (Inr (Issued w (th_msg_ids th))) \<and>
    rpc_handle ext (ca_sys call) sr sw req Ev_Writable w = Some (Inr w') \<and>
    sent_bytes (re_sock (rest_of w')) = sent_bytes k @ packet req \<and> re_runs (rest_of w') = re_runs (th_env th) \<and>
    (\<forall>k' r n. stream k' = concat (replicate (Suc n) (packet r)) \<and> m_msg_id r = i \<and> wf_msg r \<and>
        int (Suc n) * packet_length r < 128 \<longrightarrow>
      (\<exists>w'' end. rpc_handle ext (ca_sys call) sr sw req Ev_Readable (with_rest (re_sock_update (\<lambda>_. k')) w') =
           Some (Inr w'') \<and>
         re_response (rest_of w'') = Some (m_pb_data r) \<and> re_runs (rest_of w'') = re_runs (th_env th) @ [end] \<and>
         re_controllers (rest_of w'') c = SetFinished True end \<and>
         end = (if \<not> ex_parse ext (m_pb_data r) then SetError ERROR_FAILED_SERIALIZE ''serialize error'' ctl
                else if m_err_code r \<noteq> 0 then SetError (m_err_code r) (m_err_info r) ctl else ctl)))"
proof -
  obtain w where w: "idle c w"
    "\<And>w1. connect_done ext req w = Some (Inr w1) \<Longrightarrow> getState w1 = Connected \<Longrightarrow>
      CallMethod ext call th = Some (Inr (Issued w1 (th_msg_ids th)))"
    "rest_of w = (th_env th)\<lparr>re_sock := k\<rparr>" "out_room w = WRITE_LIMIT"
    "buf_inv (tc_in_buffer (cw_conn w))" "contents (tc_in_buffer (cw_conn w)) = []"
    "writeAble (tc_in_buffer (cw_conn w)) = 128"
    by (rule call_connects [OF assms(1-6) _ _ assms(10) _ assms(12,13,16), of ext]) (use assms(7-9,11) in simp_all)
  have "m_msg_id req \<noteq> []" "packet_length req \<le> out_room w" using assms(10,16,17) w(4) by simp_all
  from request_sent [OF w(1) assms(14) this] obtain w1 w2 where w2: "connect_done ext req w = Some (Inr w1)"
    "getState w1 = Connected" "rpc_handle ext (ca_sys call) sr sw req Ev_Writable w1 = Some (Inr w2)"
    "sent_bytes (re_sock (rest_of w2)) = sent_bytes (re_sock (rest_of w)) @ packet req"
    "awaiting c (m_msg_id req) w2" "tc_in_buffer (cw_conn w2) = tc_in_buffer (cw_conn w)"
    "rest_of w2 = (rest_of w)\<lparr>re_sock := re_sock (rest_of w2)\<rparr>" by metis
  have same: "re_runs (rest_of w2) = re_runs (th_env th)" "re_controllers (rest_of w2) c = ctl"
    using w2(7) w(3) assms(7) by (metis rpc_env.select_convs rpc_env.surjective rpc_env.update_convs(6))+
  have "awaiting c i (with_rest (re_sock_update (\<lambda>_. k')) w2)" for k'
    using w2(5) assms(16) by (simp add: awaiting_def can_end_def)
  note read = response_read [OF this assms(15) _ _ assms(10)]
  show ?thesis
  proof (rule exI [of _ w1], rule exI [of _ w2], intro conjI allI impI)
    show "CallMethod ext call th = Some (Inr (Issued w1 (th_msg_ids th)))" by (rule w(2) [OF w2(1,2)])
    show "sent_bytes (re_sock (rest_of w2)) = sent_bytes k @ packet req" using w2(4) w(3) by simp
    fix k' r n
    assume "stream k' = concat (replicate (Suc n) (packet r)) \<and> m_msg_id r = i \<and> wf_msg r \<and> int (Suc n) * packet_length r < 128"
    then show "\<exists>w'' end. rpc_handle ext (ca_sys call) sr sw req Ev_Readable (with_rest (re_sock_update (\<lambda>_. k')) w2) =
           Some (Inr w'') \<and>
         re_response (rest_of w'') = Some (m_pb_data r) \<and> re_runs (rest_of w'') = re_runs (th_env th) @ [end] \<and>
         re_controllers (rest_of w'') c = SetFinished True end \<and>
         end = (if \<not> ex_parse ext (m_pb_data r) then SetError ERROR_FAILED_SERIALIZE ''serialize error'' ctl
                else if m_err_code r \<noteq> 0 then SetError (m_err_code r) (m_err_info r) ctl else ctl)"
      using read [of k' n r ext "ca_sys call" sw req] w2(6) w(5-7) same
      by (simp del: rpc_handle.simps replicate_Suc of_nat_Suc cong: if_cong split del: if_split)
  qed (rule w2(3) same(1))+
qed

section \<open>Examples\<close>

text \<open>A socket as the bytes to read and the bytes written, a peer that accepts or refuses the connection,
  and a call of a controller with id 1.\<close>

definition pair_read :: "(char list \<times> char list) sys_read" where
  "pair_read k n = (if fst k = [] then (Read_Again, k)
     else (Read_Bytes (take (nat n) (fst k)), (drop (nat n) (fst k), snd k)))"

definition pair_write :: "(char list \<times> char list) sys_write" where
  "pair_write k bs = (Wrote (int (length bs)), (fst k, snd k @ bs))"

definition pair_sys :: "connect_ret \<Rightarrow> (char list \<times> char list) client_sys" where
  "pair_sys rt = \<lparr>sys_connect = \<lambda>fd a k. (rt, k), sys_socket = \<lambda>k. (6, k), sys_close = \<lambda>fd k. k,
     sys_getsockname = \<lambda>fd k. Some \<lparr>sin_family = 2, sin_addr = 0, sin_port = 0\<rparr>, sys_strerror = \<lambda>n. [], sys_inet_ntoa = \<lambda>n. []\<rparr>"

definition sample_ext :: "(char list \<times> char list) rpc_ext" where
  "sample_ext = \<lparr>ex_callback = Some (\<lambda>ctl s. s), ex_parse = \<lambda>s. True, ex_info_log = True\<rparr>"

definition sample_thread :: "rpc_channel \<Rightarrow> (char list \<times> char list) rpc_thread" where
  "sample_thread ch = \<lparr>th_env = \<lparr>re_channel = ch, re_controllers = \<lambda>c. SetMsgId ''1'' rpc_controller_new,
       re_runs = [], re_response = None, re_balancers = \<lparr>lb_index = 0, lb_selectors = []\<rparr>, re_sock = ([], [])\<rparr>,
     th_loop = the (EventLoop_new None 1 3 4 5), th_tid = 1, th_run_time = None,
     th_msg_ids = \<lparr>t_msg_id_no = [], t_max_msg_id_no = []\<rparr>\<rparr>"

definition sample_call :: "string option \<Rightarrow> connect_ret \<Rightarrow> (char list \<times> char list) rpc_call" where
  "sample_call data rt = \<lparr>ca_full_name = ''S.m'', ca_controller = Some 0, ca_request_null = False,
     ca_response_null = False, ca_serialized = data, ca_random = [], ca_std_hash = \<lambda>s. 0, ca_rand = 7,
     ca_fd = 5, ca_fd_event = fd_event_new 5, ca_clock = \<lambda>n. 0, ca_timer_id = 0, ca_sys = pair_sys rt,
     ca_loop = (\<lambda>req. rpc_events sample_ext (pair_sys rt) pair_read pair_write req [])\<rparr>"

lemma pair_laws: "stream_socket pair_read fst" "accepting_socket pair_write snd"
  by (auto simp: stream_socket_def accepting_socket_def pair_read_def pair_write_def)

abbreviation stub_channel :: rpc_channel where
  "stub_channel \<equiv> RpcChannel_Init (Some 0) True (RpcChannel_of_addr (Some (sample_addr 80)))"

abbreviation sample_req :: tinypb where
  "sample_req \<equiv> tinypb_new\<lparr>m_msg_id := ''1'', m_method_name := ''S.m'', m_pb_data := ''x''\<rparr>"

lemma sample_call_simps [simp]:
  "ca_full_name (sample_call data rt) = ''S.m''" "ca_controller (sample_call data rt) = Some 0"
  "\<not> ca_request_null (sample_call data rt)" "\<not> ca_response_null (sample_call data rt)"
  "ca_serialized (sample_call data rt) = data" "ca_fd (sample_call data rt) = 5"
  "ca_sys (sample_call data rt) = pair_sys rt" "sys_connect (pair_sys rt) fd a k = (rt, k)"
  "sys_getsockname (pair_sys rt) fd k = Some \<lparr>sin_family = 2, sin_addr = 0, sin_port = 0\<rparr>"
  by (simp_all add: sample_call_def pair_sys_def)

lemma sample_thread_simps [simp]:
  "re_channel (th_env (sample_thread ch)) = ch" "re_runs (th_env (sample_thread ch)) = []"
  "re_controllers (th_env (sample_thread ch)) c = SetMsgId ''1'' rpc_controller_new"
  "re_sock (th_env (sample_thread ch)) = ([], [])"
  by (simp_all add: sample_thread_def)

lemma sample_controller [simp]:
  "\<not> Finished rpc_controller_new" "GetMaxRetry (SetMsgId i rpc_controller_new) = 2" "GetErrorCode (SetMsgId i rpc_controller_new) = 0"
  by (simp_all add: controller_defs rpc_controller_new_def)

lemma sample_req: "packet_length sample_req = 31" "wf_msg sample_req"
  by (simp_all add: packet_length_def wf_msg_def tinypb_new_def in_int32_def)

abbreviation accepted_call :: "(char list \<times> char list) rpc_call" where
  "accepted_call \<equiv> sample_call (Some ''x'') Connect_Ok"

abbreviation stub_thread :: "(char list \<times> char list) rpc_thread" where
  "stub_thread \<equiv> sample_thread stub_channel"

lemma sample_prems:
  "re_channel (th_env stub_thread) = stub_channel" "ca_controller accepted_call = Some 0" "\<not> ca_request_null accepted_call"
    "\<not> ca_response_null accepted_call" "ca_serialized accepted_call = Some ''x''" "0 \<le> ca_fd accepted_call"
    "SetMsgId ''1'' rpc_controller_new = re_controllers (th_env stub_thread) 0" "\<not> Finished (SetMsgId ''1'' rpc_controller_new)"
    "GetMsgId (SetMsgId ''1'' rpc_controller_new) = ''1''" "''1'' \<noteq> []" "0 < GetMaxRetry (SetMsgId ''1'' rpc_controller_new)"
    "sys_connect (ca_sys accepted_call) (ca_fd accepted_call) (getSockAddr (sample_addr 80)) (re_sock (th_env stub_thread)) = (Connect_Ok, ([], []))"
    "sys_getsockname (ca_sys accepted_call) (ca_fd accepted_call) ([], []) = Some \<lparr>sin_family = 2, sin_addr = 0, sin_port = 0\<rparr>"
    "sample_req = tinypb_new\<lparr>m_msg_id := ''1'', m_method_name := ca_full_name accepted_call, m_pb_data := ''x''\<rparr>"
    "packet_length sample_req \<le> WRITE_LIMIT"
  by (simp_all add: sample_req)

lemma sample_issued:
  obtains w :: "(char list \<times> char list) rpc_world" and w' w'' where "idle 0 w"
    and "CallMethod sample_ext accepted_call stub_thread = Some (Inr (Issued w' (th_msg_ids stub_thread)))"
    and "rpc_handle sample_ext (pair_sys Connect_Ok) pair_read pair_write sample_req Ev_Writable w' = Some (Inr w'')"
proof -
  obtain w where w: "idle 0 w" "out_room w = WRITE_LIMIT"
    "\<And>w1. connect_done sample_ext sample_req w = Some (Inr w1) \<Longrightarrow> getState w1 = Connected \<Longrightarrow>
      CallMethod sample_ext accepted_call stub_thread = Some (Inr (Issued w1 (th_msg_ids stub_thread)))"
    by (rule call_connects [OF sample_prems(1-6) _ _ sample_prems(10) _ sample_prems(12,13,14), of sample_ext]) simp_all
  have "m_msg_id sample_req \<noteq> []" "packet_length sample_req \<le> out_room w"
    using sample_prems(15) w(2) by simp_all
  from request_sent [OF w(1) pair_laws(2) this] obtain w1 w2 where "connect_done sample_ext sample_req w = Some (Inr w1)"
    "getState w1 = Connected"
    "rpc_handle sample_ext (pair_sys Connect_Ok) pair_read pair_write sample_req Ev_Writable w1 = Some (Inr w2)" by metis
  then show thesis by (intro that [OF w(1)] w(3))
qed

theorem rpc_refusals_witness:
  "(\<exists>th r. CallMethod sample_ext (sample_call None Connect_Ok) (sample_thread stub_channel) = Some (Inr (Refused th)) \<and>
     re_runs (th_env th) = [r] \<and> GetErrorCode r = ERROR_FAILED_SERIALIZE) \<and>
   (\<exists>th r. CallMethod sample_ext ((sample_call (Some ''x'') Connect_Ok)\<lparr>ca_request_null := True\<rparr>)
       (sample_thread stub_channel) = Some (Inr (Refused th)) \<and>
     re_runs (th_env th) = [r] \<and> GetErrorCode r = ERROR_RPC_CHANNEL_INIT)"
proof
  have peer: "ch_peer_addr stub_channel \<noteq> None" by (simp add: RpcChannel_Init_def RpcChannel_of_addr_def)
  note refusals = rpc_refusals [of _ sample_ext "sample_thread stub_channel" "Some (sample_addr 80)" "[]" Random,
      THEN conjunct2, THEN conjunct2, THEN conjunct1, rule_format, of 0]
  have "\<exists>x. choose_msg_id (ca_random (sample_call None Connect_Ok)) 0 (sample_thread stub_channel) = Inr x"
    by (simp add: choose_msg_id_def)
  with refusals [of "sample_call None Connect_Ok"] peer
  show "\<exists>th r. CallMethod sample_ext (sample_call None Connect_Ok) (sample_thread stub_channel) = Some (Inr (Refused th)) \<and>
     re_runs (th_env th) = [r] \<and> GetErrorCode r = ERROR_FAILED_SERIALIZE" by (simp del: not_None_eq) blast
  let ?call = "(sample_call (Some ''x'') Connect_Ok)\<lparr>ca_request_null := True\<rparr>"
  from refusals [of ?call]
  show "\<exists>th r. CallMethod sample_ext ?call (sample_thread stub_channel) = Some (Inr (Refused th)) \<and>
     re_runs (th_env th) = [r] \<and> GetErrorCode r = ERROR_RPC_CHANNEL_INIT" by simp blast
qed

theorem rpc_answered_once_witness:
  "\<exists>w w'. CallMethod sample_ext accepted_call stub_thread = Some (Inr (Issued w (th_msg_ids stub_thread))) \<and>
     rpc_events sample_ext (pair_sys Connect_Ok) pair_read pair_write sample_req [Ev_Writable] w = Some (Inr w') \<and>
     length (re_runs (rest_of w')) \<le> 1"
proof -
  obtain w w' where w: "CallMethod sample_ext accepted_call stub_thread = Some (Inr (Issued w (th_msg_ids stub_thread)))"
    "rpc_handle sample_ext (pair_sys Connect_Ok) pair_read pair_write sample_req Ev_Writable w = Some (Inr w')"
    by (rule sample_issued)
  have ch: "ch_controller (re_channel (th_env stub_thread)) = Some 0"
    by (simp add: RpcChannel_Init_def RpcChannel_of_addr_def)
  have loop: "ca_loop accepted_call = (\<lambda>req. rpc_events sample_ext (ca_sys accepted_call) pair_read pair_write req [])"
    by (simp add: sample_call_def)
  have ev: "rpc_events sample_ext (ca_sys accepted_call) pair_read pair_write sample_req [Ev_Writable] w = Some (Inr w')"
    using w(2) by (simp del: rpc_handle.simps)
  have "length (re_runs (rest_of w')) \<le> 1"
    using rpc_answered_once [OF ch loop w(1) ev] by auto
  with w(1) ev show ?thesis unfolding sample_call_simps by blast
qed

theorem rpc_timeout_silent_witness:
  "\<exists>w w'. rpc_handle sample_ext (pair_sys Connect_Ok) pair_read pair_write sample_req (Ev_Timeout 0) w = Some (Inr w') \<and>
     GetErrorCode (re_controllers (rest_of w') 0) = ERROR_RPC_CALL_TIMEOUT \<and>
     re_runs (rest_of w') = re_runs (rest_of w)"
proof -
  obtain w :: "(char list \<times> char list) rpc_world" where "idle 0 w" by (rule sample_issued)
  then have w: "ch_controller (re_channel (rest_of w)) = Some 0" "\<not> Finished (re_controllers (rest_of w) 0)" "by_client w"
    by (simp_all add: idle_def can_end_def)
  obtain w' where "rpc_handle sample_ext (pair_sys Connect_Ok) pair_read pair_write sample_req (Ev_Timeout 0) w = Some (Inr w')"
    "GetErrorCode (re_controllers (rest_of w') 0) = ERROR_RPC_CALL_TIMEOUT"
    "\<And>evs w''. rpc_events sample_ext (pair_sys Connect_Ok) pair_read pair_write sample_req evs w' = Some (Inr w'') \<Longrightarrow>
      re_runs (rest_of w'') = re_runs (rest_of w)"
    using rpc_timeout_silent [OF w, of sample_ext "pair_sys Connect_Ok" pair_read pair_write sample_req] by blast
  moreover from this(3) [of "[]"] have "re_runs (rest_of w') = re_runs (rest_of w)" by simp
  ultimately show ?thesis by blast
qed

theorem rpc_completes_witness:
  "\<exists>w w' w''. CallMethod sample_ext (sample_call (Some ''x'') Connect_Ok) (sample_thread stub_channel) =
       Some (Inr (Issued w (th_msg_ids (sample_thread stub_channel)))) \<and>
     rpc_handle sample_ext (pair_sys Connect_Ok) pair_read pair_write sample_req Ev_Writable w = Some (Inr w') \<and>
     snd (re_sock (rest_of w')) = packet sample_req \<and>
     rpc_handle sample_ext (pair_sys Connect_Ok) pair_read pair_write sample_req Ev_Readable
       (with_rest (re_sock_update (\<lambda>_. (packet sample_req, []))) w') = Some (Inr w'') \<and>
     re_response (rest_of w'') = Some ''x'' \<and> re_runs (rest_of w'') = [SetMsgId ''1'' rpc_controller_new]"
proof -
  have ext: "ex_parse sample_ext s" for s by (simp add: sample_ext_def)
  have err: "m_err_code sample_req = 0" "m_pb_data sample_req = ''x''" by (simp_all add: tinypb_new_def)
  let ?call = "sample_call (Some ''x'') Connect_Ok" and ?th = "sample_thread stub_channel"
  from rpc_completes [OF sample_prems(1-13) pair_laws(2,1) sample_prems(14,15), of sample_ext]
  obtain w w' where w: "CallMethod sample_ext ?call ?th = Some (Inr (Issued w (th_msg_ids ?th)))"
     "rpc_handle sample_ext (pair_sys Connect_Ok) pair_read pair_write sample_req Ev_Writable w = Some (Inr w')"
     "snd (re_sock (rest_of w')) = packet sample_req"
     and read: "\<And>k' r n. fst k' = concat (replicate (Suc n) (packet r)) \<and> m_msg_id r = ''1'' \<and> wf_msg r \<and>
       int (Suc n) * packet_length r < 128 \<Longrightarrow>
      \<exists>w'' end. rpc_handle sample_ext (pair_sys Connect_Ok) pair_read pair_write sample_req Ev_Readable
          (with_rest (re_sock_update (\<lambda>_. k')) w') = Some (Inr w'') \<and>
         re_response (rest_of w'') = Some (m_pb_data r) \<and> re_runs (rest_of w'') = [end] \<and>
         re_controllers (rest_of w'') 0 = SetFinished True end \<and>
         end = (if \<not> ex_parse sample_ext (m_pb_data r) then SetError ERROR_FAILED_SERIALIZE ''serialize error'' (SetMsgId ''1'' rpc_controller_new)
                else if m_err_code r \<noteq> 0 then SetError (m_err_code r) (m_err_info r) (SetMsgId ''1'' rpc_controller_new)
                else SetMsgId ''1'' rpc_controller_new)"
    unfolding sample_call_simps sample_thread_simps snd_conv append_Nil by blast
  from read [of "(packet sample_req, [])" 0 sample_req] obtain w'' where
    "rpc_handle sample_ext (pair_sys Connect_Ok) pair_read pair_write sample_req Ev_Readable
       (with_rest (re_sock_update (\<lambda>_. (packet sample_req, []))) w') = Some (Inr w'')"
    "re_response (rest_of w'') = Some ''x''" "re_runs (rest_of w'') = [SetMsgId ''1'' rpc_controller_new]"
    using sample_req err by (auto simp: ext)
  with w show ?thesis by blast
qed

end
