(* ===== verification/Logger.thy ===== *)
theory Logger
  imports Config Event_Loop Rpc_Controller
begin

text \<open>
  \<open>common/log.{h,cc}\<close>: the loggers of the process.  A message is formatted in the thread that logs it,
  kept in a buffer of \<open>Logger\<close>, handed over in batches by \<open>syncLoop\<close>, and written by the thread of an
  \<open>AsyncLogger\<close>, one batch a turn.  Files are a map from names to contents; whether a file can be opened
  and what \<open>ftell\<close> says of a file just opened for appending are arguments.  The steps of the threads are
  atomic here because each works on the shared queues under their mutex.
\<close>

section \<open>Levels\<close>

datatype LogLevel = Unknown | Debug | Info | Error

instantiation LogLevel :: linorder
begin

fun less_eq_LogLevel :: "LogLevel \<Rightarrow> LogLevel \<Rightarrow> bool" where
  "Unknown \<le> l \<longleftrightarrow> True"
| "Debug \<le> l \<longleftrightarrow> l \<noteq> Unknown"
| "Info \<le> l \<longleftrightarrow> l = Info \<or> l = Error"
| "Error \<le> l \<longleftrightarrow> l = Error"

definition less_LogLevel :: "LogLevel \<Rightarrow> LogLevel \<Rightarrow> bool" where
  "(l :: LogLevel) < k \<longleftrightarrow> l \<le> k \<and> \<not> k \<le> l"

instance
proof
  fix j k l :: LogLevel
  show "j < k \<longleftrightarrow> j \<le> k \<and> \<not> k \<le> j" by (simp add: less_LogLevel_def)
  show "j \<le> j" by (cases j) simp_all
  show "j \<le> l" if "j \<le> k" "k \<le> l" using that by (cases j; cases k) auto
  show "j = k" if "j \<le> k" "k \<le> j" using that by (cases j; cases k) auto
  show "j \<le> k \<or> k \<le> j" by (cases j; cases k) auto
qed

end

definition LogLevelToString :: "LogLevel \<Rightarrow> string" where
  "LogLevelToString level = (case level of Debug \<Rightarrow> ''DEBUG'' | Info \<Rightarrow> ''INFO'' | Error \<Rightarrow> ''ERROR''
     | _ \<Rightarrow> ''UNKNOWN'')"

definition StringToLogLevel :: "string \<Rightarrow> LogLevel" where
  "StringToLogLevel log_level = (if log_level = ''DEBUG'' then Debug else if log_level = ''INFO'' then Info
     else if log_level = ''ERROR'' then Error else Unknown)"

section \<open>The writing thread\<close>

record file_handle =
  fh_name :: string
  fh_pos :: int                      \<comment> \<open>what \<open>ftell\<close> says\<close>

record async_logger =
  al_buffer :: "string list list"
  al_file_name :: string
  al_file_path :: string
  al_max_file_size :: int
  al_date :: string
  al_file_handler :: "file_handle option"
  al_reopen_flag :: bool
  al_no :: int
  al_stop_flag :: bool

type_synonym files = "string \<Rightarrow> string"

record log_sys =
  ls_can_open :: "string \<Rightarrow> bool"
  ls_tell_opened :: "int \<Rightarrow> int"     \<comment> \<open>from the size of a file opened with mode \<open>a\<close>\<close>

definition AsyncLogger_new :: "string \<Rightarrow> string \<Rightarrow> int \<Rightarrow> async_logger" where
  "AsyncLogger_new file_name file_path max_size = \<lparr>al_buffer = [], al_file_name = file_name,
     al_file_path = file_path, al_max_file_size = max_size, al_date = [], al_file_handler = None,
     al_reopen_flag = False, al_no = 0, al_stop_flag = False\<rparr>"

definition pushLogBuffer :: "string list \<Rightarrow> async_logger \<Rightarrow> async_logger" where
  "pushLogBuffer vec al = al\<lparr>al_buffer := al_buffer al @ [vec]\<rparr>"

definition AsyncLogger_stop :: "async_logger \<Rightarrow> async_logger" where
  "AsyncLogger_stop al = al\<lparr>al_stop_flag := True\<rparr>"

definition fopen_append :: "log_sys \<Rightarrow> files \<Rightarrow> string \<Rightarrow> file_handle option" where
  "fopen_append sys fs name =
     (if ls_can_open sys name then Some \<lparr>fh_name = name, fh_pos = ls_tell_opened sys (int (length (fs name)))\<rparr> else None)"

fun write_log :: "string list \<Rightarrow> file_handle \<times> files \<Rightarrow> file_handle \<times> files" where
  \<comment> \<open>the \<open>fwrite\<close>s of a batch: in append mode they write at the end of the file\<close>
  "write_log [] (h, fs) = (h, fs)"
| "write_log (i # tmp) (h, fs) =
     (if i = [] then write_log tmp (h, fs)
      else let fs = fs(fh_name h := fs (fh_name h) @ i)
           in write_log tmp (h\<lparr>fh_pos := int (length (fs (fh_name h)))\<rparr>, fs))"

definition log_file_base :: "async_logger \<Rightarrow> string \<Rightarrow> string" where
  "log_file_base al date = al_file_path al @ al_file_name al @ ''_'' @ date @ ''_log.''"

definition async_turn :: "log_sys \<Rightarrow> string \<Rightarrow> async_logger \<times> files \<Rightarrow> (bool \<times> async_logger \<times> files) res option" where
  \<comment> \<open>one turn of \<open>while (1)\<close> on the day \<open>date\<close>: \<open>None\<close> when it waits for a batch; the flag says that the
      thread returns\<close>
  "async_turn sys date = (\<lambda>(al, fs). case al_buffer al of [] \<Rightarrow> None | tmp # rest \<Rightarrow>
     Some (
     let al = al\<lparr>al_buffer := rest\<rparr>;
         al = (if date \<noteq> al_date al then al\<lparr>al_no := 0, al_reopen_flag := True, al_date := date\<rparr> else al);
         al = (if al_file_handler al = None then al\<lparr>al_reopen_flag := True\<rparr> else al);
         log_file_name = log_file_base al date @ to_string (al_no al);
         al = (if al_reopen_flag al
               then al\<lparr>al_file_handler := fopen_append sys fs log_file_name, al_reopen_flag := False\<rparr> else al)
     in case al_file_handler al of None \<Rightarrow> Inl Null_Deref | Some h \<Rightarrow>
     bind_res
       (if fh_pos h > al_max_file_size al
        then \<comment> \<open>the result of \<open>log_file_name == ss.str() + std::to_string(logger->m_no ++)\<close> is not used\<close>
          bind_res (chk32 (al_no al + 1)) (\<lambda>no.
          Inr (al\<lparr>al_no := no, al_file_handler := fopen_append sys fs log_file_name, al_reopen_flag := False\<rparr>))
        else Inr al) (\<lambda>al.
     if list_all (\<lambda>i. i = []) tmp then Inr (al_stop_flag al, al, fs)
     else case al_file_handler al of None \<Rightarrow> Inl Null_Deref | Some h \<Rightarrow>
       let (h, fs) = write_log tmp (h, fs) in Inr (al_stop_flag al, al\<lparr>al_file_handler := Some h\<rparr>, fs))))"

section \<open>The logger\<close>

record logger =
  lg_set_level :: LogLevel
  lg_buffer :: "string list"
  lg_app_buffer :: "string list"
  lg_type :: int
  lg_asnyc_logger :: "async_logger option"
  lg_asnyc_app_logger :: "async_logger option"
  lg_stdout :: string

definition Logger_GetInst :: logger where
  \<comment> \<open>the static object: \<open>m_set_level\<close> is zero-initialised\<close>
  "Logger_GetInst = \<lparr>lg_set_level = Unknown, lg_buffer = [], lg_app_buffer = [], lg_type = 0,
     lg_asnyc_logger = None, lg_asnyc_app_logger = None, lg_stdout = []\<rparr>"

definition pushLog :: "string \<Rightarrow> logger \<Rightarrow> logger" where
  "pushLog msg lg =
     (if lg_type lg = 0 then lg\<lparr>lg_stdout := lg_stdout lg @ takeWhile (\<lambda>c. c \<noteq> NUL) msg @ [CHR 10]\<rparr>
      else lg\<lparr>lg_buffer := lg_buffer lg @ [msg]\<rparr>)"

definition pushAppLog :: "string \<Rightarrow> logger \<Rightarrow> logger" where
  "pushAppLog msg lg = lg\<lparr>lg_app_buffer := lg_app_buffer lg @ [msg]\<rparr>"

definition on_logger :: "(async_logger \<Rightarrow> async_logger) \<Rightarrow> async_logger option \<Rightarrow> async_logger option res" where
  \<comment> \<open>a member call through the shared pointer\<close>
  "on_logger f a = (case a of None \<Rightarrow> Inl Null_Deref | Some al \<Rightarrow> Inr (Some (f al)))"

definition syncLoop :: "logger \<Rightarrow> logger res" where
  "syncLoop lg =
     (let tmp_vec = lg_buffer lg; lg = lg\<lparr>lg_buffer := []\<rparr> in
      bind_res (if tmp_vec = [] then Inr lg
                else bind_res (on_logger (pushLogBuffer tmp_vec) (lg_asnyc_logger lg)) (\<lambda>a. Inr (lg\<lparr>lg_asnyc_logger := a\<rparr>))) (\<lambda>lg.
      let tmp_vec2 = lg_app_buffer lg; lg = lg\<lparr>lg_app_buffer := []\<rparr> in
      if tmp_vec2 = [] then Inr lg
      else bind_res (on_logger (pushLogBuffer tmp_vec2) (lg_asnyc_app_logger lg)) (\<lambda>a. Inr (lg\<lparr>lg_asnyc_app_logger := a\<rparr>))))"

definition Logger_flush :: "logger \<Rightarrow> logger res" where
  \<comment> \<open>\<open>fflush\<close> changes no content: \<open>fwrite\<close> counts as written\<close>
  "Logger_flush lg =
     bind_res (syncLoop lg) (\<lambda>lg.
     bind_res (on_logger AsyncLogger_stop (lg_asnyc_logger lg)) (\<lambda>a.
     bind_res (on_logger AsyncLogger_stop (lg_asnyc_app_logger lg)) (\<lambda>b.
     Inr (lg\<lparr>lg_asnyc_logger := a, lg_asnyc_app_logger := b\<rparr>))))"

definition Logger_Init :: "config \<Rightarrow> int \<Rightarrow> clock \<Rightarrow> nat \<Rightarrow> logger \<times> event_loop \<Rightarrow> logger \<times> event_loop" where
  \<comment> \<open>\<open>timer_id\<close> is the unused place of the new timer event; the signal handlers are not modelled\<close>
  "Logger_Init config type clock timer_id = (\<lambda>(lg, el).
     let global_log_level = StringToLogLevel (cf_log_level config);
         lg = lg\<lparr>lg_stdout := lg_stdout lg @ ''Init log level ['' @ LogLevelToString global_log_level @ '']'' @ [CHR 10],
                 lg_type := type, lg_set_level := global_log_level\<rparr>
     in if type = 0 then (lg, el)
        else let log = (\<lambda>s. AsyncLogger_new (cf_log_file_name config @ s) (cf_log_file_path config) (cf_log_max_file_size config));
                 lg = lg\<lparr>lg_asnyc_logger := Some (log ''_rpc''), lg_asnyc_app_logger := Some (log ''_app'')\<rparr>;
                 el = el\<lparr>el_timer := TimerEvent_new clock timer_id (cf_log_sync_interval config) True
                        (Some Logger_syncLoop) (el_timer el)\<rparr>
             in (lg, EventLoop_addTimerEvent clock timer_id el))"

section \<open>The macros\<close>

definition LogEvent_toString :: "LogLevel \<Rightarrow> string \<Rightarrow> int \<Rightarrow> int \<Rightarrow> int \<Rightarrow> run_time option \<Rightarrow> string \<times> run_time option" where
  \<comment> \<open>the date as \<open>strftime\<close> prints it and the microseconds of \<open>gettimeofday\<close>, the process, the thread\<close>
  "LogEvent_toString level date usec pid thread_id t =
     (let time_str = date @ ''.'' @ to_string (usec div 1000);
          tab = [CHR 9];
          ss = ''['' @ LogLevelToString level @ '']'' @ tab @ ''['' @ time_str @ '']'' @ tab
               @ ''['' @ to_string pid @ '':'' @ to_string thread_id @ '']'' @ tab;
          (rt, t) = GetRunTime t;
          msgid = rt_msgid rt; method_name = rt_method_name rt;
          ss = (if msgid \<noteq> [] then ss @ ''['' @ msgid @ '']'' @ tab else ss);
          ss = (if method_name \<noteq> [] then ss @ ''['' @ method_name @ '']'' @ tab else ss)
      in (ss, t))"

definition formatString :: "string option \<Rightarrow> string" where
  \<comment> \<open>what \<open>snprintf\<close> prints, \<open>None\<close> for an error\<close>
  "formatString printed = (case printed of None \<Rightarrow> [] | Some s \<Rightarrow> s)"

definition log_macro ::
  "bool \<Rightarrow> LogLevel \<Rightarrow> string \<Rightarrow> int \<Rightarrow> string option \<Rightarrow> string \<Rightarrow> int \<Rightarrow> int \<Rightarrow> int \<Rightarrow>
   logger \<times> run_time option \<Rightarrow> logger \<times> run_time option" where
  \<comment> \<open>\<open>DEBUGLOG\<close>, \<open>INFOLOG\<close>, \<open>ERRORLOG\<close>, and with \<open>app\<close> the application's, at a file and line\<close>
  "log_macro app level file line printed date usec pid thread_id = (\<lambda>(lg, t).
     if lg_set_level lg \<le> level
     then let msg1 = formatString printed;
              (ss, t) = LogEvent_toString level date usec pid thread_id t;
              msg = ss @ ''['' @ file @ '':'' @ to_string line @ '']'' @ [CHR 9] @ msg1 @ [CHR 10]
          in ((if app then pushAppLog else pushLog) msg lg, t)
     else (lg, t))"

definition CoredumpHandler ::
  "string \<Rightarrow> string \<Rightarrow> int \<Rightarrow> int \<Rightarrow> int \<Rightarrow> logger \<times> run_time option \<Rightarrow> (logger \<times> run_time option) res" where
  \<comment> \<open>as far as the joins of the two threads; \<open>file\<close> is \<open>__FILE__\<close>\<close>
  "CoredumpHandler file date usec pid thread_id lt =
     (let (lg, t) = log_macro False Error file 18 (Some ''progress received invalid signal, will exit'')
        date usec pid thread_id lt
      in bind_res (Logger_flush lg) (\<lambda>lg. Inr (lg, t)))"

lemma log_level_strings: "StringToLogLevel (LogLevelToString l) = l"
  by (cases l) (simp_all add: StringToLogLevel_def LogLevelToString_def)

section \<open>One turn\<close>

text \<open>The file a turn on a day writes to: the open one, unless the day is new, nothing is open or it has
  outgrown its size.\<close>

definition turn_file :: "string \<Rightarrow> async_logger \<Rightarrow> string" where
  "turn_file date al =
     (case al_file_handler al of
        Some h \<Rightarrow> if date = al_date al \<and> \<not> fh_pos h > al_max_file_size al then fh_name h
                  else log_file_base al date @ to_string (if date = al_date al then al_no al else 0)
      | None \<Rightarrow> log_file_base al date @ to_string (if date = al_date al then al_no al else 0))"

definition al_same :: "async_logger \<Rightarrow> async_logger \<Rightarrow> bool" where
  "al_same al al' \<longleftrightarrow> al_file_name al' = al_file_name al \<and> al_file_path al' = al_file_path al \<and>
     al_max_file_size al' = al_max_file_size al \<and> al_stop_flag al' = al_stop_flag al"

lemma al_same_refl [simp]: "al_same al al"
  by (simp add: al_same_def)

lemma al_same_trans: "al_same a b \<Longrightarrow> al_same b c \<Longrightarrow> al_same a c"
  by (simp add: al_same_def)

lemma al_same_base: "al_same al al' \<Longrightarrow> log_file_base al' = log_file_base al"
  by (simp add: al_same_def log_file_base_def fun_eq_iff)

lemma write_log_eq:
  "write_log tmp (h, fs) = (h\<lparr>fh_pos := if list_all (\<lambda>i. i = []) tmp then fh_pos h
       else int (length (fs (fh_name h) @ concat tmp))\<rparr>, fs(fh_name h := fs (fh_name h) @ concat tmp))"
proof (induction tmp arbitrary: h fs)
  case (Cons i tmp)
  show ?case
    by (simp add: Cons.IH Let_def) (auto simp: list_all_iff)
qed simp

lemma concat_empty: "list_all (\<lambda>i. i = []) tmp \<Longrightarrow> concat tmp = []"
  by (induction tmp) simp_all

lemma async_turn_writes:
  assumes "al_buffer al = tmp # rest" and "\<not> al_reopen_flag al" and "\<And>f. ls_can_open sys f"
    and "0 \<le> al_no al" and "al_no al < INT_MAX"
  shows "\<exists>al' h. async_turn sys date (al, fs) =
      Some (Inr (al_stop_flag al, al', fs(turn_file date al := fs (turn_file date al) @ concat tmp))) \<and>
    al_buffer al' = rest \<and> al_same al al' \<and> \<not> al_reopen_flag al' \<and> al_date al' = date \<and>
    0 \<le> al_no al' \<and> al_no al' \<le> al_no al + 1 \<and> al_file_handler al' = Some h \<and> fh_name h = turn_file date al \<and>
    (al_date al = date \<and> al_file_handler al = Some h' \<longrightarrow>
       al_no al' = (if fh_pos h' > al_max_file_size al then al_no al + 1 else al_no al)) \<and>
    (al_file_handler al = None \<and> \<not> ls_tell_opened sys (int (length (fs (turn_file date al)))) > al_max_file_size al \<longrightarrow>
       al_no al' = (if date = al_date al then al_no al else 0)) \<and>
    ((\<forall>n. ls_tell_opened sys n = n) \<and> (\<forall>h. al_file_handler al = Some h \<longrightarrow> fh_pos h = int (length (fs (fh_name h)))) \<longrightarrow>
       fh_pos h = int (length (fs (turn_file date al) @ concat tmp)))"
proof -
  have no: "in_int32 (al_no al + 1)" "in_int32 1" using assms(4,5) by auto
  note defs = async_turn_def turn_file_def fopen_append_def write_log_eq al_same_def log_file_base_def assms(1-3) no
  show ?thesis
  proof (cases "al_file_handler al")
    case None
    with assms(4,5) show ?thesis
      by (cases "date = al_date al"; cases "list_all (\<lambda>i. i = []) tmp") (auto simp: defs Let_def concat_empty)
  next
    case (Some h)
    with assms(4,5) show ?thesis
      by (cases "date = al_date al"; cases "list_all (\<lambda>i. i = []) tmp") (auto simp: defs Let_def concat_empty)
  qed
qed

lemma async_turn_waits: "async_turn sys date (al, fs) = None \<longleftrightarrow> al_buffer al = []"
  by (simp add: async_turn_def split: list.split)

section \<open>Messages arrive in order\<close>

text \<open>The threads of a process that logs: messages, the timer's \<open>syncLoop\<close>, turns of the two writing threads.\<close>

datatype log_event = Log_Push string | Log_App string | Log_Sync | Log_Write string | Log_App_Write string

definition log_turn ::
  "log_sys \<Rightarrow> string \<Rightarrow> async_logger option \<Rightarrow> files \<Rightarrow> (async_logger option \<times> files) res" where
  \<comment> \<open>a turn of the thread of a logger, which may have to wait\<close>
  "log_turn sys date a fs =
     (case a of None \<Rightarrow> Inr (a, fs)
      | Some al \<Rightarrow> (case async_turn sys date (al, fs) of None \<Rightarrow> Inr (a, fs)
          | Some r \<Rightarrow> bind_res r (\<lambda>(_, al, fs). Inr (Some al, fs))))"

fun log_step :: "log_sys \<Rightarrow> log_event \<Rightarrow> logger \<times> files \<Rightarrow> (logger \<times> files) res" where
  "log_step sys (Log_Push m) (lg, fs) = Inr (pushLog m lg, fs)"
| "log_step sys (Log_App m) (lg, fs) = Inr (pushAppLog m lg, fs)"
| "log_step sys Log_Sync (lg, fs) = bind_res (syncLoop lg) (\<lambda>lg. Inr (lg, fs))"
| "log_step sys (Log_Write date) (lg, fs) =
     bind_res (log_turn sys date (lg_asnyc_logger lg) fs) (\<lambda>(a, fs). Inr (lg\<lparr>lg_asnyc_logger := a\<rparr>, fs))"
| "log_step sys (Log_App_Write date) (lg, fs) =
     bind_res (log_turn sys date (lg_asnyc_app_logger lg) fs) (\<lambda>(a, fs). Inr (lg\<lparr>lg_asnyc_app_logger := a\<rparr>, fs))"

fun pushes :: "bool \<Rightarrow> log_event \<Rightarrow> string list" where
  "pushes app (Log_Push m) = (if app then [] else [m])"
| "pushes app (Log_App m) = (if app then [m] else [])"
| "pushes app _ = []"

fun write_dates :: "bool \<Rightarrow> log_event \<Rightarrow> string list" where
  "write_dates app (Log_Write d) = (if app then [] else [d])"
| "write_dates app (Log_App_Write d) = (if app then [d] else [])"
| "write_dates app _ = []"

type_synonym log_history = "(bool \<times> string \<times> string list) list"
  \<comment> \<open>the batches written: by which logger, to which file\<close>

definition batches :: "bool \<Rightarrow> log_history \<Rightarrow> string list" where
  "batches app ws = concat (map (\<lambda>(a, g, b). if a = app then b else []) ws)"

definition written_to :: "string \<Rightarrow> log_history \<Rightarrow> string" where
  "written_to f ws = concat (map (\<lambda>(a, g, b). if g = f then concat b else []) ws)"

definition log_file_of :: "async_logger \<Rightarrow> string set \<Rightarrow> string \<Rightarrow> bool" where
  "log_file_of al ds f \<longleftrightarrow> (\<exists>d \<in> ds. \<exists>k \<ge> 0. f = log_file_base al d @ to_string k)"

lemma history_snoc [simp]:
  "batches app (ws @ [(a, g, b)]) = batches app ws @ (if a = app then b else [])" "batches app [] = []"
  "written_to f (ws @ [(a, g, b)]) = written_to f ws @ (if g = f then concat b else [])" "written_to f [] = []"
  by (simp_all add: batches_def written_to_def)

text \<open>A logger after \<open>n\<close> events that turned on the days \<open>ds\<close>.\<close>

definition al_inv :: "async_logger \<Rightarrow> nat \<Rightarrow> string set \<Rightarrow> async_logger \<Rightarrow> bool" where
  "al_inv al0 n ds al \<longleftrightarrow> al_same al0 al \<and> \<not> al_reopen_flag al \<and> 0 \<le> al_no al \<and> al_no al \<le> int n \<and>
     (\<forall>h. al_file_handler al = Some h \<longrightarrow>
        al_date al \<in> ds \<and> (\<exists>k \<ge> 0. fh_name h = log_file_base al0 (al_date al) @ to_string k))"

lemma al_inv_mono: "al_inv al0 n ds al \<Longrightarrow> n \<le> m \<Longrightarrow> ds \<subseteq> es \<Longrightarrow> al_inv al0 m es al"
  by (auto simp: al_inv_def)

lemma log_turn_inv:
  assumes "al_inv al0 n ds al" and "int n < INT_MAX" and "\<And>f. ls_can_open sys f"
  obtains "al_buffer al = []" "log_turn sys date (Some al) fs = Inr (Some al, fs)"
  | tmp rest al' where "al_buffer al = tmp # rest" "al_buffer al' = rest"
      "al_inv al0 (Suc n) (insert date ds) al'" "log_file_of al0 (insert date ds) (turn_file date al)"
      "log_turn sys date (Some al) fs =
         Inr (Some al', fs(turn_file date al := fs (turn_file date al) @ concat tmp))"
proof (cases "al_buffer al")
  case Nil
  then show thesis by (intro that(1)) (simp_all add: log_turn_def async_turn_waits [THEN iffD2])
next
  case (Cons tmp rest)
  note al = assms(1) [unfolded al_inv_def]
  have base: "log_file_base al = log_file_base al0" using al al_same_base by blast
  obtain al' h where al': "async_turn sys date (al, fs) =
      Some (Inr (al_stop_flag al, al', fs(turn_file date al := fs (turn_file date al) @ concat tmp)))"
    "al_buffer al' = rest" "al_same al al'" "\<not> al_reopen_flag al'" "al_date al' = date"
    "0 \<le> al_no al'" "al_no al' \<le> al_no al + 1" "al_file_handler al' = Some h" "fh_name h = turn_file date al"
    using async_turn_writes [OF Cons, of sys date fs] al assms(2,3) by fastforce
  have "\<exists>k \<ge> 0. turn_file date al = log_file_base al0 date @ to_string k"
    using al by (auto simp: turn_file_def base split: option.split)
  with al al' al_same_trans [of al0 al al'] show thesis
    by (intro that(2) [OF Cons al'(2)]) (auto simp: al_inv_def log_file_of_def log_turn_def)
qed

lemma syncLoop_eq:
  assumes "lg_asnyc_logger lg = Some al" and "lg_asnyc_app_logger lg = Some ap"
  shows "syncLoop lg = Inr (lg\<lparr>lg_buffer := [], lg_app_buffer := [],
    lg_asnyc_logger := Some (if lg_buffer lg = [] then al else pushLogBuffer (lg_buffer lg) al),
    lg_asnyc_app_logger := Some (if lg_app_buffer lg = [] then ap else pushLogBuffer (lg_app_buffer lg) ap)\<rparr>)"
  using assms by (simp add: syncLoop_def on_logger_def Let_def)

definition days_of :: "bool \<Rightarrow> log_event list \<Rightarrow> string set" where
  "days_of app evs = set (concat (map (write_dates app) evs))"

definition log_inv ::
  "(bool \<Rightarrow> async_logger) \<Rightarrow> files \<Rightarrow> log_event list \<Rightarrow> logger \<Rightarrow> files \<Rightarrow> log_history \<Rightarrow> async_logger \<Rightarrow> async_logger \<Rightarrow> bool" where
  "log_inv al0 fs0 evs lg fs ws al ap \<longleftrightarrow> lg_type lg \<noteq> 0 \<and>
    lg_asnyc_logger lg = Some al \<and> lg_asnyc_app_logger lg = Some ap \<and>
    al_inv (al0 False) (length evs) (days_of False evs) al \<and> al_inv (al0 True) (length evs) (days_of True evs) ap \<and>
    batches False ws @ concat (al_buffer al) @ lg_buffer lg = concat (map (pushes False) evs) \<and>
    batches True ws @ concat (al_buffer ap) @ lg_app_buffer lg = concat (map (pushes True) evs) \<and>
    (\<forall>f. fs f = fs0 f @ written_to f ws) \<and>
    (\<forall>(app, f, b) \<in> set ws. log_file_of (al0 app) (days_of app evs) f)"

lemma days_of_snoc: "days_of app (evs @ [ev]) = days_of app evs \<union> set (write_dates app ev)"
  by (auto simp: days_of_def)

lemma al_inv_buffer: "al_inv al0 n ds (al\<lparr>al_buffer := b\<rparr>) = al_inv al0 n ds al"
  by (simp add: al_inv_def al_same_def)

lemma log_step_inv:
  assumes inv: "log_inv al0 fs0 evs lg fs ws al ap" and open_ok: "\<And>f. ls_can_open sys f"
    and short: "int (length evs) < INT_MAX"
  shows "\<exists>lg' fs' ws' al' ap'. log_step sys ev (lg, fs) = Inr (lg', fs') \<and> log_inv al0 fs0 (evs @ [ev]) lg' fs' ws' al' ap'"
proof -
  note i = inv [unfolded log_inv_def]
  have al: "al_inv (al0 False) (length (evs @ [ev])) (days_of False (evs @ [ev])) al"
    and ap: "al_inv (al0 True) (length (evs @ [ev])) (days_of True (evs @ [ev])) ap"
    using i by (auto simp: days_of_snoc intro: al_inv_mono)
  have ws: "\<forall>(app, f, b) \<in> set ws. log_file_of (al0 app) (days_of app (evs @ [ev])) f"
    using i by (fastforce simp: days_of_snoc log_file_of_def)
  show ?thesis
  proof (cases ev)
    case (Log_Push m)
    with i al ap ws show ?thesis
      by (intro exI [of _ "pushLog m lg"] exI [of _ fs] exI [of _ ws] exI [of _ al] exI [of _ ap])
        (simp add: log_inv_def pushLog_def)
  next
    case (Log_App m)
    with i al ap ws show ?thesis
      by (intro exI [of _ "pushAppLog m lg"] exI [of _ fs] exI [of _ ws] exI [of _ al] exI [of _ ap])
        (simp add: log_inv_def pushAppLog_def)
  next
    case Log_Sync
    let ?al = "if lg_buffer lg = [] then al else pushLogBuffer (lg_buffer lg) al"
    let ?ap = "if lg_app_buffer lg = [] then ap else pushLogBuffer (lg_app_buffer lg) ap"
    let ?lg = "lg\<lparr>lg_buffer := [], lg_app_buffer := [], lg_asnyc_logger := Some ?al, lg_asnyc_app_logger := Some ?ap\<rparr>"
    have "syncLoop lg = Inr ?lg"
      using i by (intro syncLoop_eq) simp_all
    moreover have "log_inv al0 fs0 (evs @ [ev]) ?lg fs ws ?al ?ap"
      using Log_Sync i al ap ws by (cases "lg_buffer lg = []"; cases "lg_app_buffer lg = []")
        (simp_all add: log_inv_def pushLogBuffer_def al_inv_buffer)
    ultimately show ?thesis using Log_Sync by (intro exI conjI) simp_all
  next
    case (Log_Write d)
    have inv_al: "al_inv (al0 False) (length evs) (days_of False evs) al" using i by simp
    show ?thesis
    proof (rule log_turn_inv [OF inv_al short open_ok, of d fs])
      assume "al_buffer al = []" "log_turn sys d (Some al) fs = Inr (Some al, fs)"
      with Log_Write i al ap ws show ?thesis
        by (intro exI [of _ lg] exI [of _ fs] exI [of _ ws] exI [of _ al] exI [of _ ap]) (simp add: log_inv_def)
    next
      fix tmp rest al'
      assume t: "al_buffer al = tmp # rest" "al_buffer al' = rest"
        "al_inv (al0 False) (Suc (length evs)) (insert d (days_of False evs)) al'"
        "log_file_of (al0 False) (insert d (days_of False evs)) (turn_file d al)"
        "log_turn sys d (Some al) fs = Inr (Some al', fs(turn_file d al := fs (turn_file d al) @ concat tmp))"
      with Log_Write i ap ws show ?thesis
        by (intro exI [of _ "lg\<lparr>lg_asnyc_logger := Some al'\<rparr>"] exI [of _ "fs(turn_file d al := fs (turn_file d al) @ concat tmp)"]
            exI [of _ "ws @ [(False, turn_file d al, tmp)]"] exI [of _ al'] exI [of _ ap])
          (simp add: log_inv_def days_of_snoc)
    qed
  next
    case (Log_App_Write d)
    have inv_ap: "al_inv (al0 True) (length evs) (days_of True evs) ap" using i by simp
    show ?thesis
    proof (rule log_turn_inv [OF inv_ap short open_ok, of d fs])
      assume "al_buffer ap = []" "log_turn sys d (Some ap) fs = Inr (Some ap, fs)"
      with Log_App_Write i al ap ws show ?thesis
        by (intro exI [of _ lg] exI [of _ fs] exI [of _ ws] exI [of _ al] exI [of _ ap]) (simp add: log_inv_def)
    next
      fix tmp rest ap'
      assume t: "al_buffer ap = tmp # rest" "al_buffer ap' = rest"
        "al_inv (al0 True) (Suc (length evs)) (insert d (days_of True evs)) ap'"
        "log_file_of (al0 True) (insert d (days_of True evs)) (turn_file d ap)"
        "log_turn sys d (Some ap) fs = Inr (Some ap', fs(turn_file d ap := fs (turn_file d ap) @ concat tmp))"
      with Log_App_Write i al ws show ?thesis
        by (intro exI [of _ "lg\<lparr>lg_asnyc_app_logger := Some ap'\<rparr>"] exI [of _ "fs(turn_file d ap := fs (turn_file d ap) @ concat tmp)"]
            exI [of _ "ws @ [(True, turn_file d ap, tmp)]"] exI [of _ al] exI [of _ ap'])
          (simp add: log_inv_def days_of_snoc)
    qed
  qed
qed

text \<open>C36. No log message is lost, repeated or reordered: when messages, \<open>syncLoop\<close> and turns of the two
  writing threads interleave in any way, then for each of the two loggers what its thread has written,
  its queue and its buffer are, in this order, the messages logged so far.  Each batch goes whole to
  the end of one file, named after the logger, the day of a turn and a number.\<close>

theorem log_in_order:
  assumes "lg_type lg \<noteq> 0" and "lg_buffer lg = []" and "lg_app_buffer lg = []"
    and "lg_asnyc_logger lg = Some (AsyncLogger_new n p m)" and "lg_asnyc_app_logger lg = Some (AsyncLogger_new n' p m)"
    and "\<And>f. ls_can_open sys f" and "int (length evs) < INT_MAX"
  shows "\<exists>lg' fs' al ap ws. fold_res (log_step sys) evs (lg, fs) = Inr (lg', fs') \<and>
    lg_asnyc_logger lg' = Some al \<and> lg_asnyc_app_logger lg' = Some ap \<and>
    batches False ws @ concat (al_buffer al) @ lg_buffer lg' = concat (map (pushes False) evs) \<and>
    batches True ws @ concat (al_buffer ap) @ lg_app_buffer lg' = concat (map (pushes True) evs) \<and>
    (\<forall>f. fs' f = fs f @ written_to f ws) \<and>
    (\<forall>(app, f, b) \<in> set ws. log_file_of (AsyncLogger_new (if app then n' else n) p m)
       (days_of app evs) f)"
proof -
  define al0 where "al0 app = AsyncLogger_new (if app then n' else n) p m" for app
  have "\<exists>lg' fs' ws al ap. fold_res (log_step sys) evs (lg, fs) = Inr (lg', fs') \<and> log_inv al0 fs evs lg' fs' ws al ap"
    using assms(7)
  proof (induction evs rule: rev_induct)
    case Nil
    have "log_inv al0 fs [] lg fs [] (al0 False) (al0 True)"
      using assms(1-5) by (simp add: log_inv_def al_inv_def al0_def AsyncLogger_new_def)
    then show ?case by auto
  next
    case (snoc ev evs)
    then obtain lg' fs' ws al ap where run: "fold_res (log_step sys) evs (lg, fs) = Inr (lg', fs')"
      and inv: "log_inv al0 fs evs lg' fs' ws al ap" by auto
    have "int (length evs) < INT_MAX" using snoc.prems by simp
    from log_step_inv [OF inv assms(6) this, of ev] obtain lg2 fs2 ws2 al2 ap2 where
      "log_step sys ev (lg', fs') = Inr (lg2, fs2)" "log_inv al0 fs (evs @ [ev]) lg2 fs2 ws2 al2 ap2" by blast
    with run show ?case by (intro exI conjI) (simp_all add: fold_res_append)
  qed
  then show ?thesis by (fastforce simp: log_inv_def al0_def)
qed

section \<open>The end of the writing thread\<close>

definition ends_after :: "log_sys \<Rightarrow> string list list \<Rightarrow> async_logger \<Rightarrow> bool" where
  \<comment> \<open>with an empty queue the thread waits, otherwise it returns after the first batch\<close>
  "ends_after sys q al \<longleftrightarrow> (\<forall>date fs. case q of
       [] \<Rightarrow> async_turn sys date (al, fs) = None
     | b # lost \<Rightarrow> \<exists>al' f. async_turn sys date (al, fs) = Some (Inr (True, al', fs(f := fs f @ concat b))) \<and>
         al_buffer al' = lost)"

lemma stopped_ends:
  assumes "\<not> al_reopen_flag al" and "0 \<le> al_no al" and "al_no al < INT_MAX" and "\<And>f. ls_can_open sys f"
  shows "ends_after sys q (al\<lparr>al_buffer := q, al_stop_flag := True\<rparr>)"
  unfolding ends_after_def
proof (intro allI)
  fix date and fs :: files
  define al' where "al' = al\<lparr>al_buffer := q, al_stop_flag := True\<rparr>"
  have "case q of [] \<Rightarrow> async_turn sys date (al', fs) = None
      | b # lost \<Rightarrow> \<exists>al'' f. async_turn sys date (al', fs) = Some (Inr (True, al'', fs(f := fs f @ concat b))) \<and>
          al_buffer al'' = lost"
  proof (cases q)
    case Nil
    then show ?thesis by (simp add: async_turn_waits al'_def)
  next
    case (Cons b lost)
    then have "al_buffer al' = b # lost" "\<not> al_reopen_flag al'" "0 \<le> al_no al'" "al_no al' < INT_MAX" "al_stop_flag al'"
      using assms(1-3) by (simp_all add: al'_def)
    then obtain al'' where "async_turn sys date (al', fs) =
        Some (Inr (True, al'', fs(turn_file date al' := fs (turn_file date al') @ concat b)))" "al_buffer al'' = lost"
      using async_turn_writes [of al' b lost sys date fs] assms(4) by auto
    with Cons show ?thesis by auto
  qed
  then show "case q of [] \<Rightarrow> async_turn sys date (al\<lparr>al_buffer := q, al_stop_flag := True\<rparr>, fs) = None
      | b # lost \<Rightarrow> \<exists>al'' f. async_turn sys date (al\<lparr>al_buffer := q, al_stop_flag := True\<rparr>, fs) =
          Some (Inr (True, al'', fs(f := fs f @ concat b))) \<and> al_buffer al'' = lost"
    unfolding al'_def .
qed

lemma flush_queues:
  assumes "lg_asnyc_logger lg = Some al" and "lg_asnyc_app_logger lg = Some ap"
  shows "\<exists>lg'. Logger_flush lg = Inr lg' \<and>
    lg_asnyc_logger lg' = Some (al\<lparr>al_buffer := al_buffer al @ (if lg_buffer lg = [] then [] else [lg_buffer lg]), al_stop_flag := True\<rparr>) \<and>
    lg_asnyc_app_logger lg' = Some (ap\<lparr>al_buffer := al_buffer ap @ (if lg_app_buffer lg = [] then [] else [lg_app_buffer lg]), al_stop_flag := True\<rparr>)"
  using assms
  by (simp add: Logger_flush_def syncLoop_eq [OF assms] on_logger_def pushLogBuffer_def AsyncLogger_stop_def)

lemma pushLog_fields [simp]:
  "lg_asnyc_logger (pushLog m lg) = lg_asnyc_logger lg" "lg_asnyc_app_logger (pushLog m lg) = lg_asnyc_app_logger lg"
  "lg_app_buffer (pushLog m lg) = lg_app_buffer lg"
  by (simp_all add: pushLog_def)

text \<open>C37. The signal handler of a server logs a message, hands over the buffered ones with \<open>flush\<close>, which
  also tells the writing threads to stop, and joins them.  A thread looks at that flag only after a
  batch: with nothing left to write it waits for ever, so the join of the application's thread never
  returns when no application message is left; otherwise it writes the first batch, returns, and the
  batches behind it are lost.\<close>

theorem log_flush_stops:
  assumes "lg_asnyc_logger lg = Some al" and "lg_asnyc_app_logger lg = Some ap" and "lg_type lg \<noteq> 0"
    and "\<not> al_reopen_flag al" and "0 \<le> al_no al" and "al_no al < INT_MAX"
    and "\<not> al_reopen_flag ap" and "0 \<le> al_no ap" and "al_no ap < INT_MAX" and "\<And>f. ls_can_open sys f"
  shows "\<exists>lg' t' al' ap' m. CoredumpHandler file date usec pid thread_id (lg, t) = Inr (lg', t') \<and>
    lg_asnyc_logger lg' = Some al' \<and> ends_after sys (al_buffer al @ [lg_buffer lg @ [m]]) al' \<and>
    lg_asnyc_app_logger lg' = Some ap' \<and>
    ends_after sys (al_buffer ap @ (if lg_app_buffer lg = [] then [] else [lg_app_buffer lg])) ap'"
proof -
  have "lg_set_level lg \<le> Error" by (cases "lg_set_level lg") simp_all
  moreover obtain ss t' where "LogEvent_toString Error date usec pid thread_id t = (ss, t')"
    by (cases "LogEvent_toString Error date usec pid thread_id t")
  ultimately obtain m where m: "log_macro False Error file 18 (Some ''progress received invalid signal, will exit'')
      date usec pid thread_id (lg, t) = (pushLog m lg, t')"
    by (simp add: log_macro_def)
  obtain lg' where lg': "Logger_flush (pushLog m lg) = Inr lg'"
    "lg_asnyc_logger lg' = Some (al\<lparr>al_buffer := al_buffer al @ [lg_buffer lg @ [m]], al_stop_flag := True\<rparr>)"
    "lg_asnyc_app_logger lg' = Some (ap\<lparr>al_buffer := al_buffer ap @ (if lg_app_buffer lg = [] then [] else [lg_app_buffer lg]),
       al_stop_flag := True\<rparr>)"
    using flush_queues [of "pushLog m lg" al ap] assms(1-3) by (auto simp: pushLog_def)
  have "CoredumpHandler file date usec pid thread_id (lg, t) = Inr (lg', t')"
    by (simp add: CoredumpHandler_def m lg'(1))
  with lg'(2,3) stopped_ends [OF assms(4-6,10)] stopped_ends [OF assms(7-9,10)] show ?thesis by blast
qed

section \<open>The sizes of the files\<close>

fun async_turns :: "log_sys \<Rightarrow> string \<Rightarrow> nat \<Rightarrow> async_logger \<times> files \<Rightarrow> (async_logger \<times> files) res option" where
  \<comment> \<open>the first turns of \<open>Loop\<close> on one day\<close>
  "async_turns sys date 0 s = Some (Inr s)"
| "async_turns sys date (Suc n) s =
     (case async_turn sys date s of None \<Rightarrow> None | Some (Inl e) \<Rightarrow> Some (Inl e)
      | Some (Inr (stopped, s)) \<Rightarrow> if stopped then Some (Inr s) else async_turns sys date n s)"

text \<open>
  \<open>day_inv\<close>: the state of a logger during a day, \<open>M\<close> the maximal size of a file and \<open>B\<close> that of a batch.
  The open file has number 0 until the second time a file is found too big, and \<open>m_no - 1\<close> after that.
\<close>

definition day_inv :: "(int \<Rightarrow> string) \<Rightarrow> string \<Rightarrow> int \<Rightarrow> int \<Rightarrow> nat \<Rightarrow> async_logger \<times> files \<Rightarrow> bool" where
  "day_inv file date M B n = (\<lambda>(al, fs).
     \<not> al_reopen_flag al \<and> \<not> al_stop_flag al \<and> al_max_file_size al = M \<and> al_date al = date \<and>
     0 \<le> al_no al \<and> al_no al \<le> int n \<and> (\<forall>k. log_file_base al date @ to_string k = file k) \<and>
     (\<exists>h. al_file_handler al = Some h \<and> fh_name h = file (if al_no al \<le> 1 then 0 else al_no al - 1) \<and>
        fh_pos h = int (length (fs (fh_name h)))) \<and>
     (\<forall>k \<ge> 1. al_no al \<le> k \<longrightarrow> fs (file k) = []) \<and>
     int (length (fs (file 0))) \<le> M + (if al_no al = 0 then B else 2 * B) \<and>
     (\<forall>k \<ge> 1. int (length (fs (file k))) \<le> M + B))"

lemma day_inv_turn:
  assumes inv: "day_inv file date M B n (al, fs)" and "al_buffer al = tmp # rest" and "int (length (concat tmp)) \<le> B"
    and "\<And>f. ls_can_open sys f" and "\<And>n. ls_tell_opened sys n = n" and "int n < INT_MAX" and "inj file"
    and "0 \<le> M"
  shows "\<exists>al' fs'. async_turn sys date (al, fs) = Some (Inr (False, al', fs')) \<and> al_buffer al' = rest \<and>
    day_inv file date M B (Suc n) (al', fs')"
proof -
  note i = inv [unfolded day_inv_def split_conv]
  obtain h where h: "al_file_handler al = Some h" "fh_name h = file (if al_no al \<le> 1 then 0 else al_no al - 1)"
    "fh_pos h = int (length (fs (fh_name h)))" using i by auto
  let ?f = "turn_file date al"
  let ?fs = "fs(?f := fs ?f @ concat tmp)"
  have no: "al_no al < INT_MAX" using i assms(6) by linarith
  obtain al' h' where t: "async_turn sys date (al, fs) = Some (Inr (al_stop_flag al, al', ?fs))"
    "al_buffer al' = rest" "al_same al al'" "\<not> al_reopen_flag al'" "al_date al' = date" "al_file_handler al' = Some h'"
    "fh_name h' = ?f" "al_no al' = (if fh_pos h > M then al_no al + 1 else al_no al)"
    "fh_pos h' = int (length (fs ?f @ concat tmp))"
    using async_turn_writes [OF assms(2) _ assms(4) _ no, of date fs h] i h(1,3) assms(5) by fastforce
  have f: "?f = file (if fh_pos h > M then al_no al else if al_no al \<le> 1 then 0 else al_no al - 1)"
    using i h(1,2) by (simp add: turn_file_def)
  have eq: "file j = file k \<longleftrightarrow> j = k" for j k using assms(7) by (auto dest: injD)
  have base: "log_file_base al' = log_file_base al" by (rule al_same_base [OF t(3)])
  have B: "0 \<le> B" using assms(3) by linarith
  have "day_inv file date M B (Suc n) (al', ?fs)"
  proof (cases "fh_pos h > M")
    case True
    have "fs ?f = []" if "1 \<le> al_no al" using that i True f by simp
    moreover have "int (length (fs (file 0))) \<le> M + B" if "al_no al = 0" using that i by simp
    ultimately show ?thesis
      using i t(3-9) True f base assms(3,8) eq B
      by (auto simp: day_inv_def al_same_def)
  next
    case False
    then have "int (length (fs ?f @ concat tmp)) \<le> M + B"
      using h(2,3) f assms(3) by (simp split: if_splits)
    then show ?thesis
      using i t(3-9) False f base assms(8) eq B
      by (auto simp: day_inv_def al_same_def split: if_splits)
  qed
  with t(1,2) i show ?thesis by (intro exI conjI) auto
qed

lemma async_turns_day:
  assumes "\<And>f. ls_can_open sys f" and "\<And>n. ls_tell_opened sys n = n" and "inj file" and "0 \<le> M"
  shows "day_inv file date M B n (al, fs) \<Longrightarrow> \<forall>b \<in> set (al_buffer al). int (length (concat b)) \<le> B \<Longrightarrow>
    int (n + length (al_buffer al)) < INT_MAX \<Longrightarrow>
    \<exists>al' fs' n'. async_turns sys date (length (al_buffer al)) (al, fs) = Some (Inr (al', fs')) \<and> al_buffer al' = [] \<and>
      day_inv file date M B n' (al', fs')"
proof (induction "al_buffer al" arbitrary: al fs n)
  case Nil
  then show ?case by auto
next
  case (Cons tmp rest)
  from Cons.hyps(2) [symmetric] Cons.prems have "int (length (concat tmp)) \<le> B" "int n < INT_MAX" by auto
  from day_inv_turn [OF Cons.prems(1) Cons.hyps(2) [symmetric] this(1) assms(1,2) this(2) assms(3,4)]
  obtain al' fs' where t: "async_turn sys date (al, fs) = Some (Inr (False, al', fs'))" "al_buffer al' = rest"
    "day_inv file date M B (Suc n) (al', fs')" by blast
  have "\<forall>b \<in> set (al_buffer al'). int (length (concat b)) \<le> B" "int (Suc n + length (al_buffer al')) < INT_MAX"
    using Cons.prems(2,3) unfolding Cons.hyps(2) [symmetric] t(2) by auto
  from Cons.hyps(1) [OF t(2) [symmetric] t(3) this] t(1,2) show ?case
    by (simp add: Cons.hyps(2) [symmetric])
qed

lemma to_string_zero: "to_string 0 = ''0''"
  by code_simp

text \<open>C38. The size limit of the log files: a logger that writes its batches during one day into fresh files
  keeps every file within the limit and one batch more, except the file with number 0.  When that is
  found too big the code compares the new name with the old one instead of assigning it and opens the
  same file again, so file 0 may take one more batch.\<close>

theorem log_file_sizes:
  assumes "\<forall>b \<in> set bs. int (length (concat b)) \<le> B" and "0 \<le> M" and "0 \<le> B" and "date \<noteq> []"
    and "al = fold pushLogBuffer bs (AsyncLogger_new name path M)" and "int (length bs) < INT_MAX"
    and "\<And>f. ls_can_open sys f" and "\<And>n. ls_tell_opened sys n = n"
  shows "\<exists>al' fs'. async_turns sys date (length bs) (al, \<lambda>f. []) = Some (Inr (al', fs')) \<and> al_buffer al' = [] \<and>
    int (length (fs' (path @ name @ ''_'' @ date @ ''_log.0''))) \<le> M + 2 * B \<and>
    (\<forall>k \<ge> 1. int (length (fs' (path @ name @ ''_'' @ date @ ''_log.'' @ to_string k))) \<le> M + B)"
proof -
  define file_of where "file_of k = path @ name @ ''_'' @ date @ ''_log.'' @ to_string k" for k
  have inj: "inj file_of" by (intro injI) (simp add: file_of_def to_string_inject)
  have zero: "file_of 0 = path @ name @ ''_'' @ date @ ''_log.0''"
    by (simp add: file_of_def to_string_zero)
  have "fold pushLogBuffer bs a = a\<lparr>al_buffer := al_buffer a @ bs\<rparr>" for a
    by (induction bs arbitrary: a) (simp_all add: pushLogBuffer_def)
  then have al: "al = (AsyncLogger_new name path M)\<lparr>al_buffer := bs\<rparr>"
    by (simp add: assms(5) AsyncLogger_new_def)
  show ?thesis
  proof (cases bs)
    case Nil
    then show ?thesis using assms(2,3) by (simp add: al AsyncLogger_new_def)
  next
    case (Cons b rest)
    have buf: "al_buffer al = b # rest" by (simp add: al Cons)
    have f: "turn_file date al = file_of 0"
      using assms(4) by (simp add: turn_file_def al AsyncLogger_new_def file_of_def log_file_base_def)
    obtain al1 h where t: "async_turn sys date (al, \<lambda>f. []) = Some (Inr (False, al1, (\<lambda>f. [])(file_of 0 := concat b)))"
      "al_buffer al1 = rest" "al_same al al1" "\<not> al_reopen_flag al1" "al_date al1 = date" "al_file_handler al1 = Some h"
      "fh_name h = file_of 0" "al_no al1 = 0" "fh_pos h = int (length (concat b))"
      using async_turn_writes [OF buf, of sys date "\<lambda>f. []"] assms(2,4,7,8) f
      by (auto simp: al AsyncLogger_new_def)
    have "file_of k = log_file_base al1 date @ to_string k" for k
      using t(3) by (simp add: file_of_def log_file_base_def al_same_def al AsyncLogger_new_def)
    then have "day_inv file_of date M B 1 (al1, (\<lambda>f. [])(file_of 0 := concat b))"
      using t(3-9) assms(1-3) Cons
      by (auto simp: day_inv_def al_same_def al AsyncLogger_new_def to_string_inject)
    moreover have "\<forall>b \<in> set (al_buffer al1). int (length (concat b)) \<le> B" "int (1 + length (al_buffer al1)) < INT_MAX"
      using assms(1,6) by (auto simp: t(2) Cons)
    ultimately obtain al' fs' n' where r: "async_turns sys date (length rest) (al1, (\<lambda>f. [])(file_of 0 := concat b)) = Some (Inr (al', fs'))"
      "al_buffer al' = []" "day_inv file_of date M B n' (al', fs')"
      using async_turns_day [OF assms(7,8) inj assms(2)] t(2) by blast
    have "async_turns sys date (length bs) (al, \<lambda>f. []) = Some (Inr (al', fs'))"
      using t(1) r(1) by (simp add: Cons)
    moreover have "int (length (fs' (file_of 0))) \<le> M + 2 * B" "\<forall>k \<ge> 1. int (length (fs' (file_of k))) \<le> M + B"
      using r(3) assms(3) by (auto simp: day_inv_def split: if_splits)
    ultimately show ?thesis using r(2) zero by (auto simp: file_of_def)
  qed
qed

section \<open>Examples\<close>

definition sample_log_sys :: log_sys where
  "sample_log_sys = \<lparr>ls_can_open = \<lambda>f. True, ls_tell_opened = \<lambda>n. n\<rparr>"

definition sample_logger :: logger where
  "sample_logger = Logger_GetInst\<lparr>lg_type := 1,
     lg_asnyc_logger := Some (AsyncLogger_new ''f_rpc'' ''/'' 3),
     lg_asnyc_app_logger := Some (AsyncLogger_new ''f_app'' ''/'' 3)\<rparr>"

lemmas sample_log_defs = sample_log_sys_def sample_logger_def Logger_GetInst_def

theorem log_in_order_witness:
  "\<exists>lg' fs' al ws. fold_res (log_step sample_log_sys)
       [Log_Push ''a'', Log_Sync, Log_Push ''b'', Log_Write ''d'', Log_Push ''c''] (sample_logger, \<lambda>f. []) = Inr (lg', fs') \<and>
     lg_asnyc_logger lg' = Some al \<and> batches False ws @ concat (al_buffer al) @ lg_buffer lg' = [''a'', ''b'', ''c'']"
  using log_in_order [of sample_logger "''f_rpc''" "''/''" 3 "''f_app''" sample_log_sys
      "[Log_Push ''a'', Log_Sync, Log_Push ''b'', Log_Write ''d'', Log_Push ''c'']" "\<lambda>f. []"]
  by (simp add: sample_log_defs del: fold_res.simps) blast

theorem log_flush_stops_witness:
  "\<exists>lg' t' ap'. CoredumpHandler ''log.cc'' ''24-03-06'' 0 1 2 (sample_logger, None) = Inr (lg', t') \<and>
     lg_asnyc_app_logger lg' = Some ap' \<and> async_turn sample_log_sys ''d'' (ap', \<lambda>f. []) = None"
proof -
  obtain lg' t' ap' where r: "CoredumpHandler ''log.cc'' ''24-03-06'' 0 1 2 (sample_logger, None) = Inr (lg', t')"
    "lg_asnyc_app_logger lg' = Some ap'" "ends_after sample_log_sys [] ap'"
    using log_flush_stops [of sample_logger "AsyncLogger_new ''f_rpc'' ''/'' 3" "AsyncLogger_new ''f_app'' ''/'' 3" sample_log_sys
        "''log.cc''" "''24-03-06''" 0 1 2 None]
    by (auto simp: sample_log_defs AsyncLogger_new_def)
  then show ?thesis by (auto simp: ends_after_def)
qed

theorem log_file_sizes_witness:
  "\<exists>al' fs'. async_turns sample_log_sys ''d'' 2 (fold pushLogBuffer [[''abcd''], [''ef'']] (AsyncLogger_new ''f'' ''/'' 3), \<lambda>f. []) =
       Some (Inr (al', fs')) \<and> length (fs' (''/f_d_log.0'')) \<le> 11"
  using log_file_sizes [where bs = "[[''abcd''], [''ef'']]" and B = 4 and M = 3 and date = "''d''" and name = "''f''"
      and path = "''/''" and sys = sample_log_sys, OF _ _ _ _ refl]
  by (simp add: sample_log_sys_def numeral_2_eq_2 del: async_turns.simps) auto

end
