(* ===== verification/Sys_Util.thy ===== *)
theory Sys_Util
  imports Complex_Main Std_String
begin

text \<open>
  \<open>common/util.cc\<close>: process and thread ids, the clock in milliseconds, and the CPU utilisation that
  sizes the group of IO threads.  The system calls and the files under \<open>/proc\<close> are arguments.  The
  counters are \<open>unsigned long\<close>, 64-bit words that wrap; \<open>sscanf\<close> leaves the variables it does not reach
  as they were, which is what the stack held.  A double is a rational, or \<open>None\<close> where it is infinite
  or not a number; the rounding of the floating-point unit is the argument \<open>rnd\<close>.
\<close>

section \<open>Ids and the clock\<close>

definition getPid :: "int \<Rightarrow> int \<Rightarrow> int" where
  \<comment> \<open>\<open>g_pid\<close>, which nothing sets, and the system call\<close>
  "getPid g_pid sys_getpid = (if g_pid \<noteq> 0 then g_pid else sys_getpid)"

definition getThreadId :: "int \<Rightarrow> int \<Rightarrow> int" where
  "getThreadId t_thread_id sys_gettid = (if t_thread_id \<noteq> 0 then t_thread_id else sys_gettid)"

definition chk64 :: "int \<Rightarrow> int res" where
  "chk64 i = (if - 9223372036854775808 \<le> i \<and> i \<le> 9223372036854775807 then Inr i else Inl Int_Overflow)"

definition getNowMs :: "int \<Rightarrow> int \<Rightarrow> int res" where
  \<comment> \<open>the two fields of \<open>timeval\<close>, the second not negative\<close>
  "getNowMs tv_sec tv_usec =
     bind_res (chk64 (tv_sec * 1000)) (\<lambda>ms. chk64 (ms + tv_usec div 1000))"

text \<open>The clock in milliseconds never runs backwards when the system clock does not.\<close>

lemma getNowMs_mono:
  assumes "getNowMs s u = Inr a" and "getNowMs s' u' = Inr b" and "0 \<le> u'" and "u < 1000000"
    and "s < s' \<or> s = s' \<and> u \<le> u'"
  shows "a \<le> b"
proof -
  have ab: "a = s * 1000 + u div 1000" "b = s' * 1000 + u' div 1000"
    using assms(1,2) by (auto simp: getNowMs_def chk64_def bind_res_eq_Inr split: if_splits)
  show ?thesis
  proof (cases "s < s'")
    case True
    have "u div 1000 < 1000" using assms(4) by simp
    moreover have "0 \<le> u' div 1000" using assms(3) by simp
    moreover have "s * 1000 + 1000 \<le> s' * 1000" using True by simp
    ultimately show ?thesis using ab by linarith
  next
    case False
    with assms(5) ab show ?thesis by (simp add: zdiv_mono1)
  qed
qed

section \<open>Reading /proc/stat\<close>

definition scan_lu :: "string \<Rightarrow> (64 word \<times> string) option" where
  \<comment> \<open>white space and \<open>%lu\<close>: an optional sign, digits; a value that is too large is \<open>ULONG_MAX\<close>\<close>
  "scan_lu s =
     (let s = dropWhile is_space s;
          neg = (s \<noteq> [] \<and> hd s = CHR ''-'');
          t = (if s \<noteq> [] \<and> hd s \<in> {CHR ''-'', CHR ''+''} then tl s else s);
          ds = takeWhile is_digit t; v = dec_val ds in
      if ds = [] then None
      else Some (if 18446744073709551615 < v then - 1 else if neg then - of_nat v else of_nat v,
                 dropWhile is_digit t))"

fun scan_lus :: "nat \<Rightarrow> string \<Rightarrow> 64 word list" where
  "scan_lus 0 s = []"
| "scan_lus (Suc n) s = (case scan_lu s of None \<Rightarrow> [] | Some (v, s) \<Rightarrow> v # scan_lus n s)"

definition sscanf_cpu :: "string \<Rightarrow> 64 word list" where
  \<comment> \<open>the conversions that \<open>sscanf(line, "cpu %lu ... %lu", ...)\<close> makes, ten at most\<close>
  "sscanf_cpu line = (if take 3 line = ''cpu'' then scan_lus 10 (drop 3 line) else [])"

definition getCPUUtilization :: "(rat \<Rightarrow> rat) \<Rightarrow> (nat \<Rightarrow> 64 word) \<Rightarrow> string \<Rightarrow> rat option" where
  \<comment> \<open>\<open>stack i\<close> is what the \<open>i\<close>-th of the ten variables held; \<open>stat_file\<close> the bytes of the file\<close>
  "getCPUUtilization rnd stack stat_file =
     (let line = takeWhile (\<lambda>c. c \<noteq> CHR 0x0A) stat_file;
          vals = sscanf_cpu line;
          var = (\<lambda>i. if i < length vals then vals ! i else stack i);
          totalIdle = var 3 + var 4;
          totalNonIdle = var 0 + var 1 + var 2 + var 5 + var 6 + var 7;
          total = totalIdle + totalNonIdle in
      if total = 0 then None
      else Some (rnd (rnd (of_nat (unat (totalNonIdle * 100))) / rnd (of_nat (unat total)))))"

text \<open>The line that the kernel prints is read back.\<close>

definition stat_line :: "nat list \<Rightarrow> string" where
  "stat_line ns = ''cpu '' @ concat (map (\<lambda>n. CHR '' '' # dec n) ns)"

lemma is_space_blank: "is_space (CHR '' '')"
  by (simp add: is_space_def)

lemma scan_lu_dec:
  assumes "n < 18446744073709551616" and "rest = [] \<or> \<not> is_digit (hd rest)"
  shows "scan_lu (CHR '' '' # dec n @ rest) = Some (of_nat n, rest)"
proof -
  obtain c t where ct: "dec n @ rest = c # t" "is_digit c"
    by (metis append_Cons dec_digits dec_nonempty list.exhaust list.set_intros(1))
  from ct(2) have c: "\<not> is_space c" "c \<noteq> CHR ''-''" "c \<noteq> CHR ''+''"
    by (auto simp: is_digit_def is_space_def)
  have sp: "dropWhile is_space (CHR '' '' # dec n @ rest) = dec n @ rest"
    using c(1) is_space_blank by (simp add: ct(1))
  have take: "takeWhile is_digit (dec n @ rest) = dec n" by (rule takeWhile_dec [OF assms(2)])
  have "takeWhile is_digit (dec n @ rest) @ dropWhile is_digit (dec n @ rest) = dec n @ rest"
    by (rule takeWhile_dropWhile_id)
  then have drop: "dropWhile is_digit (dec n @ rest) = rest" by (simp add: take)
  have sign: "dec n @ rest \<noteq> []" "hd (dec n @ rest) \<notin> {CHR ''-'', CHR ''+''}" using c by (simp_all add: ct(1))
  then show ?thesis
    unfolding scan_lu_def sp Let_def using assms(1)
    by (simp add: take drop if_not_P)
qed

lemma scan_lus_stat:
  assumes "\<forall>n \<in> set ns. n < 18446744073709551616"
  shows "scan_lus (length ns) (concat (map (\<lambda>n. CHR '' '' # dec n) ns)) = map of_nat ns"
  using assms
proof (induction ns)
  case (Cons n ns)
  have "concat (map (\<lambda>n. CHR '' '' # dec n) ns) = [] \<or>
      \<not> is_digit (hd (concat (map (\<lambda>n. CHR '' '' # dec n) ns)))"
    by (cases ns) (simp_all add: is_digit_def)
  with scan_lu_dec [of n] Cons show ?case by simp
qed simp

lemma scan_lus_space: "scan_lus n (CHR '' '' # s) = scan_lus n s"
  by (cases n) (simp_all add: scan_lu_def is_space_def)

lemma sscanf_cpu_stat:
  assumes "length ns = 10" and "\<forall>n \<in> set ns. n < 18446744073709551616"
  shows "sscanf_cpu (stat_line ns) = map of_nat ns"
  using scan_lus_stat [OF assms(2)] assms(1)
  by (simp add: sscanf_cpu_def stat_line_def scan_lus_space numeral_eq_Suc del: scan_lus.simps)

lemma getline_stat: "takeWhile (\<lambda>c. c \<noteq> CHR 0x0A) (stat_line ns @ CHR 0x0A # rest) = stat_line ns"
proof -
  have "c \<noteq> CHR 0x0A" if "c \<in> set (stat_line ns)" for c
  proof -
    have "\<not> is_digit (CHR 0x0A)" by (simp add: is_digit_def)
    then have "CHR 0x0A \<notin> set (dec n)" for n using dec_digits by blast
    with that show ?thesis by (auto simp: stat_line_def split: if_splits)
  qed
  then show ?thesis by (simp add: takeWhile_append2)
qed

text \<open>The double for a machine whose counters do not wrap: the busy share of the time, in percent.\<close>

lemma utilization_of_stat:
  assumes "length ns = 10" and "\<forall>n \<in> set ns. n < 18446744073709551616"
    and "busy = ns ! 0 + ns ! 1 + ns ! 2 + ns ! 5 + ns ! 6 + ns ! 7" and "idle = ns ! 3 + ns ! 4"
    and "100 * busy < 18446744073709551616" and "busy + idle < 18446744073709551616" and "0 < busy"
  shows "getCPUUtilization rnd stack (stat_line ns @ CHR 0x0A # rest) =
           Some (rnd (rnd (of_nat (100 * busy)) / rnd (of_nat (busy + idle))))"
proof -
  have unat: "unat (of_nat n :: 64 word) = n" if "n < 18446744073709551616" for n
    using that by (simp add: unsigned_of_nat take_bit_nat_eq_self)
  have var: "sscanf_cpu (stat_line ns) ! i = of_nat (ns ! i)" if "i < 10" for i
    using sscanf_cpu_stat [OF assms(1,2)] that assms(1) by simp
  have len: "length (sscanf_cpu (stat_line ns)) = 10"
    using sscanf_cpu_stat [OF assms(1,2)] assms(1) by simp
  have busy: "of_nat (ns ! 0) + of_nat (ns ! 1) + of_nat (ns ! 2) + of_nat (ns ! 5) + of_nat (ns ! 6) +
      of_nat (ns ! 7) = (of_nat busy :: 64 word)"
    by (simp add: assms(3))
  have total: "of_nat (ns ! 3) + of_nat (ns ! 4) + of_nat busy = (of_nat (busy + idle) :: 64 word)"
    by (simp add: assms(4))
  let ?g = "\<lambda>i. if i < length (sscanf_cpu (stat_line ns)) then sscanf_cpu (stat_line ns) ! i else stack i"
  have g: "?g 0 = of_nat (ns ! 0)" "?g 1 = of_nat (ns ! 1)" "?g 2 = of_nat (ns ! 2)" "?g 3 = of_nat (ns ! 3)"
    "?g 4 = of_nat (ns ! 4)" "?g 5 = of_nat (ns ! 5)" "?g 6 = of_nat (ns ! 6)" "?g 7 = of_nat (ns ! 7)"
    by (simp_all add: len var)
  have times: "of_nat busy * 100 = (of_nat (100 * busy) :: 64 word)" by simp
  have "(of_nat (busy + idle) :: 64 word) \<noteq> 0"
    using unat [OF assms(6)] assms(7) by (metis add_is_0 less_nat_zero_code unat_0 neq0_conv)
  then show ?thesis
    unfolding getCPUUtilization_def getline_stat Let_def g busy total times
    by (simp only: unat [OF assms(5)] unat [OF assms(6)] if_False)
qed

section \<open>Reading /proc/loadavg\<close>

definition scan_sign :: "string \<Rightarrow> bool \<times> string" where
  \<comment> \<open>whether a minus sign comes first, and what follows the sign\<close>
  "scan_sign s = (if s \<noteq> [] \<and> hd s \<in> {CHR ''-'', CHR ''+''} then (hd s = CHR ''-'', tl s) else (False, s))"

definition scan_exponent :: "string \<Rightarrow> rat option" where
  \<comment> \<open>the power of ten after the mantissa; \<open>None\<close> when \<open>e\<close> is not followed by a number\<close>
  "scan_exponent s =
     (if s \<noteq> [] \<and> hd s \<in> {CHR ''e'', CHR ''E''}
      then let (neg, t) = scan_sign (tl s); ds = takeWhile is_digit t in
           if ds = [] then None else Some (if neg then 1 / 10 ^ dec_val ds else 10 ^ dec_val ds)
      else Some 1)"

definition scan_double :: "string \<Rightarrow> rat" where
  \<comment> \<open>\<open>iss >> x\<close>: white space, a sign, digits with a point among them, an exponent; 0 when this fails\<close>
  "scan_double s =
     (let (neg, t) = scan_sign (dropWhile is_space s);
          whole = takeWhile is_digit t; t = dropWhile is_digit t;
          (frac, t) = (if t \<noteq> [] \<and> hd t = CHR ''.''
                       then (takeWhile is_digit (tl t), dropWhile is_digit (tl t)) else ([], t));
          mant = of_nat (dec_val (whole @ frac)) / 10 ^ length frac in
      if whole @ frac = [] then 0
      else case scan_exponent t of None \<Rightarrow> 0 | Some p \<Rightarrow> (if neg then - (mant * p) else mant * p))"

definition getAverageLoad :: "(rat \<Rightarrow> rat) \<Rightarrow> string \<Rightarrow> rat" where
  \<comment> \<open>the load of the last minute; \<open>loadavg_file\<close> is the bytes of the file\<close>
  "getAverageLoad rnd loadavg_file = rnd (scan_double (takeWhile (\<lambda>c. c \<noteq> CHR 0x0A) loadavg_file))"

text \<open>The first number of the line that the kernel prints, such as \<open>0.52\<close>, is what is read.\<close>

lemma load_of_loadavg:
  assumes "\<forall>c \<in> set cents. is_digit c" and "CHR 0x0A \<notin> set rest"
  shows "getAverageLoad rnd (dec n @ CHR ''.'' # cents @ CHR '' '' # rest @ CHR 0x0A # more) =
           rnd (of_nat (dec_val (dec n @ cents)) / 10 ^ length cents)"
proof -
  let ?line = "dec n @ CHR ''.'' # cents @ CHR '' '' # rest"
  obtain c t where ct: "dec n @ CHR ''.'' # cents @ CHR '' '' # rest = c # t" "is_digit c"
    by (metis append_Cons dec_digits dec_nonempty list.exhaust list.set_intros(1))
  from ct(2) have c: "\<not> is_space c" "c \<noteq> CHR ''-''" "c \<noteq> CHR ''+''"
    by (auto simp: is_digit_def is_space_def)
  have nd: "\<not> is_digit (CHR 0x0A)" "\<not> is_digit (CHR ''.'')" "\<not> is_digit (CHR '' '')" by (simp_all add: is_digit_def)
  then have "CHR 0x0A \<notin> set (dec n)" "CHR 0x0A \<notin> set cents" using dec_digits assms(1) by blast+
  then have "takeWhile (\<lambda>c. c \<noteq> CHR 0x0A) (?line @ CHR 0x0A # more) = ?line"
    using assms(2) by (subst takeWhile_append2) auto
  then have line: "takeWhile (\<lambda>c. c \<noteq> CHR 0x0A) (dec n @ CHR ''.'' # cents @ CHR '' '' # rest @ CHR 0x0A # more) = ?line"
    by simp
  have sign: "scan_sign (dropWhile is_space ?line) = (False, ?line)"
    using c by (simp add: ct(1) scan_sign_def)
  have whole: "takeWhile is_digit ?line = dec n" using takeWhile_dec nd(2) by simp
  then have after: "dropWhile is_digit ?line = CHR ''.'' # cents @ CHR '' '' # rest"
    using takeWhile_dropWhile_id [of is_digit ?line] by simp
  have "takeWhile is_digit (cents @ CHR '' '' # rest) = cents @ takeWhile is_digit (CHR '' '' # rest)"
    using assms(1) by (intro takeWhile_append2) blast
  then have frac: "takeWhile is_digit (cents @ CHR '' '' # rest) = cents" using nd(3) by simp
  then have "dropWhile is_digit (cents @ CHR '' '' # rest) = CHR '' '' # rest"
    using takeWhile_dropWhile_id [of is_digit "cents @ CHR '' '' # rest"] by simp
  then show ?thesis
    unfolding getAverageLoad_def line scan_double_def sign Let_def prod.case whole after
    using frac by (simp add: scan_exponent_def)
qed

end
