(* ===== verification/Io_Thread.thy ===== *)
theory Io_Thread
  imports Sys_Util Event_Loop
begin

text \<open>
  \<open>net/io_thread.{h,cc}\<close> and \<open>net/io_thread_group.{h,cc}\<close>: the threads that run the event loops of the
  connections.  An \<open>IOThread\<close> is two threads that hand over through semaphores: the one that
  constructs, starts and destroys it, and \<open>Main\<close>; their steps are an inductive relation.
  \<open>IOThreadGroup\<close> is a vector of them with a round-robin choice; the load of the machine and the
  threads created are arguments.
\<close>

section \<open>One thread\<close>

datatype main_pc =
    Main_Begin | Main_Has_Loop | Main_Has_Id
  | Main_Waits                 \<comment> \<open>after \<open>sem_post(m_init_semaphore)\<close>\<close>
  | Main_Loops | Main_Returned

datatype owner_pc =
    Owner_Constructs           \<comment> \<open>after \<open>pthread_create\<close>, before \<open>sem_wait\<close> returns\<close>
  | Owner_Has_Thread
  | Owner_Joins                \<comment> \<open>in \<open>pthread_join\<close>, from \<open>join\<close> or from the destructor\<close>
  | Owner_Joined

record io_thread =
  io_thread_id :: int
  io_eventloop :: "event_loop option"
  io_init_semaphore :: nat
  io_start_semaphore :: nat
  io_main :: main_pc
  io_owner :: owner_pc
  io_starts :: nat             \<comment> \<open>how often \<open>start\<close> was called\<close>

definition IOThread_new :: io_thread where
  \<comment> \<open>as far as the call of \<open>pthread_create\<close>\<close>
  "IOThread_new = \<lparr>io_thread_id = - 1, io_eventloop = None, io_init_semaphore = 0, io_start_semaphore = 0,
     io_main = Main_Begin, io_owner = Owner_Constructs, io_starts = 0\<rparr>"

inductive io_step :: "io_thread \<Rightarrow> io_thread \<Rightarrow> bool" where
  main_loop: "io_main t = Main_Begin \<Longrightarrow> EventLoop_new None tid epoll_fd wakeup_fd timer_fd = Some el \<Longrightarrow>
    io_step t (t\<lparr>io_eventloop := Some el, io_main := Main_Has_Loop\<rparr>)"
| main_id: "io_main t = Main_Has_Loop \<Longrightarrow> io_eventloop t = Some el \<Longrightarrow>
    io_step t (t\<lparr>io_thread_id := el_thread_id el, io_main := Main_Has_Id\<rparr>)"
| main_post: "io_main t = Main_Has_Id \<Longrightarrow>
    io_step t (t\<lparr>io_init_semaphore := io_init_semaphore t + 1, io_main := Main_Waits\<rparr>)"
| main_wait: "io_main t = Main_Waits \<Longrightarrow> io_start_semaphore t = Suc n \<Longrightarrow>
    io_step t (t\<lparr>io_start_semaphore := n, io_main := Main_Loops\<rparr>)"
| main_turn: "io_main t = Main_Loops \<Longrightarrow> io_eventloop t = Some el \<Longrightarrow> \<not> el_quit el \<Longrightarrow>
    el_thread_id el' = el_thread_id el \<Longrightarrow>
    io_step t (t\<lparr>io_eventloop := Some el'\<rparr>)"
| main_end: "io_main t = Main_Loops \<Longrightarrow> io_eventloop t = Some el \<Longrightarrow> el_quit el \<Longrightarrow>
    io_step t (t\<lparr>io_main := Main_Returned\<rparr>)"
| other_task: "io_owner t = Owner_Has_Thread \<Longrightarrow> io_eventloop t = Some el \<Longrightarrow>
    io_step t (t\<lparr>io_eventloop := Some (addTask cb wake el)\<rparr>)"
| owner_created: "io_owner t = Owner_Constructs \<Longrightarrow> io_init_semaphore t = Suc n \<Longrightarrow>
    io_step t (t\<lparr>io_init_semaphore := n, io_owner := Owner_Has_Thread\<rparr>)"
| owner_start: "io_owner t = Owner_Has_Thread \<Longrightarrow>
    io_step t (t\<lparr>io_start_semaphore := io_start_semaphore t + 1, io_starts := io_starts t + 1\<rparr>)"
| owner_join: "io_owner t = Owner_Has_Thread \<Longrightarrow> io_step t (t\<lparr>io_owner := Owner_Joins\<rparr>)"
| owner_destroy: "io_owner t = Owner_Has_Thread \<Longrightarrow> io_eventloop t = Some el \<Longrightarrow>
    io_step t (t\<lparr>io_eventloop := Some (EventLoop_stop el), io_owner := Owner_Joins\<rparr>)"
| owner_joined: "io_owner t = Owner_Joins \<Longrightarrow> io_main t = Main_Returned \<Longrightarrow>
    io_step t (t\<lparr>io_owner := Owner_Joined\<rparr>)"

inductive io_reachable :: "io_thread \<Rightarrow> bool" where
  io_new: "io_reachable IOThread_new"
| io_next: "io_reachable t \<Longrightarrow> io_step t t' \<Longrightarrow> io_reachable t'"

inductive_cases io_stepE: "io_step t t'"

definition IOThread_getEventLoop :: "io_thread \<Rightarrow> event_loop option" where
  "IOThread_getEventLoop t = io_eventloop t"

definition io_inv :: "io_thread \<Rightarrow> bool" where
  "io_inv t \<longleftrightarrow>
     (io_main t = Main_Begin \<longleftrightarrow> io_eventloop t = None) \<and>
     (io_main t \<notin> {Main_Begin, Main_Has_Loop} \<longrightarrow> (\<exists>el. io_eventloop t = Some el \<and> io_thread_id t = el_thread_id el)) \<and>
     (io_init_semaphore t = (if io_main t \<in> {Main_Begin, Main_Has_Loop, Main_Has_Id} \<or> io_owner t \<noteq> Owner_Constructs then 0 else 1)) \<and>
     (io_owner t \<noteq> Owner_Constructs \<longrightarrow> io_main t \<notin> {Main_Begin, Main_Has_Loop, Main_Has_Id}) \<and>
     io_starts t = io_start_semaphore t + (if io_main t \<in> {Main_Loops, Main_Returned} then 1 else 0) \<and>
     (io_main t = Main_Returned \<longrightarrow> (\<exists>el. io_eventloop t = Some el \<and> el_quit el)) \<and>
     (io_owner t = Owner_Constructs \<longrightarrow> io_starts t = 0) \<and>
     (io_owner t = Owner_Joined \<longrightarrow> io_main t = Main_Returned)"

lemma EventLoop_stop_fields [simp]: "el_thread_id (EventLoop_stop el) = el_thread_id el" "el_quit (EventLoop_stop el)"
  by (simp_all add: EventLoop_stop_def EventLoop_wakeup_def)

lemma addTask_fields [simp]: "el_thread_id (addTask cb wake el) = el_thread_id el" "el_quit (addTask cb wake el) = el_quit el"
  by (simp_all add: addTask_def push_task_def EventLoop_wakeup_def Let_def)

lemma io_inv_step: "io_step t t' \<Longrightarrow> io_inv t \<Longrightarrow> io_inv t'"
  by (induction rule: io_step.induct) (auto simp: io_inv_def split: if_splits)

lemma io_inv_new: "io_inv IOThread_new"
  by (simp add: io_inv_def IOThread_new_def)

lemma io_reachable_inv: "io_reachable t \<Longrightarrow> io_inv t"
  by (induction rule: io_reachable.induct) (auto intro: io_inv_new io_inv_step)

lemma io_inv_owner:
  "io_inv t \<Longrightarrow> io_owner t \<noteq> Owner_Constructs \<Longrightarrow> \<exists>el. io_eventloop t = Some el \<and> io_thread_id t = el_thread_id el"
  unfolding io_inv_def by blast

lemma io_inv_started: "io_inv t \<Longrightarrow> io_main t \<in> {Main_Loops, Main_Returned} \<Longrightarrow> 0 < io_starts t"
  unfolding io_inv_def by simp

lemma io_inv_returned: "io_inv t \<Longrightarrow> io_main t = Main_Returned \<Longrightarrow> \<exists>el. io_eventloop t = Some el \<and> el_quit el"
  unfolding io_inv_def by blast

lemma io_created_example:
  "\<exists>t. io_reachable t \<and> io_owner t = Owner_Has_Thread \<and> io_thread_id t = 2 \<and> io_starts t = 0"
proof -
  obtain el where el: "EventLoop_new None 2 3 4 5 = Some el" "el_thread_id el = 2"
    by (simp add: EventLoop_new_def initWakeUpFdEvent_def initTimer_def loop_op_defs)
  define t1 where "t1 = IOThread_new\<lparr>io_eventloop := Some el, io_main := Main_Has_Loop\<rparr>"
  define t2 where "t2 = t1\<lparr>io_thread_id := el_thread_id el, io_main := Main_Has_Id\<rparr>"
  define t3 where "t3 = t2\<lparr>io_init_semaphore := io_init_semaphore t2 + 1, io_main := Main_Waits\<rparr>"
  define t4 where "t4 = t3\<lparr>io_init_semaphore := 0, io_owner := Owner_Has_Thread\<rparr>"
  have "io_step IOThread_new t1" unfolding t1_def by (rule main_loop [OF _ el(1)]) (simp add: IOThread_new_def)
  moreover have "io_step t1 t2" unfolding t2_def by (rule main_id) (simp_all add: t1_def)
  moreover have "io_step t2 t3" unfolding t3_def by (rule main_post) (simp add: t2_def)
  moreover have "io_step t3 t4" unfolding t4_def
    by (rule owner_created) (simp_all add: t3_def t2_def t1_def IOThread_new_def)
  ultimately have "io_reachable t4" by (meson io_new io_next)
  moreover have "io_owner t4 = Owner_Has_Thread \<and> io_thread_id t4 = 2 \<and> io_starts t4 = 0"
    by (simp add: t4_def t3_def t2_def t1_def IOThread_new_def el(2))
  ultimately show ?thesis by blast
qed

text \<open>C34. The hand-over of an \<open>IOThread\<close>: as soon as its constructor has returned, \<open>getEventLoop\<close> is not null
  and the thread id is that of the loop's thread; \<open>Main\<close> does not run the loop before \<open>start\<close> was
  called, nor return before the loop was told to quit.  So whoever joins or destroys a thread that
  was never started waits for ever.\<close>

theorem io_thread_handover:
  assumes "io_reachable t"
  shows "(io_owner t \<noteq> Owner_Constructs \<longrightarrow>
            (\<exists>el. IOThread_getEventLoop t = Some el \<and> io_thread_id t = el_thread_id el)) \<and>
    (io_main t \<in> {Main_Loops, Main_Returned} \<longrightarrow> 0 < io_starts t) \<and>
    (io_main t = Main_Returned \<longrightarrow> (\<exists>el. IOThread_getEventLoop t = Some el \<and> el_quit el)) \<and>
    (io_owner t = Owner_Joins \<and> io_starts t = 0 \<longrightarrow> (\<forall>t'. io_step\<^sup>*\<^sup>* t t' \<longrightarrow> io_owner t' = Owner_Joins))"
proof -
  have inv: "io_inv t" by (rule io_reachable_inv [OF assms])
  have "io_owner t' = Owner_Joins \<and> io_starts t' = 0 \<and> io_inv t'"
    if "io_step\<^sup>*\<^sup>* t t'" "io_owner t = Owner_Joins" "io_starts t = 0" for t'
    using that
  proof (induction rule: rtranclp_induct)
    case base
    with inv show ?case by simp
  next
    case (step t1 t2)
    then have i: "io_owner t1 = Owner_Joins" "io_starts t1 = 0" "io_inv t1" by auto
    then have "io_main t1 \<notin> {Main_Loops, Main_Returned}" by (auto simp: io_inv_def split: if_splits)
    with step.hyps(2) i have "io_owner t2 = Owner_Joins \<and> io_starts t2 = 0" by (auto elim: io_stepE)
    with io_inv_step [OF step.hyps(2) i(3)] show ?case by blast
  qed
  then have waits: "io_owner t = Owner_Joins \<and> io_starts t = 0 \<longrightarrow> (\<forall>t'. io_step\<^sup>*\<^sup>* t t' \<longrightarrow> io_owner t' = Owner_Joins)"
    by blast
  show ?thesis
    using inv waits io_inv_owner [OF inv] io_inv_started [OF inv] io_inv_returned [OF inv]
    unfolding IOThread_getEventLoop_def by blast
qed

theorem io_thread_handover_witness:
  "\<exists>t. io_reachable t \<and> io_owner t = Owner_Joins \<and> (\<forall>t'. io_step\<^sup>*\<^sup>* t t' \<longrightarrow> io_owner t' = Owner_Joins)"
proof -
  obtain t where t: "io_reachable t" "io_owner t = Owner_Has_Thread" "io_starts t = 0"
    using io_created_example by blast
  let ?t = "t\<lparr>io_owner := Owner_Joins\<rparr>"
  have r: "io_reachable ?t" by (rule io_next [OF t(1) owner_join]) (rule t(2))
  with io_thread_handover [OF r] t(3) show ?thesis by (intro exI [of _ ?t]) simp
qed

section \<open>The group\<close>

record io_thread_group =
  ig_size :: int
  ig_io_thread_groups :: "io_thread list"
  ig_index :: int

definition group_size :: "rat \<Rightarrow> rat \<Rightarrow> int \<Rightarrow> int res" where
  \<comment> \<open>the doubles that \<open>getCPUUtilization\<close> and \<open>getAverageLoad\<close> return, compared with the doubles nearest
      to 0.8 and 0.2\<close>
  "group_size CPU_usage sys_load n_threads =
     (let high = 3602879701896397 / 4503599627370496; low = 3602879701896397 / 18014398509481984 in
      bind_res (if CPU_usage > high \<or> sys_load > high then chk32 (n_threads * 2) else Inr n_threads) (\<lambda>n_threads.
      Inr (if CPU_usage < low \<or> sys_load < low
           then (if sgn n_threads * (\<bar>n_threads\<bar> div 2) < 2 then 2 else sgn n_threads * (\<bar>n_threads\<bar> div 2)) else n_threads)))"

definition IOThreadGroup_new :: "(nat \<Rightarrow> io_thread) \<Rightarrow> rat \<Rightarrow> rat \<Rightarrow> int \<Rightarrow> io_thread_group res" where
  \<comment> \<open>\<open>new_thread i\<close> is the \<open>i\<close>-th \<open>IOThread\<close> constructed; \<open>resize\<close> takes a \<open>size_t\<close>\<close>
  "IOThreadGroup_new new_thread CPU_usage sys_load n_threads =
     bind_res (group_size CPU_usage sys_load n_threads) (\<lambda>n.
     if n < 0 then Inl Length_Error
     else Inr \<lparr>ig_size = n_threads, ig_io_thread_groups = map new_thread [0..<nat n], ig_index = 0\<rparr>)"

definition IOThread_start :: "io_thread \<Rightarrow> io_thread" where
  "IOThread_start t = t\<lparr>io_start_semaphore := io_start_semaphore t + 1, io_starts := io_starts t + 1\<rparr>"

definition IOThreadGroup_start :: "io_thread_group \<Rightarrow> io_thread_group" where
  "IOThreadGroup_start g = g\<lparr>ig_io_thread_groups := map IOThread_start (ig_io_thread_groups g)\<rparr>"

definition getIOThread :: "io_thread_group \<Rightarrow> (nat \<times> io_thread_group) res" where
  \<comment> \<open>the place of the thread in the vector\<close>
  "getIOThread g =
     (let index = (if ig_index g = int (length (ig_io_thread_groups g)) \<or> ig_index g = - 1 then 0 else ig_index g)
      in bind_res (at_index (ig_io_thread_groups g) index) (\<lambda>_.
         bind_res (chk32 (index + 1)) (\<lambda>i. Inr (nat index, g\<lparr>ig_index := i\<rparr>))))"

lemma IOThread_start_step: "io_owner t = Owner_Has_Thread \<Longrightarrow> io_step t (IOThread_start t)"
  unfolding IOThread_start_def by (rule owner_start)

lemma group_size_low:
  "n_threads < 2 \<Longrightarrow> - 1073741824 \<le> n_threads \<Longrightarrow> sys_load < 3602879701896397 / 18014398509481984 \<Longrightarrow>
   CPU_usage < 3602879701896397 / 18014398509481984 \<Longrightarrow> \<exists>n. group_size CPU_usage sys_load n_threads = Inr n \<and> 2 \<le> n"
  by (auto simp: group_size_def bind_res_eq_Inr Let_def)

lemma getIOThread_round:
  assumes "0 \<le> ig_index g" and "ig_index g \<le> int (length (ig_io_thread_groups g))"
    and "ig_io_thread_groups g \<noteq> []" and "int (length (ig_io_thread_groups g)) \<le> INT_MAX"
  shows "\<exists>i. getIOThread g = Inr (nat (ig_index g) mod length (ig_io_thread_groups g), g\<lparr>ig_index := i\<rparr>) \<and>
    1 \<le> i \<and> i \<le> int (length (ig_io_thread_groups g)) \<and>
    nat i mod length (ig_io_thread_groups g) = (nat (ig_index g) + 1) mod length (ig_io_thread_groups g)"
proof (cases "ig_index g = int (length (ig_io_thread_groups g))")
  case True
  with assms have "getIOThread g = Inr (nat (ig_index g) mod length (ig_io_thread_groups g), g\<lparr>ig_index := 1\<rparr>)"
    by (simp add: getIOThread_def at_index_in chk32_in)
  moreover have "1 \<le> int (length (ig_io_thread_groups g))" using assms(3) by (cases "ig_io_thread_groups g") auto
  ultimately show ?thesis using True by (intro exI [of _ 1]) (simp add: mod_Suc)
next
  case False
  with assms have lt: "ig_index g < int (length (ig_io_thread_groups g))" by simp
  with assms have "getIOThread g = Inr (nat (ig_index g) mod length (ig_io_thread_groups g), g\<lparr>ig_index := ig_index g + 1\<rparr>)"
    by (simp add: getIOThread_def at_index_in chk32_in Let_def)
  with lt assms(1) show ?thesis by (intro exI [of _ "ig_index g + 1"]) (simp add: nat_add_distrib)
qed

text \<open>C35. The group is sized by a percentage compared with fractions: on a machine that is busy 1 percent
  of the time or more, \<open>getCPUUtilization\<close> reads from \<open>/proc/stat\<close> a value of at least 1, whatever the
  rounding, which counts as high (above 0.8) and never as low (below 0.2); the constructor then
  makes twice the threads configured, unless the load average alone is low.\<close>

theorem busy_group_doubled:
  assumes "mono rnd" and "rnd 1 = 1"
    and "length ns = 10" and "\<forall>n \<in> set ns. n < 18446744073709551616"
    and "busy = ns ! 0 + ns ! 1 + ns ! 2 + ns ! 5 + ns ! 6 + ns ! 7" and "idle = ns ! 3 + ns ! 4"
    and "100 * busy < 18446744073709551616" and "busy + idle \<le> 100 * busy" and "0 < busy"
    and "3602879701896397 / 18014398509481984 \<le> sys_load" and "0 \<le> n" and "n \<le> 1073741823"
  shows "\<exists>u g. getCPUUtilization rnd stack (stat_line ns @ CHR 0x0A # rest) = Some u \<and> 1 \<le> u \<and>
           IOThreadGroup_new new_thread u sys_load n = Inr g \<and>
           length (ig_io_thread_groups g) = 2 * nat n"
proof -
  let ?a = "rnd (of_nat (100 * busy))" and ?b = "rnd (of_nat (busy + idle))"
  have u: "getCPUUtilization rnd stack (stat_line ns @ CHR 0x0A # rest) = Some (rnd (?a / ?b))"
    using utilization_of_stat [OF assms(3-7) _ assms(9)] assms(7,8) by simp
  have "rnd 1 \<le> ?b" using assms(9) by (intro monoD [OF assms(1)]) simp
  moreover have "?b \<le> ?a" using assms(8) by (intro monoD [OF assms(1)] of_nat_mono)
  ultimately have "1 \<le> ?a / ?b" using assms(2) by (simp add: le_divide_eq)
  then have one: "1 \<le> rnd (?a / ?b)" using monoD [OF assms(1)] assms(2) by metis
  then have "group_size (rnd (?a / ?b)) sys_load n = Inr (2 * n)"
    using assms(10-12) by (simp add: group_size_def Let_def chk32_in)
  then have "\<exists>g. IOThreadGroup_new new_thread (rnd (?a / ?b)) sys_load n = Inr g \<and>
      length (ig_io_thread_groups g) = 2 * nat n"
    using assms(11) by (simp add: IOThreadGroup_new_def nat_mult_distrib)
  with u one show ?thesis by blast
qed

theorem busy_group_doubled_witness:
  "\<exists>u g. getCPUUtilization id (\<lambda>_. 0) (stat_line [1, 0, 0, 98, 1, 0, 0, 0, 0, 0] @ CHR 0x0A # ''cpu0'') = Some u \<and>
     IOThreadGroup_new (\<lambda>i. IOThread_new) u 1 4 = Inr g \<and> length (ig_io_thread_groups g) = 8"
proof -
  have "mono (id :: rat \<Rightarrow> rat)" by (simp add: mono_def)
  from busy_group_doubled [OF this, of "[1, 0, 0, 98, 1, 0, 0, 0, 0, 0]" 1 99 1 4 "\<lambda>_. 0" "''cpu0''" "\<lambda>i. IOThread_new"]
  show ?thesis by auto
qed

end
