(* ===== verification/Tcp_Server.thy ===== *)
theory Tcp_Server
  imports Tcp_Connection Config Io_Thread
begin

text \<open>
  \<open>net/tcp/tcp_acceptor.{h,cc}\<close> and \<open>net/tcp/tcp_server.{h,cc}\<close>: the main reactor, which accepts
  connections and gives each to the event loop of an IO thread.  The results of the system calls
  are arguments.  The set of connections holds shared pointers to objects the IO threads work on:
  it is the list of these objects, each with the place of its thread.
\<close>

section \<open>The acceptor\<close>

record tcp_acceptor =
  ac_local_addr :: ip_net_addr
  ac_family :: int
  ac_listenfd :: int

definition TcpAcceptor_new :: "(string \<Rightarrow> 32 word) \<Rightarrow> ip_net_addr \<Rightarrow> int \<Rightarrow> int \<Rightarrow> int \<Rightarrow> tcp_acceptor start" where
  \<comment> \<open>the last three arguments are the results of \<open>socket\<close>, \<open>bind\<close> and \<open>listen\<close>\<close>
  "TcpAcceptor_new inet_addr local_addr listenfd bind_ret listen_ret =
     (if \<not> IPNetAddr_checkValid inet_addr local_addr then Exits ''invalid local addr''
      else if listenfd < 0 then Exits ''invalid listenfd''
      else if bind_ret \<noteq> 0 then Exits ''bind error''
      else if listen_ret \<noteq> 0 then Exits ''listen error''
      else Starts \<lparr>ac_local_addr = local_addr, ac_family = getFamily local_addr, ac_listenfd = listenfd\<rparr>)"

definition getListenFd :: "tcp_acceptor \<Rightarrow> int" where
  "getListenFd a = ac_listenfd a"

type_synonym accepted = "int \<times> sockaddr_in"    \<comment> \<open>what \<open>::accept\<close> returns and leaves in \<open>client_addr\<close>\<close>

definition TcpAcceptor_accept ::
  "(32 word \<Rightarrow> string) \<Rightarrow> accepted \<Rightarrow> tcp_acceptor \<Rightarrow> int \<times> ip_net_addr option" where
  "TcpAcceptor_accept inet_ntoa accepted a =
     (if ac_family a = AF_INET
      then (fst accepted, Some (IPNetAddr_of_sockaddr inet_ntoa (snd accepted)))
      else (- 1, None))"

section \<open>The server\<close>

record 'd server_conn =
  sc_conn :: "'d tcp_connection"
  sc_thread :: nat

record 'd tcp_server =
  ts_acceptor :: tcp_acceptor
  ts_local_addr :: ip_net_addr
  ts_io_thread_groups :: io_thread_group
  ts_listen_fd_event :: fd_event
  ts_client_counts :: int
  ts_client :: "'d server_conn list"
  ts_clear_client_timer_event :: nat

record 'd server_world =
  sw_server :: "'d tcp_server"
  sw_fd_group :: fd_event_group      \<comment> \<open>the process-wide table\<close>

record server_boot =                 \<comment> \<open>what the constructor finds\<close>
  sb_inet_addr :: "string \<Rightarrow> 32 word"
  sb_listenfd :: int
  sb_bind :: int
  sb_listen :: int
  sb_current_loop :: "event_loop option"
  sb_tid :: int
  sb_epoll_fd :: int
  sb_wakeup_fd :: int
  sb_timer_fd :: int
  sb_new_thread :: "nat \<Rightarrow> io_thread"
  sb_CPU_usage :: rat
  sb_sys_load :: rat
  sb_clock :: clock
  sb_timer_event :: nat              \<comment> \<open>the place of a new \<open>TimerEvent\<close>\<close>
  sb_fd_group :: "fd_event_group option"

definition TcpServer_init :: "server_boot \<Rightarrow> config \<Rightarrow> ip_net_addr \<Rightarrow> ('d server_world \<times> event_loop) start" where
  \<comment> \<open>the server and its main event loop\<close>
  "TcpServer_init sys conf local_addr =
     bind_start (TcpAcceptor_new (sb_inet_addr sys) local_addr (sb_listenfd sys) (sb_bind sys) (sb_listen sys)) (\<lambda>acceptor.
     case GetCurrentEventLoop (sb_current_loop sys) (sb_tid sys) (sb_epoll_fd sys) (sb_wakeup_fd sys) (sb_timer_fd sys) of
       None \<Rightarrow> Exits ''failed to create event loop''
     | Some main_eventloop \<Rightarrow>
     bind_start (lift_start (IOThreadGroup_new (sb_new_thread sys) (sb_CPU_usage sys) (sb_sys_load sys) (cf_io_threads conf))) (\<lambda>groups.
     let listen_fd_event = fd_listen IN_EVENT (Some TcpServer_onAccept) None (fd_event_new (getListenFd acceptor));
         main_eventloop = addEpollEvent (sb_tid sys) listen_fd_event main_eventloop;
         timer_event = sb_timer_event sys;
         main_eventloop = main_eventloop\<lparr>el_timer := TimerEvent_new (sb_clock sys) timer_event 5000 True
           (Some TcpServer_ClearClientTimerFunc) (el_timer main_eventloop)\<rparr>;
         main_eventloop = EventLoop_addTimerEvent (sb_clock sys) timer_event main_eventloop
     in Starts (\<lparr>sw_server = \<lparr>ts_acceptor = acceptor, ts_local_addr = local_addr, ts_io_thread_groups = groups,
           ts_listen_fd_event = listen_fd_event, ts_client_counts = 0, ts_client = [],
           ts_clear_client_timer_event = timer_event\<rparr>,
          sw_fd_group = GetFdEventGroup (sb_fd_group sys)\<rparr>, main_eventloop)))"

definition onAccept ::
  "(32 word \<Rightarrow> string) \<Rightarrow> int \<Rightarrow> accepted \<Rightarrow> 'd server_world \<Rightarrow> 'd server_world res" where
  "onAccept inet_ntoa tid accepted w =
     (let s = sw_server w; (client_fd, peer_addr) = TcpAcceptor_accept inet_ntoa accepted (ts_acceptor s) in
      bind_res (chk32 (ts_client_counts s + 1)) (\<lambda>counts.
      bind_res (getIOThread (ts_io_thread_groups s)) (\<lambda>(i, groups).
      let io_thread = ig_io_thread_groups groups ! i in
      bind_res (getFdEvent client_fd (sw_fd_group w)) (\<lambda>(event, fd_group).
      case IOThread_getEventLoop io_thread of None \<Rightarrow> Inl Null_Deref | Some eventloop \<Rightarrow>
      bind_res (TcpConnection_new eventloop client_fd 128 peer_addr (Some (ts_local_addr s)) TcpConnectionByServer
        event tid None ()) (\<lambda>connection.
      let connection = setState Connected connection;
          io_thread = io_thread\<lparr>io_eventloop := Some (cw_loop connection)\<rparr>;
          groups = groups\<lparr>ig_io_thread_groups := (ig_io_thread_groups groups)[i := io_thread]\<rparr>
      in Inr (w\<lparr>sw_server := s\<lparr>ts_client_counts := counts, ts_io_thread_groups := groups,
                  ts_client := ts_client s @ [\<lparr>sc_conn = cw_conn connection, sc_thread = i\<rparr>]\<rparr>,
                sw_fd_group := set_fd_event (cw_fd_event connection) fd_group\<rparr>))))))"

definition ClearClientTimerFunc :: "'d tcp_server \<Rightarrow> 'd tcp_server" where
  "ClearClientTimerFunc s = s\<lparr>ts_client := filter (\<lambda>c. tc_state (sc_conn c) \<noteq> Closed) (ts_client s)\<rparr>"

section \<open>The main loop\<close>

text \<open>The callbacks of the main loop: a fault ends the process, \<open>sr_accepted\<close> is what the calls of
  \<open>::accept\<close> to come return; with none left the call blocks, and the model stops there.\<close>

record 'd server_run =
  sr_world :: "'d server_world res"
  sr_accepted :: "accepted list"

fun server_task :: "(32 word \<Rightarrow> string) \<Rightarrow> int \<Rightarrow> callback \<Rightarrow> 'd server_run \<Rightarrow> 'd server_run" where
  "server_task inet_ntoa tid TcpServer_onAccept r =
     (case sr_accepted r of [] \<Rightarrow> r
      | a # rest \<Rightarrow> r\<lparr>sr_world := bind_res (sr_world r) (onAccept inet_ntoa tid a), sr_accepted := rest\<rparr>)"
| "server_task inet_ntoa tid TcpServer_ClearClientTimerFunc r =
     r\<lparr>sr_world := bind_res (sr_world r) (\<lambda>w. Inr (w\<lparr>sw_server := ClearClientTimerFunc (sw_server w)\<rparr>))\<rparr>"
| "server_task inet_ntoa tid cb r = r"

definition server_call ::
  "(32 word \<Rightarrow> string) \<Rightarrow> clock \<Rightarrow> int \<Rightarrow> callback \<Rightarrow> 'd server_run loop_world \<Rightarrow> 'd server_run loop_world" where
  "server_call inet_ntoa clock tid cb w =
     (if cb = Timer_onTimer
      then let (tasks, tm) = onTimer clock (el_timer (lw_loop w))
           in w\<lparr>lw_loop := (lw_loop w)\<lparr>el_timer := tm\<rparr>,
                lw_rest := fold (\<lambda>(_, task) r. case task of None \<Rightarrow> r | Some cb \<Rightarrow> server_task inet_ntoa tid cb r)
                             tasks (lw_rest w)\<rparr>
      else w\<lparr>lw_rest := server_task inet_ntoa tid cb (lw_rest w)\<rparr>)"

definition TcpServer_start ::
  "(32 word \<Rightarrow> string) \<Rightarrow> clock \<Rightarrow> int \<Rightarrow> ready list option list \<Rightarrow> 'd server_run loop_world \<Rightarrow> 'd server_run loop_world" where
  "TcpServer_start inet_ntoa clock tid waits w =
     EventLoop_loop (server_call inet_ntoa clock tid) waits
       (w\<lparr>lw_rest := (lw_rest w)\<lparr>sr_world := bind_res (sr_world (lw_rest w)) (\<lambda>u. Inr (u\<lparr>sw_server :=
            (sw_server u)\<lparr>ts_io_thread_groups := IOThreadGroup_start (ts_io_thread_groups (sw_server u))\<rparr>\<rparr>))\<rparr>\<rparr>)"

section \<open>Accepting\<close>

definition io_tasks :: "'d server_world \<Rightarrow> nat \<Rightarrow> loop_task option list" where
  \<comment> \<open>what is queued in the loop of the \<open>j\<close>-th IO thread\<close>
  "io_tasks w j = (case io_eventloop (ig_io_thread_groups (ts_io_thread_groups (sw_server w)) ! j) of
     None \<Rightarrow> [] | Some el \<Rightarrow> el_pending_tasks el)"

definition thread_count :: "'d server_world \<Rightarrow> nat" where
  "thread_count w = length (ig_io_thread_groups (ts_io_thread_groups (sw_server w)))"

definition thread_ready :: "int \<Rightarrow> io_thread \<Rightarrow> bool" where
  "thread_ready tid t \<longleftrightarrow> (\<exists>el. io_eventloop t = Some el \<and> el_thread_id el \<noteq> tid)"

definition server_ok :: "int \<Rightarrow> 'd server_world \<Rightarrow> bool" where
  "server_ok tid w \<longleftrightarrow>
     (let s = sw_server w; g = ts_io_thread_groups s in
      fd_group_ok (sw_fd_group w) \<and> 2 \<le> length (feg_events (sw_fd_group w)) \<and>
      ig_io_thread_groups g \<noteq> [] \<and> int (length (ig_io_thread_groups g)) \<le> INT_MAX \<and>
      0 \<le> ig_index g \<and> ig_index g \<le> int (length (ig_io_thread_groups g)) \<and>
      (\<forall>t\<in>set (ig_io_thread_groups g). thread_ready tid t) \<and> ac_family (ts_acceptor s) = AF_INET)"

definition conn_view :: "'d server_conn \<Rightarrow> int \<times> ip_net_addr option \<times> ip_net_addr option \<times> TcpState \<times> TcpConnectionType \<times> nat" where
  "conn_view c = (tc_fd (sc_conn c), tc_peer_addr (sc_conn c), tc_local_addr (sc_conn c), tc_state (sc_conn c),
     tc_connection_type (sc_conn c), sc_thread c)"

lemma server_conn_new:
  assumes "el_thread_id el \<noteq> tid"
  shows "\<exists>c. TcpConnection_new el fd 128 peer local TcpConnectionByServer e tid None () = Inr c \<and>
    conn_view \<lparr>sc_conn = cw_conn (setState Connected c), sc_thread = i\<rparr> =
      (fd, peer, local, Connected, TcpConnectionByServer, i) \<and>
    cw_fd_event c = fd_listen IN_EVENT (Some (TcpConnection_onRead fd)) None e \<and>
    el_thread_id (cw_loop c) = el_thread_id el \<and>
    el_pending_tasks (cw_loop c) = el_pending_tasks el @ [Some (Task_Add_Epoll (fe_fd e))]"
  using assms by (simp add: TcpConnection_new_def tcp_buffer_init_def new_bytes_in listenRead_def update_epoll_def
      addEpollEvent_def isInLoopThread_def loop_op_defs conn_view_def setState_def Let_def)

lemma setState_world [simp]: "cw_loop (setState s c) = cw_loop c" "cw_fd_event (setState s c) = cw_fd_event c"
  by (simp_all add: setState_def)

definition reads_fd :: "int \<Rightarrow> fd_event_group \<Rightarrow> bool" where
  \<comment> \<open>the object of the descriptor waits for input of the connection on it\<close>
  "reads_fd fd g \<longleftrightarrow> fd < int (length (feg_events g)) \<and> wants_in (feg_events g ! nat fd) \<and>
     fd_handler IN_EVENT (feg_events g ! nat fd) = Some (TcpConnection_onRead fd)"

definition accept_spec :: "(32 word \<Rightarrow> string) \<Rightarrow> accepted \<Rightarrow> 'd server_world \<Rightarrow> 'd server_world \<Rightarrow> bool" where
  "accept_spec inet_ntoa a w w' \<longleftrightarrow>
     (let s = sw_server w; s' = sw_server w'; n = thread_count w;
          i = nat (ig_index (ts_io_thread_groups s)) mod n in
      thread_count w' = n \<and> nat (ig_index (ts_io_thread_groups s')) mod n = Suc i mod n \<and>
      ts_client_counts s' = ts_client_counts s + 1 \<and> ts_local_addr s' = ts_local_addr s \<and>
      map conn_view (ts_client s') = map conn_view (ts_client s) @
        [(fst a, Some (IPNetAddr_of_sockaddr inet_ntoa (snd a)), Some (ts_local_addr s), Connected, TcpConnectionByServer, i)] \<and>
      (\<forall>j<n. io_tasks w' j = io_tasks w j @ (if j = i then [Some (Task_Add_Epoll (fst a))] else [])) \<and>
      reads_fd (fst a) (sw_fd_group w') \<and>
      (\<forall>fd\<ge>0. reads_fd fd (sw_fd_group w) \<longrightarrow> reads_fd fd (sw_fd_group w')))"

lemma onAccept_one:
  assumes ok: "server_ok tid w" and fd: "0 \<le> fst a" "fst a \<le> 1431655765"
    and count: "0 \<le> ts_client_counts (sw_server w)" "ts_client_counts (sw_server w) < INT_MAX"
  shows "\<exists>w'. onAccept inet_ntoa tid a w = Inr w' \<and> server_ok tid w' \<and> accept_spec inet_ntoa a w w'"
proof -
  define s where "s = sw_server w"
  define G where "G = ts_io_thread_groups s"
  define n where "n = length (ig_io_thread_groups G)"
  define i where "i = nat (ig_index G) mod n"
  have n: "0 < n" "int n \<le> INT_MAX" "thread_count w = n"
    using ok by (auto simp: server_ok_def Let_def thread_count_def n_def G_def s_def)
  have "i < n" using n by (simp add: i_def)
  obtain k where k: "getIOThread G = Inr (i, G\<lparr>ig_index := k\<rparr>)" "1 \<le> k" "k \<le> int n" "nat k mod n = Suc i mod n"
    using getIOThread_round [of G] ok by (auto simp: server_ok_def Let_def G_def s_def n_def i_def mod_Suc_eq)
  define listening where "listening = fd_listen IN_EVENT (Some (TcpConnection_onRead (fst a))) None"
  have table: "fd_group_ok (sw_fd_group w) \<and> 2 \<le> length (feg_events (sw_fd_group w))"
    using ok by (simp add: server_ok_def Let_def)
  obtain e g where e: "getFdEvent (fst a) (sw_fd_group w) = Inr (e, g)" "fe_fd e = fst a"
      "fd_group_ok (set_fd_event (listening e) g) \<and> 2 \<le> length (feg_events (set_fd_event (listening e) g))"
      "fst a \<in> {0..<int (length (feg_events (set_fd_event (listening e) g)))}"
      "feg_events (set_fd_event (listening e) g) ! nat (fst a) = listening e"
      "{0..<int (length (feg_events (sw_fd_group w)))} \<subseteq> {0..<int (length (feg_events (set_fd_event (listening e) g)))}"
      "\<And>fd'. fd' \<in> {0..<int (length (feg_events (sw_fd_group w)))} \<Longrightarrow> fd' \<noteq> fst a \<Longrightarrow>
        feg_events (set_fd_event (listening e) g) ! nat fd' = feg_events (sw_fd_group w) ! nat fd'"
    by (rule fds.update [OF table fd, of listening]) (simp_all add: listening_def)
  have "thread_ready tid (ig_io_thread_groups G ! i)"
    using ok \<open>i < n\<close> nth_mem [of i "ig_io_thread_groups G"] by (simp add: server_ok_def Let_def G_def s_def n_def)
  then obtain el where el: "io_eventloop (ig_io_thread_groups G ! i) = Some el" "el_thread_id el \<noteq> tid"
    by (auto simp: thread_ready_def)
  define peer where "peer = Some (IPNetAddr_of_sockaddr inet_ntoa (snd a))"
  obtain c :: "('a, unit) conn_world" where c:
    "TcpConnection_new el (fst a) 128 peer (Some (ts_local_addr s)) TcpConnectionByServer e tid None () = Inr c"
    "conn_view \<lparr>sc_conn = cw_conn (setState Connected c), sc_thread = i\<rparr> =
      (fst a, peer, Some (ts_local_addr s), Connected, TcpConnectionByServer, i)"
    "cw_fd_event c = listening e"
    "el_thread_id (cw_loop c) = el_thread_id el"
    "el_pending_tasks (cw_loop c) = el_pending_tasks el @ [Some (Task_Add_Epoll (fst a))]"
    using server_conn_new [OF el(2), of "fst a" peer "Some (ts_local_addr s)" e i] e(2) by (auto simp: listening_def)
  define t where "t = (ig_io_thread_groups G ! i)\<lparr>io_eventloop := Some (cw_loop c)\<rparr>"
  define w' where "w' = w\<lparr>sw_server := s\<lparr>ts_client_counts := ts_client_counts s + 1,
      ts_io_thread_groups := G\<lparr>ig_index := k, ig_io_thread_groups := (ig_io_thread_groups G)[i := t]\<rparr>,
      ts_client := ts_client s @ [\<lparr>sc_conn = cw_conn (setState Connected c), sc_thread = i\<rparr>]\<rparr>,
    sw_fd_group := set_fd_event (cw_fd_event c) g\<rparr>"
  have family: "TcpAcceptor_accept inet_ntoa a (ts_acceptor s) = (fst a, peer)"
    using ok by (simp add: server_ok_def Let_def TcpAcceptor_accept_def s_def peer_def)
  have "chk32 (ts_client_counts s + 1) = Inr (ts_client_counts s + 1)"
    using count by (intro chk32_in) (simp_all add: s_def)
  then have run: "onAccept inet_ntoa tid a w = Inr w'"
    using k(1) e(1) el(1) c(1) family
    by (simp add: onAccept_def IOThread_getEventLoop_def w'_def t_def Let_def flip: s_def G_def)
  have threads: "set ((ig_io_thread_groups G)[i := t]) \<subseteq> insert t (set (ig_io_thread_groups G))"
    by (rule set_update_subset_insert)
  have "thread_ready tid t" using el(2) c(4) by (simp add: thread_ready_def t_def)
  then have ok': "server_ok tid w'"
    using ok k(2,3) threads e(3) c(3) n by (auto simp: server_ok_def Let_def w'_def n_def simp flip: s_def G_def)
  have reads: "reads_fd fd (sw_fd_group w')" if "0 \<le> fd" "fd = fst a \<or> reads_fd fd (sw_fd_group w)" for fd
  proof (cases "fd = fst a")
    case True
    with e(4,5) c(3) show ?thesis by (simp add: reads_fd_def w'_def) (simp add: listening_def)
  next
    case False
    with that e(6,7) c(3) show ?thesis by (auto simp: reads_fd_def w'_def)
  qed
  have tasks: "io_tasks w' j = io_tasks w j @ (if j = i then [Some (Task_Add_Epoll (fst a))] else [])" if "j < n" for j
    using that el(1) c(5) by (simp add: io_tasks_def w'_def t_def n_def nth_list_update flip: s_def G_def)
  have "accept_spec inet_ntoa a w w'"
    using n k(4) reads tasks fd(1) c(2)
    by (simp add: accept_spec_def Let_def thread_count_def w'_def n_def i_def peer_def flip: s_def G_def)
  with run ok' show ?thesis by blast
qed

lemma onAccept_failed:
  assumes "server_ok tid w" and "0 \<le> ts_client_counts (sw_server w)" "ts_client_counts (sw_server w) < INT_MAX"
    and "fst a = - 1"
  shows "onAccept inet_ntoa tid a w = Inl Out_Of_Bounds"
proof -
  have "getFdEvent (- 1) (sw_fd_group w) = Inl Out_Of_Bounds"
    using fd_group_lookup [of "sw_fd_group w" "- 1"] assms(1) by (simp add: server_ok_def Let_def)
  moreover obtain i g where "getIOThread (ts_io_thread_groups (sw_server w)) = Inr (i, g)"
    using getIOThread_round [of "ts_io_thread_groups (sw_server w)"] assms(1) by (auto simp: server_ok_def Let_def)
  moreover have "chk32 (ts_client_counts (sw_server w) + 1) = Inr (ts_client_counts (sw_server w) + 1)"
    using assms(2,3) by (intro chk32_in) simp_all
  ultimately show ?thesis
    using assms(4) by (simp add: onAccept_def TcpAcceptor_accept_def Let_def)
qed

lemma thread_created:
  assumes "io_reachable t" and "io_owner t = Owner_Has_Thread" and "io_thread_id t \<noteq> tid"
  shows "thread_ready tid t"
  using io_inv_owner [OF io_reachable_inv [OF assms(1)]] assms(2,3) by (auto simp: thread_ready_def)

lemma init_ok:
  assumes init: "TcpServer_init sys conf local_addr = Starts (w, main_eventloop)"
    and threads: "\<And>i. io_reachable (sb_new_thread sys i) \<and> io_owner (sb_new_thread sys i) = Owner_Has_Thread \<and>
      io_thread_id (sb_new_thread sys i) \<noteq> sb_tid sys"
    and table: "fd_group_ok (GetFdEventGroup (sb_fd_group sys))"
      "2 \<le> length (feg_events (GetFdEventGroup (sb_fd_group sys)))"
    and count: "0 < thread_count w" "int (thread_count w) \<le> INT_MAX"
  shows "server_ok (sb_tid sys) w \<and> ig_index (ts_io_thread_groups (sw_server w)) = 0 \<and>
    ts_client_counts (sw_server w) = 0 \<and> ts_client (sw_server w) = [] \<and> ts_local_addr (sw_server w) = local_addr"
proof -
  obtain g where a: "ac_family (ts_acceptor (sw_server w)) = AF_INET"
    and g: "IOThreadGroup_new (sb_new_thread sys) (sb_CPU_usage sys) (sb_sys_load sys) (cf_io_threads conf) = Inr g"
    and w: "ts_io_thread_groups (sw_server w) = g"
      "sw_fd_group w = GetFdEventGroup (sb_fd_group sys)" "ts_client_counts (sw_server w) = 0"
      "ts_client (sw_server w) = []" "ts_local_addr (sw_server w) = local_addr"
    using init by (auto simp: TcpServer_init_def bind_start_Starts lift_start_Starts TcpAcceptor_new_def
        getFamily_def Let_def split: if_splits option.splits)
  have "ig_index g = 0" "\<forall>t\<in>set (ig_io_thread_groups g). \<exists>i. t = sb_new_thread sys i"
    using g by (auto simp: IOThreadGroup_new_def bind_res_eq_Inr split: if_splits)
  with thread_created threads a w table count show ?thesis
    by (auto simp: server_ok_def Let_def thread_count_def)
qed

lemma accepts_run:
  assumes ok: "server_ok tid w" and start: "ig_index (ts_io_thread_groups (sw_server w)) = 0"
      "ts_client_counts (sw_server w) = 0" "ts_client (sw_server w) = []"
    and fds: "\<forall>a\<in>set accepts. 0 \<le> fst a \<and> fst a \<le> 1431655765" and few: "int (length accepts) \<le> INT_MAX"
  shows "\<exists>w'. fold_res (onAccept inet_ntoa tid) accepts w = Inr w' \<and> server_ok tid w' \<and>
    thread_count w' = thread_count w \<and> ts_local_addr (sw_server w') = ts_local_addr (sw_server w) \<and>
    nat (ig_index (ts_io_thread_groups (sw_server w'))) mod thread_count w = length accepts mod thread_count w \<and>
    ts_client_counts (sw_server w') = int (length accepts) \<and>
    map conn_view (ts_client (sw_server w')) = map (\<lambda>i. (fst (accepts ! i),
        Some (IPNetAddr_of_sockaddr inet_ntoa (snd (accepts ! i))), Some (ts_local_addr (sw_server w)), Connected,
        TcpConnectionByServer, i mod thread_count w)) [0..<length accepts] \<and>
    (\<forall>j<thread_count w. io_tasks w' j = io_tasks w j @ map (\<lambda>i. Some (Task_Add_Epoll (fst (accepts ! i))))
        (filter (\<lambda>i. i mod thread_count w = j) [0..<length accepts])) \<and>
    (\<forall>a\<in>set accepts. reads_fd (fst a) (sw_fd_group w'))"
  using fds few
proof (induction accepts rule: rev_induct)
  case Nil
  with ok start show ?case by simp
next
  case (snoc a accepts)
  let ?n = "thread_count w"
  obtain u where u: "fold_res (onAccept inet_ntoa tid) accepts w = Inr u" "server_ok tid u" "thread_count u = ?n"
    "ts_local_addr (sw_server u) = ts_local_addr (sw_server w)"
    "nat (ig_index (ts_io_thread_groups (sw_server u))) mod ?n = length accepts mod ?n"
    "ts_client_counts (sw_server u) = int (length accepts)"
    "map conn_view (ts_client (sw_server u)) = map (\<lambda>i. (fst (accepts ! i),
        Some (IPNetAddr_of_sockaddr inet_ntoa (snd (accepts ! i))), Some (ts_local_addr (sw_server w)), Connected,
        TcpConnectionByServer, i mod ?n)) [0..<length accepts]"
    "\<forall>j<?n. io_tasks u j = io_tasks w j @ map (\<lambda>i. Some (Task_Add_Epoll (fst (accepts ! i))))
        (filter (\<lambda>i. i mod ?n = j) [0..<length accepts])"
    "\<forall>a\<in>set accepts. reads_fd (fst a) (sw_fd_group u)"
    using snoc.IH snoc.prems by auto
  obtain v where v: "onAccept inet_ntoa tid a u = Inr v" "server_ok tid v" "accept_spec inet_ntoa a u v"
    using onAccept_one [OF u(2), of a] snoc.prems u(6) by auto
  note spec = v(3) [unfolded accept_spec_def Let_def u(3,5)]
  have before: "map (\<lambda>i. f ((accepts @ [a]) ! i) i) (filter P [0..<length accepts]) =
      map (\<lambda>i. f (accepts ! i) i) (filter P [0..<length accepts])" for f :: "accepted \<Rightarrow> nat \<Rightarrow> 'b" and P
    by (simp add: nth_append)
  have "fold_res (onAccept inet_ntoa tid) (accepts @ [a]) w = Inr v" using u(1) v(1) by (simp add: fold_res_append)
  moreover have "map conn_view (ts_client (sw_server v)) = map (\<lambda>i. (fst ((accepts @ [a]) ! i),
        Some (IPNetAddr_of_sockaddr inet_ntoa (snd ((accepts @ [a]) ! i))), Some (ts_local_addr (sw_server w)), Connected,
        TcpConnectionByServer, i mod ?n)) [0..<length (accepts @ [a])]"
    using spec u(4,7) by (simp add: nth_append)
  moreover have "\<forall>j<?n. io_tasks v j = io_tasks w j @ map (\<lambda>i. Some (Task_Add_Epoll (fst ((accepts @ [a]) ! i))))
        (filter (\<lambda>i. i mod ?n = j) [0..<length (accepts @ [a])])"
    using spec u(8) by (simp add: nth_append)
  moreover have "\<forall>b\<in>set (accepts @ [a]). reads_fd (fst b) (sw_fd_group v)"
    using spec u(9) snoc.prems(1) by auto
  ultimately show ?case using spec u(3,4,6) v(2) by (simp add: mod_Suc_eq)
qed

text \<open>C33. A server whose IO threads are constructed, and whose address is one the acceptor can listen on, gives the connections it accepts
  to the event loops of its threads in turn: the \<open>i\<close>-th connection goes to thread \<open>i mod n\<close>, is
  connected at once, knows both addresses, and its registration for input is queued in that
  thread's loop, in the order of the calls; every accepted descriptor is counted.  A failed
  \<open>accept\<close> is not told from a connection: it is counted, takes its turn, and its descriptor \<open>-1\<close>
  reads before the start of the table of descriptors.\<close>

theorem server_accepts:
  fixes inet_ntoa :: "32 word \<Rightarrow> string" and accepts :: "accepted list"
  assumes init: "TcpServer_init sys conf local_addr = Starts (w :: 'd server_world, main_eventloop)"
    and threads: "\<And>i. io_reachable (sb_new_thread sys i) \<and> io_owner (sb_new_thread sys i) = Owner_Has_Thread \<and>
      io_thread_id (sb_new_thread sys i) \<noteq> sb_tid sys"
    and table: "fd_group_ok (GetFdEventGroup (sb_fd_group sys))"
      "2 \<le> length (feg_events (GetFdEventGroup (sb_fd_group sys)))"
    and count: "n = thread_count w" "0 < n" "int n \<le> INT_MAX"
    and fds: "\<forall>a\<in>set accepts. 0 \<le> fst a \<and> fst a \<le> 1431655765" "int (length accepts) < INT_MAX"
  shows "\<exists>w'. fold_res (onAccept inet_ntoa (sb_tid sys)) accepts w = Inr w' \<and>
    ts_client_counts (sw_server w') = int (length accepts) \<and>
    map conn_view (ts_client (sw_server w')) = map (\<lambda>i. (fst (accepts ! i),
        Some (IPNetAddr_of_sockaddr inet_ntoa (snd (accepts ! i))), Some local_addr, Connected,
        TcpConnectionByServer, i mod n)) [0..<length accepts] \<and>
    (\<forall>j<n. io_tasks w' j = io_tasks w j @ map (\<lambda>i. Some (Task_Add_Epoll (fst (accepts ! i))))
        (filter (\<lambda>i. i mod n = j) [0..<length accepts])) \<and>
    (\<forall>a\<in>set accepts. reads_fd (fst a) (sw_fd_group w')) \<and>
    onAccept inet_ntoa (sb_tid sys) (- 1, addr) w' = Inl Out_Of_Bounds"
proof -
  note w = init_ok [OF init threads table count(2,3) [unfolded count(1)]]
  obtain w' where w': "fold_res (onAccept inet_ntoa (sb_tid sys)) accepts w = Inr w'" "server_ok (sb_tid sys) w'"
    "ts_client_counts (sw_server w') = int (length accepts)"
    "map conn_view (ts_client (sw_server w')) = map (\<lambda>i. (fst (accepts ! i),
        Some (IPNetAddr_of_sockaddr inet_ntoa (snd (accepts ! i))), Some local_addr, Connected,
        TcpConnectionByServer, i mod n)) [0..<length accepts]"
    "\<forall>j<n. io_tasks w' j = io_tasks w j @ map (\<lambda>i. Some (Task_Add_Epoll (fst (accepts ! i))))
        (filter (\<lambda>i. i mod n = j) [0..<length accepts])"
    "\<forall>a\<in>set accepts. reads_fd (fst a) (sw_fd_group w')"
    using accepts_run [of "sb_tid sys" w accepts inet_ntoa] w fds count(1) by auto
  have "onAccept inet_ntoa (sb_tid sys) (- 1, addr) w' = Inl Out_Of_Bounds"
    by (rule onAccept_failed [OF w'(2)]) (use w'(3) fds(2) in simp_all)
  with w' show ?thesis by blast
qed

theorem server_accepts_witness:
  "\<exists>(w :: unit server_world) w'. fold_res (onAccept (\<lambda>_. ''10.0.0.1'') 1)
      [(5, \<lparr>sin_family = 2, sin_addr = 1, sin_port = 0\<rparr>), (6, \<lparr>sin_family = 2, sin_addr = 1, sin_port = 0\<rparr>),
       (7, \<lparr>sin_family = 2, sin_addr = 1, sin_port = 0\<rparr>)] w = Inr w' \<and>
     map (\<lambda>c. (tc_fd (sc_conn c), sc_thread c)) (ts_client (sw_server w')) = [(5, 0), (6, 1), (7, 0)] \<and>
     io_tasks w' 0 = io_tasks w 0 @ [Some (Task_Add_Epoll 5), Some (Task_Add_Epoll 7)]"
proof -
  obtain t where t: "io_reachable t" "io_owner t = Owner_Has_Thread" "io_thread_id t = 2"
    using io_created_example by blast
  define sys where "sys = \<lparr>sb_inet_addr = (\<lambda>_. 1), sb_listenfd = 3, sb_bind = 0, sb_listen = 0,
    sb_current_loop = None, sb_tid = 1, sb_epoll_fd = 4, sb_wakeup_fd = 8, sb_timer_fd = 9,
    sb_new_thread = (\<lambda>_. t), sb_CPU_usage = 50, sb_sys_load = 0, sb_clock = (\<lambda>_. 0), sb_timer_event = 0,
    sb_fd_group = None\<rparr>"
  define a where "a = (\<lparr>sin_family = 2, sin_addr = 1, sin_port = 0\<rparr> :: sockaddr_in)"
  define local_addr where "local_addr = \<lparr>m_ip = ''10.0.0.2'', m_port = 80, m_addr = None\<rparr>"
  obtain w :: "unit server_world" and m where w:
    "TcpServer_init sys (config_new\<lparr>cf_io_threads := 2\<rparr>) local_addr = Starts (w, m)" "thread_count w = 2"
    by (simp add: TcpServer_init_def sys_def local_addr_def TcpAcceptor_new_def IPNetAddr_checkValid_def
        GetCurrentEventLoop_def EventLoop_new_def initWakeUpFdEvent_def IOThreadGroup_new_def group_size_def
        config_new_def chk32_in thread_count_def Let_def)
  have table: "fd_group_ok (GetFdEventGroup (sb_fd_group sys))" "2 \<le> length (feg_events (GetFdEventGroup (sb_fd_group sys)))"
    using fd_group_ok_new [of 128] by (simp_all add: sys_def GetFdEventGroup_def fd_event_group_new_def)
  have threads: "io_reachable (sb_new_thread sys i) \<and> io_owner (sb_new_thread sys i) = Owner_Has_Thread \<and>
      io_thread_id (sb_new_thread sys i) \<noteq> sb_tid sys" for i
    using t by (simp add: sys_def)
  let ?as = "[(5, a), (6, a), (7, a)]"
  let ?peer = "Some (IPNetAddr_of_sockaddr (\<lambda>_. ''10.0.0.1'') a)"
  obtain w' where w': "fold_res (onAccept (\<lambda>_. ''10.0.0.1'') 1) ?as w = Inr w'"
    "map conn_view (ts_client (sw_server w')) = [(5, ?peer, Some local_addr, Connected, TcpConnectionByServer, 0),
       (6, ?peer, Some local_addr, Connected, TcpConnectionByServer, 1),
       (7, ?peer, Some local_addr, Connected, TcpConnectionByServer, 0)]"
    "io_tasks w' 0 = io_tasks w 0 @ [Some (Task_Add_Epoll 5), Some (Task_Add_Epoll 7)]"
    using server_accepts [OF w(1) threads table w(2) [symmetric], of ?as "\<lambda>_. ''10.0.0.1''" undefined]
    by (auto simp: sys_def)
  have "map (\<lambda>c. (tc_fd (sc_conn c), sc_thread c)) (ts_client (sw_server w')) =
      map (\<lambda>(fd, p, l, s, k, i). (fd, i)) (map conn_view (ts_client (sw_server w')))"
    by (simp add: conn_view_def)
  also have "\<dots> = [(5, 0), (6, 1), (7, 0)]" by (simp add: w'(2))
  finally have views: "map (\<lambda>c. (tc_fd (sc_conn c), sc_thread c)) (ts_client (sw_server w')) = [(5, 0), (6, 1), (7, 0)]" .
  show ?thesis
    by (rule exI [of _ w], rule exI [of _ w'], intro conjI) (fact w'(1) [unfolded a_def], fact views, fact w'(3))
qed

section \<open>Serving\<close>

text \<open>A connection waiting at the listening descriptor is accepted in the turn after the one that
  \<open>epoll_wait\<close> reports it in, with the IO threads started before.\<close>

theorem server_loop_accepts:
  assumes "\<not> el_quit (lw_loop w)" and "el_pending_tasks (lw_loop w) = []"
    and "lw_events w fd = fd_listen IN_EVENT (Some TcpServer_onAccept) None (fd_event_new fd)"
    and "lw_rest w = \<lparr>sr_world = Inr u, sr_accepted = a # rest\<rparr>"
  shows "lw_rest (TcpServer_start inet_ntoa clock tid [Some [(Some fd, EPOLLIN)], None] w) =
    \<lparr>sr_world = onAccept inet_ntoa tid a (u\<lparr>sw_server := (sw_server u)\<lparr>ts_io_thread_groups :=
        IOThreadGroup_start (ts_io_thread_groups (sw_server u))\<rparr>\<rparr>), sr_accepted = rest\<rparr>"
  using assms by (simp add: TcpServer_start_def EventLoop_loop_def run_pending_def with_loop_def handle_ready_def
      addTask_def push_task_def server_call_def Let_def)

lemma clear_keeps: "set (ts_client (ClearClientTimerFunc s)) = {c \<in> set (ts_client s). tc_state (sc_conn c) \<noteq> Closed}"
  by (simp add: ClearClientTimerFunc_def)

end
