(* ===== verification/Zk_Client.thy ===== *)
theory Zk_Client
  imports Rpc_Dispatcher Config
begin

text \<open>
  \<open>common/zookeeperutil.h\<close> and \<open>common/zookeeperuitl.cc\<close>: the registry of services.  The ZooKeeper
  client library is an argument: its constants, and its calls acting on the state of the service.
  \<open>Start\<close> waits for the library's watcher thread, so it is a run of events: the next statement of
  \<open>Start\<close>, or a call of \<open>global_watcher\<close>.
\<close>

section \<open>The library\<close>

record 'z zookeeper =
  zk_ZOK :: int
  zk_ZNONODE :: int
  zk_SESSION_EVENT :: int
  zk_CONNECTED_STATE :: int
  zk_exists :: "string \<Rightarrow> 'z \<Rightarrow> int \<times> 'z"
  zk_create :: "string \<Rightarrow> char list option \<Rightarrow> int \<Rightarrow> 'z \<Rightarrow> int \<times> 'z"   \<comment> \<open>path, data, flags\<close>
  zk_get :: "string \<Rightarrow> int \<Rightarrow> 'z \<Rightarrow> int \<times> char list \<times> 'z"
    \<comment> \<open>for a buffer of that length: the result and the bytes it writes at the start of the buffer\<close>

section \<open>Connecting\<close>

datatype zk_pc =
    Zk_Inited       \<comment> \<open>\<open>zookeeper_init\<close> has returned a handle\<close>
  | Zk_Waits        \<comment> \<open>the context is set\<close>
  | Zk_Returned

record zk_session =
  zs_pc :: zk_pc
  zs_context :: bool      \<comment> \<open>the context of the handle is the address of \<open>sem\<close>; it starts as \<open>nullptr\<close>\<close>
  zs_sem :: nat

datatype zk_fault =
    Zk_Null_Semaphore     \<comment> \<open>\<open>sem_post(nullptr)\<close>\<close>
  | Zk_Dead_Semaphore     \<comment> \<open>\<open>sem_post\<close> on the local variable of a call that has returned\<close>

datatype zk_event = Zk_Main | Zk_Watch int int      \<comment> \<open>type and state\<close>

definition ZkClient_connstr :: "config \<Rightarrow> string" where
  "ZkClient_connstr conf = cf_zk_ip conf @ '':'' @ cf_zk_port conf"

definition zk_session_new :: "bool \<Rightarrow> zk_session start" where
  \<comment> \<open>whether \<open>zookeeper_init\<close> returned a handle\<close>
  "zk_session_new handle =
     (if handle then Starts \<lparr>zs_pc = Zk_Inited, zs_context = False, zs_sem = 0\<rparr> else Exits ''zookeeper_init error!'')"

definition global_watcher :: "'z zookeeper \<Rightarrow> int \<Rightarrow> int \<Rightarrow> zk_session \<Rightarrow> zk_fault + zk_session" where
  "global_watcher zk type state s =
     (if type = zk_SESSION_EVENT zk
      then if state = zk_CONNECTED_STATE zk
           then if \<not> zs_context s then Inl Zk_Null_Semaphore
                else if zs_pc s = Zk_Returned then Inl Zk_Dead_Semaphore
                else Inr (s\<lparr>zs_sem := zs_sem s + 1\<rparr>)
           else Inr s
      else Inr s)"

definition ZkClient_Start_step :: "zk_session \<Rightarrow> zk_session" where
  "ZkClient_Start_step s = (case zs_pc s of
       Zk_Inited \<Rightarrow> s\<lparr>zs_context := True, zs_pc := Zk_Waits\<rparr>
     | Zk_Waits \<Rightarrow> (if zs_sem s = 0 then s else s\<lparr>zs_sem := zs_sem s - 1, zs_pc := Zk_Returned\<rparr>)
     | Zk_Returned \<Rightarrow> s)"

fun zk_run :: "'z zookeeper \<Rightarrow> zk_event list \<Rightarrow> zk_session \<Rightarrow> zk_fault + zk_session" where
  "zk_run zk [] s = Inr s"
| "zk_run zk (Zk_Main # es) s = zk_run zk es (ZkClient_Start_step s)"
| "zk_run zk (Zk_Watch type state # es) s =
     (case global_watcher zk type state s of Inl e \<Rightarrow> Inl e | Inr s \<Rightarrow> zk_run zk es s)"

section \<open>Nodes\<close>

definition ZkClient_Create ::
  "'z zookeeper \<Rightarrow> string \<Rightarrow> char list option \<Rightarrow> int \<Rightarrow> 'z \<Rightarrow> 'z start" where
  "ZkClient_Create zk path data state z =
     (let (flag, z) = zk_exists zk path z in
      if zk_ZNONODE zk = flag
      then let (flag, z) = zk_create zk path data state z in
           if flag = zk_ZOK zk then Starts z else Exits (''znode create error... path:'' @ path)
      else Starts z)"

definition GetData :: "'z zookeeper \<Rightarrow> char list \<Rightarrow> string \<Rightarrow> 'z \<Rightarrow> string res \<times> 'z" where
  \<comment> \<open>\<open>stack\<close> is what \<open>char buffer[64]\<close> holds before the call\<close>
  "GetData zk stack path z =
     (let (flag, bs, z) = zk_get zk path (int (length stack)) z in
      if flag \<noteq> zk_ZOK zk then (Inr [], z) else (c_string (bs @ drop (length bs) stack), z))"

section \<open>The registration carried out\<close>

fun zk_do :: "'z zookeeper \<Rightarrow> int \<Rightarrow> zk_call \<Rightarrow> 'z \<Rightarrow> 'z start" where
  \<comment> \<open>a call of \<open>registerService\<close>; the session is taken to be connected, \<open>ephemeral\<close> is \<open>ZOO_EPHEMERAL\<close>\<close>
  "zk_do zk ephemeral Zk_Start z = Starts z"
| "zk_do zk ephemeral (Zk_Create path data e) z = ZkClient_Create zk path data (if e then ephemeral else 0) z"

primrec zk_do_all :: "'z zookeeper \<Rightarrow> int \<Rightarrow> zk_call list \<Rightarrow> 'z \<Rightarrow> 'z start" where
  "zk_do_all zk ephemeral [] z = Starts z"
| "zk_do_all zk ephemeral (c # cs) z = bind_start (zk_do zk ephemeral c z) (zk_do_all zk ephemeral cs)"

section \<open>Properties\<close>

definition zk_connected :: "'z zookeeper \<Rightarrow> zk_event" where
  "zk_connected zk = Zk_Watch (zk_SESSION_EVENT zk) (zk_CONNECTED_STATE zk)"

lemma zk_run_append:
  "zk_run zk (es @ fs) s = (case zk_run zk es s of Inl e \<Rightarrow> Inl e | Inr s \<Rightarrow> zk_run zk fs s)"
  by (induction zk es s rule: zk_run.induct) (auto split: sum.split)

lemma zk_quiet_inited:
  assumes "zs_pc s = Zk_Inited" and "zk_connected zk \<notin> set es"
  shows "zk_run zk es s = (if Zk_Main \<in> set es
     then zk_run zk (tl (dropWhile (\<lambda>e. e \<noteq> Zk_Main) es)) (s\<lparr>zs_context := True, zs_pc := Zk_Waits\<rparr>) else Inr s)"
  using assms by (induction zk es s rule: zk_run.induct)
    (auto simp: ZkClient_Start_step_def global_watcher_def zk_connected_def)

lemma zk_quiet_returned: "zs_pc s = Zk_Returned \<Longrightarrow> zk_connected zk \<notin> set es \<Longrightarrow> zk_run zk es s = Inr s"
  by (induction zk es s rule: zk_run.induct)
    (auto simp: ZkClient_Start_step_def global_watcher_def zk_connected_def)

lemma zk_quiet_waits:
  assumes "zs_pc s = Zk_Waits" and "zk_connected zk \<notin> set es"
  shows "zs_sem s = 0 \<Longrightarrow> zk_run zk es s = Inr s"
    and "zs_sem s = 1 \<Longrightarrow> zk_run zk es s = Inr (if Zk_Main \<in> set es then s\<lparr>zs_sem := 0, zs_pc := Zk_Returned\<rparr> else s)"
proof -
  show "zs_sem s = 0 \<Longrightarrow> zk_run zk es s = Inr s" using assms
    by (induction zk es s rule: zk_run.induct)
      (auto simp: ZkClient_Start_step_def global_watcher_def zk_connected_def)
  show "zs_sem s = 1 \<Longrightarrow> zk_run zk es s = Inr (if Zk_Main \<in> set es then s\<lparr>zs_sem := 0, zs_pc := Zk_Returned\<rparr> else s)"
    using assms
    by (induction zk es s rule: zk_run.induct)
      (auto simp: ZkClient_Start_step_def global_watcher_def zk_connected_def zk_quiet_returned [unfolded zk_connected_def])
qed

text \<open>C39. \<open>Start\<close> returns after the first time the session is connected, if that happens once the
  context is set.  If the session connects before, the watcher posts to a null semaphore; if it is
  connected again after \<open>Start\<close> has returned, as after a lost connection, the watcher posts to a
  local variable of the call that is gone.\<close>

theorem zk_start_once:
  assumes "zk_session_new True = Starts s"
    and "zk_connected zk \<notin> set es" "zk_connected zk \<notin> set fs" "zk_connected zk \<notin> set gs"
  shows "(Zk_Main \<in> set es \<and> Zk_Main \<in> set fs \<longrightarrow>
            (\<exists>t. zk_run zk (es @ zk_connected zk # fs) s = Inr t \<and> zs_pc t = Zk_Returned)) \<and>
    (Zk_Main \<notin> set es \<longrightarrow> zk_run zk (es @ zk_connected zk # fs) s = Inl Zk_Null_Semaphore) \<and>
    (Zk_Main \<in> set es \<and> Zk_Main \<in> set fs \<longrightarrow>
       zk_run zk (es @ zk_connected zk # fs @ zk_connected zk # gs) s = Inl Zk_Dead_Semaphore)"
proof -
  have s: "s = \<lparr>zs_pc = Zk_Inited, zs_context = False, zs_sem = 0\<rparr>" using assms(1) by (simp add: zk_session_new_def)
  define w where "w = \<lparr>zs_pc = Zk_Waits, zs_context = True, zs_sem = 0\<rparr>"
  have tl: "zk_connected zk \<notin> set (tl (dropWhile (\<lambda>e. e \<noteq> Zk_Main) es))"
  proof -
    have "set (tl xs) \<subseteq> set xs" for xs :: "zk_event list" by (cases xs) auto
    then show ?thesis using assms(2) set_dropWhileD by fast
  qed
  have es: "zk_run zk es s = (if Zk_Main \<in> set es then Inr w else Inr s)"
    using zk_quiet_inited [of s zk es] zk_quiet_waits(1) [of w zk, OF _ tl] assms(2) by (simp add: s w_def)
  have fs: "zk_run zk (zk_connected zk # fs) w = Inr (if Zk_Main \<in> set fs then w\<lparr>zs_pc := Zk_Returned\<rparr> else w\<lparr>zs_sem := 1\<rparr>)"
    using zk_quiet_waits(2) [of "w\<lparr>zs_sem := 1\<rparr>" zk fs] assms(3)
    by (simp add: zk_connected_def global_watcher_def w_def)
  have "zk_run zk (es @ zk_connected zk # fs) s = Inl Zk_Null_Semaphore" if "Zk_Main \<notin> set es"
    using that es by (simp add: zk_run_append zk_connected_def global_watcher_def s)
  moreover have ret: "zk_run zk (es @ zk_connected zk # fs) s = Inr (w\<lparr>zs_pc := Zk_Returned\<rparr>)"
    if "Zk_Main \<in> set es" "Zk_Main \<in> set fs"
    using that es fs by (simp add: zk_run_append)
  moreover have "zk_run zk ((es @ zk_connected zk # fs) @ zk_connected zk # gs) s = Inl Zk_Dead_Semaphore"
    if "Zk_Main \<in> set es" "Zk_Main \<in> set fs"
    unfolding zk_run_append [of _ "es @ zk_connected zk # fs"] ret [OF that]
    by (simp add: zk_connected_def global_watcher_def w_def)
  ultimately show ?thesis by simp
qed

theorem zk_start_once_witness:
  "\<exists>zk :: unit zookeeper. \<exists>s. zk_session_new True = Starts s \<and>
     zk_run zk [Zk_Main, Zk_Watch (- 1) 3, Zk_Main, Zk_Watch (- 1) 1, Zk_Watch (- 1) 3] s = Inl Zk_Dead_Semaphore"
proof -
  define zk :: "unit zookeeper" where "zk = \<lparr>zk_ZOK = 0, zk_ZNONODE = - 101, zk_SESSION_EVENT = - 1,
    zk_CONNECTED_STATE = 3, zk_exists = (\<lambda>p z. (0, z)), zk_create = (\<lambda>p d f z. (0, z)), zk_get = (\<lambda>p n z. (0, [], z))\<rparr>"
  obtain s where s: "zk_session_new True = Starts s" by (simp add: zk_session_new_def)
  have c: "zk_connected zk = Zk_Watch (- 1) 3" by (simp add: zk_connected_def zk_def)
  show ?thesis
    using zk_start_once [OF s, of zk "[Zk_Main]" "[Zk_Main, Zk_Watch (- 1) 1]" "[]"] s
    by (intro exI [of _ zk] exI [of _ s]) (simp add: c)
qed

lemma method_path_data_no_NUL: "method_path_data ip port = Inr d \<Longrightarrow> NUL \<notin> set ip \<Longrightarrow> NUL \<notin> set d"
  using dec_digits [of NUL] by (auto simp: method_path_data_def to_string_def is_digit_def Let_def split: if_splits)

text \<open>C40. What \<open>registerService\<close> stores in a node is not what \<open>GetData\<close> returns for it: the address is
  stored without its terminating NUL and read into an array that is not initialised, so after the
  address come the bytes the stack happened to hold up to a NUL, and if there is none the read runs
  out of the array.  The address comes back only if the byte after it happened to be NUL.\<close>

theorem zk_node_read:
  assumes data: "method_path_data ip port = Inr d" "NUL \<notin> set ip" "length d < 64"
    and exists: "zk_exists zk path z = (zk_ZNONODE zk, z1)"
    and create: "zk_create zk path (Some d) flags z1 = (zk_ZOK zk, z2)"
    and get: "zk_get zk path 64 z2 = (zk_ZOK zk, take 64 d, z3)"
    and stack: "length stack = 64"
  shows "ZkClient_Create zk path (Some d) flags z = Starts z2 \<and>
    fst (GetData zk stack path z2) =
      (if NUL \<in> set (drop (length d) stack) then Inr (d @ takeWhile (\<lambda>c. c \<noteq> NUL) (drop (length d) stack))
       else Inl Out_Of_Bounds) \<and>
    (fst (GetData zk stack path z2) = Inr d \<longleftrightarrow> stack ! length d = NUL)"
proof -
  have d: "NUL \<notin> set d" by (rule method_path_data_no_NUL [OF data(1,2)])
  have rest: "drop (length d) stack = stack ! length d # drop (Suc (length d)) stack"
    using data(3) stack by (simp add: Cons_nth_drop_Suc)
  have cut: "takeWhile (\<lambda>c. c \<noteq> NUL) (d @ bs) = d @ takeWhile (\<lambda>c. c \<noteq> NUL) bs" for bs
    using d by (intro takeWhile_append2) auto
  have read: "fst (GetData zk stack path z2) =
      (if NUL \<in> set (drop (length d) stack) then Inr (d @ takeWhile (\<lambda>c. c \<noteq> NUL) (drop (length d) stack))
       else Inl Out_Of_Bounds)"
    using get stack data(3) cut by (simp add: GetData_def c_string_def d)
  moreover have "ZkClient_Create zk path (Some d) flags z = Starts z2"
    using exists create by (simp add: ZkClient_Create_def)
  ultimately show ?thesis using rest by auto
qed

theorem zk_node_read_witness:
  "\<exists>(zk :: char list option zookeeper) d z. method_path_data ''127.0.0.1'' 80 = Inr d \<and>
     ZkClient_Create zk ''/Order/make_order'' (Some d) 1 None = Starts z \<and>
     fst (GetData zk (replicate 64 CHR ''x'') ''/Order/make_order'' z) = Inl Out_Of_Bounds \<and>
     fst (GetData zk (replicate 64 NUL) ''/Order/make_order'' z) = Inr d"
proof -
  define zk :: "char list option zookeeper" where "zk = \<lparr>zk_ZOK = 0, zk_ZNONODE = - 101, zk_SESSION_EVENT = - 1,
    zk_CONNECTED_STATE = 3, zk_exists = (\<lambda>p z. (if z = None then - 101 else 0, z)),
    zk_create = (\<lambda>p d f z. (0, d)), zk_get = (\<lambda>p n z. (0, take (nat n) (the z), z))\<rparr>"
  obtain d where d: "method_path_data ''127.0.0.1'' 80 = Inr d" "length d = 12"
    by (simp add: method_path_data_def to_string_def dec.simps)
  have ops: "zk_exists zk p None = (zk_ZNONODE zk, None)" "zk_create zk p (Some d) 1 None = (zk_ZOK zk, Some d)"
    "zk_get zk p 64 (Some d) = (zk_ZOK zk, take 64 d, Some d)" for p
    by (simp_all add: zk_def)
  note read = zk_node_read [OF d(1) _ _ ops(1) ops(2) ops(3), of _ "''/Order/make_order''"]
  show ?thesis
    using read [of "replicate 64 CHR ''x''"] read [of "replicate 64 NUL"] d
    by (intro exI [of _ zk] exI [of _ d] exI [of _ "Some d"]) simp
qed

end
