(* ===== verification/Conn_Types.thy ===== *)
theory Conn_Types
  imports Rpc_Call
begin

text \<open>
  The type of a connection (\<open>net/tcp/tcp_connection.{h,cc}\<close>): what its members satisfy from its
  construction on, whatever bytes arrive, whatever the socket answers and in whatever order its member
  functions are called, as long as the calls return: a call that faults or never ends leaves no
  connection to speak of (\<open>decode_split_header\<close> and its neighbours in \<open>TinyPB_Coder\<close> say when the
  decoder does).  The returning calls are the step relation \<open>conn_step\<close>; each member function has a
  preservation lemma in \<open>keeps\<close>, and the property is an induction over the calls made.  The callbacks of
  a client are arguments of these functions; those of \<open>net/rpc/rpc_channel.cc\<close> are shown to be typed.
\<close>

section \<open>The type\<close>

text \<open>\<open>conn_typed n fd la pa ev w\<close>: a connection made for buffers of \<open>n\<close> bytes on \<open>fd\<close>, whose \<open>FdEvent\<close> was
  \<open>ev\<close> when it was made.  An event that is asked for has a callback, which is the connection's own or
  its client's \<open>onConnect\<close> or the one \<open>ev\<close> came with: no null \<open>std::function\<close> is called.\<close>

definition event_typed :: "int \<Rightarrow> fd_event \<Rightarrow> fd_event \<Rightarrow> bool" where
  "event_typed fd ev e \<longleftrightarrow> fe_fd e = fd \<and>
     fd_handler IN_EVENT e \<in> {fd_handler IN_EVENT ev, Some (TcpConnection_onRead fd)} \<and>
     fd_handler OUT_EVENT e \<in> {fd_handler OUT_EVENT ev, Some (TcpConnection_onWrite fd), Some (TcpClient_onConnect fd)} \<and>
     (wants_in e \<longrightarrow> fd_handler IN_EVENT e \<noteq> None) \<and> (wants_out e \<longrightarrow> fd_handler OUT_EVENT e \<noteq> None)"

definition conn_typed ::
  "int \<Rightarrow> int \<Rightarrow> ip_net_addr option \<Rightarrow> ip_net_addr option \<Rightarrow> fd_event \<Rightarrow> ('d, 'k) conn_world \<Rightarrow> bool" where
  "conn_typed n fd la pa ev w \<longleftrightarrow>
     buf_of n (tc_in_buffer (cw_conn w)) \<and> buf_of n (tc_out_buffer (cw_conn w)) \<and>
     tc_fd (cw_conn w) = fd \<and> tc_local_addr (cw_conn w) = la \<and> tc_peer_addr (cw_conn w) = pa \<and>
     smap_ok (tc_read_dones (cw_conn w)) \<and> event_typed fd ev (cw_fd_event w)"

text \<open>The calls that return without a fault.  The rule \<open>step_connecting\<close> is what \<open>TcpClient::connect\<close> does
  to the connection while the peer has not answered; the last rule is what happens elsewhere: other
  threads, the event loop, the peer.\<close>

inductive conn_step ::
  "'k sys_read \<Rightarrow> 'k sys_write \<Rightarrow> ('k \<Rightarrow> 'k) \<Rightarrow> ('d, 'k) sys_run \<Rightarrow> ('q, 'r) service_map \<Rightarrow>
   ('d, 'k) conn_world \<Rightarrow> ('d, 'k) conn_world \<Rightarrow> bool"
  for sr sw sd run services where
  step_read: "onRead sr run services w = Some (Inr w') \<Longrightarrow> conn_step sr sw sd run services w w'"
| step_write: "onWrite sw run w = Some (Inr w') \<Longrightarrow> conn_step sr sw sd run services w w'"
| step_excute: "excute run services w = Some (Inr w') \<Longrightarrow> conn_step sr sw sd run services w w'"
| step_reply: "TcpConnection_reply ms w = Inr (ms', w') \<Longrightarrow> conn_step sr sw sd run services w w'"
| step_listen_read: "conn_step sr sw sd run services w (listenRead w)"
| step_listen_write: "conn_step sr sw sd run services w (listenWrite w)"
| step_clear: "conn_step sr sw sd run services w (TcpConnection_clear w)"
| step_shutdown: "conn_step sr sw sd run services w (TcpConnection_shutdown sd w)"
| step_set_state: "conn_step sr sw sd run services w (setState s w)"
| step_set_type: "conn_step sr sw sd run services w (setConnectionType t w)"
| step_push_send: "conn_step sr sw sd run services w (pushSendMessage m d w)"
| step_push_read: "conn_step sr sw sd run services w (pushReadMessage i d w)"
| step_connecting: "conn_step sr sw sd run services w (update_epoll (w\<lparr>cw_fd_event :=
     fd_listen OUT_EVENT (Some (TcpClient_onConnect (tc_fd (cw_conn w)))) None (cw_fd_event w)\<rparr>))"
| step_elsewhere: "conn_step sr sw sd run services w
     (w\<lparr>cw_tid := tid, cw_loop := l, cw_run_time := rt, cw_sock := k\<rparr>)"

section \<open>Preservation\<close>

lemma event_typed_listen [simp]:
  assumes "event_typed fd ev e"
  shows "event_typed fd ev (fd_listen OUT_EVENT (Some (TcpConnection_onWrite fd)) ecb e)"
    and "event_typed fd ev (fd_listen OUT_EVENT (Some (TcpClient_onConnect fd)) ecb e)"
    and "event_typed fd ev (fd_listen IN_EVENT (Some (TcpConnection_onRead fd)) ecb e)"
  using assms by (auto simp: event_typed_def)

lemma event_typed_cancle [simp]: "event_typed fd ev e \<Longrightarrow> event_typed fd ev (fd_cancle t e)"
  by (auto simp: event_typed_def)

lemma typed_members:
  assumes "conn_typed n fd la pa ev w"
  shows "buf_of n b \<Longrightarrow> conn_typed n fd la pa ev (with_conn (tc_in_buffer_update (\<lambda>_. b)) w)"
    and "buf_of n b \<Longrightarrow> conn_typed n fd la pa ev (with_conn (tc_out_buffer_update (\<lambda>_. b)) w)"
    and "conn_typed n fd la pa ev (with_conn (tc_write_dones_update f) w)"
    and "conn_typed n fd la pa ev (with_conn (tc_read_dones_update (smap_erase i)) w)"
    and "conn_typed n fd la pa ev (w\<lparr>cw_sock := k\<rparr>)" and "conn_typed n fd la pa ev (w\<lparr>cw_run_time := rt\<rparr>)"
    and "conn_typed n fd la pa ev (update_epoll (w\<lparr>cw_fd_event := fd_cancle t (cw_fd_event w)\<rparr>))"
    and "buf_of n (tc_in_buffer (cw_conn w))" and "buf_of n (tc_out_buffer (cw_conn w))"
  using assms by (simp_all add: conn_typed_def update_epoll_def smap_ok_erase)

lemma simple_keeps [keeps]:
  assumes "conn_typed n fd la pa ev w"
  shows "conn_typed n fd la pa ev (listenRead w)" and "conn_typed n fd la pa ev (listenWrite w)"
    and "conn_typed n fd la pa ev (TcpConnection_clear w)"
    and "conn_typed n fd la pa ev (TcpConnection_shutdown sd w)"
    and "conn_typed n fd la pa ev (setState s w)" and "conn_typed n fd la pa ev (setConnectionType t w)"
    and "conn_typed n fd la pa ev (pushSendMessage m d w)"
    and "conn_typed n fd la pa ev (pushReadMessage i d w)"
    and "conn_typed n fd la pa ev (update_epoll (w\<lparr>cw_fd_event :=
      fd_listen OUT_EVENT (Some (TcpClient_onConnect (tc_fd (cw_conn w)))) None (cw_fd_event w)\<rparr>))"
  using assms
  by (simp_all add: conn_typed_def listenRead_def listenWrite_def update_epoll_def Let_def
      TcpConnection_clear_def TcpConnection_shutdown_def setState_def setConnectionType_def
      pushSendMessage_def pushReadMessage_def smap_ok_insert)

lemma reply_keeps [keeps]:
  assumes "TcpConnection_reply ms w = Inr (ms', w')" and "conn_typed n fd la pa ev w"
  shows "conn_typed n fd la pa ev w'"
proof -
  obtain b where b: "TinyPBCoder_encode ms (tc_out_buffer (cw_conn w)) = Inr (ms', b)"
    "w' = listenWrite (with_conn (tc_out_buffer_update (\<lambda>_. b)) w)"
    using assms(1) by (auto simp: TcpConnection_reply_def bind_res_eq_Inr)
  have "buf_of n b" using encode_keeps [OF b(1) typed_members(9) [OF assms(2)]] .
  with assms(2) show ?thesis unfolding b(2) by (intro simple_keeps typed_members)
qed

lemma serve_one_keeps [keeps]:
  assumes "serve_one services req (acc, w) = Inr (acc', w')" and "conn_typed n fd la pa ev w"
  shows "conn_typed n fd la pa ev w'"
proof -
  obtain rsp u rt where u: "dispatch TcpConnection_reply (tc_local_addr (cw_conn w)) (tc_peer_addr (cw_conn w))
      services req tinypb_new (w, cw_run_time w) = Inr (rsp, u, rt)" "w' = u\<lparr>cw_run_time := rt\<rparr>"
    using assms(1) by (auto simp: serve_one_def bind_res_eq_Inr)
  have "conn_typed n fd la pa ev u"
    by (rule dispatch_preserves [OF u(1), of "conn_typed n fd la pa ev"]) (use assms(2) in \<open>auto intro: reply_keeps\<close>)
  then show ?thesis unfolding u(2) by (intro typed_members)
qed

section \<open>The handlers\<close>

lemma read_loop_keeps [keeps]:
  assumes "read_loop sr b k = Some (Inr (all, close, b', k'))" and "buf_of n b"
  shows "buf_of n b'"
proof (rule read_loop_invariant [where P = "\<lambda>b k. buf_of n b", OF assms])
  fix b c :: tcp_buffer
  assume b: "buf_of n b" and c: "resizeBuffer b (wrap32 (2 * int (length (m_buffer b)))) = Inr c"
  show "buf_of n c"
    using resizeBuffer_keeps [OF c b] wrap32_in_range [of "2 * int (length (m_buffer b))"]
    by (simp add: in_int32_def)
next
  fix b c :: tcp_buffer and bs v
  assume b: "buf_of n b" and v: "write_bytes (m_buffer b) (m_write_index b) bs = Inr v"
    and c: "moveWriteIndex (b\<lparr>m_buffer := v\<rparr>) (int (length bs)) = Inr c"
  show "buf_of n c" by (rule moveWriteIndex_keeps [OF c write_at_end_keeps(1) [OF v b]]) simp
qed

text \<open>The callbacks of a client are arguments: they are typed when what they do to the connection is.\<close>

definition run_typed ::
  "int \<Rightarrow> int \<Rightarrow> ip_net_addr option \<Rightarrow> ip_net_addr option \<Rightarrow> fd_event \<Rightarrow> ('d, 'k) sys_run \<Rightarrow> bool" where
  "run_typed n fd la pa ev run \<longleftrightarrow> (\<forall>d m w w'. run d m w = Some (Inr w') \<longrightarrow>
     conn_typed n fd la pa ev w \<longrightarrow> conn_typed n fd la pa ev w')"

lemma excute_keeps [keeps]:
  assumes "excute run services w = Some (Inr w')" and w: "conn_typed n fd la pa ev w"
    and run: "run_typed n fd la pa ev run"
  shows "conn_typed n fd la pa ev w'"
proof -
  obtain ms b where dec: "TinyPBCoder_decode [] (tc_in_buffer (cw_conn w)) = Some (Inr (ms, b))"
    using assms(1) by (auto simp: excute_def bind_ro_eq)
  let ?w = "with_conn (tc_in_buffer_update (\<lambda>_. b)) w"
  have w1: "conn_typed n fd la pa ev ?w"
    by (rule typed_members(1) [OF w decode_keeps [OF dec typed_members(8) [OF w]]])
  show ?thesis
  proof (cases "tc_connection_type (cw_conn w) = TcpConnectionByServer")
    case True
    with assms(1) dec obtain rs u rs' c where u: "fold_res (serve_one services) ms ([], ?w) = Inr (rs, u)"
      and c: "TinyPBCoder_encode rs (tc_out_buffer (cw_conn u)) = Inr (rs', c)"
      and w': "w' = listenWrite (with_conn (tc_out_buffer_update (\<lambda>_. c)) u)"
      by (auto simp: excute_def bind_res_eq_Inr Let_def)
    have "(\<lambda>(rs, u). conn_typed n fd la pa ev u) (rs, u)"
      by (rule fold_res_invariant [OF u]) (use w1 in \<open>auto intro: serve_one_keeps\<close>)
    then have u1: "conn_typed n fd la pa ev u" by simp
    show ?thesis unfolding w'
      by (intro simple_keeps typed_members(2) [OF u1 encode_keeps [OF c typed_members(9) [OF u1]]])
  next
    case False
    with assms(1) dec have ran: "run_read_dones run ms ?w = Some (Inr w')"
      by (simp add: excute_def Let_def)
    show ?thesis
    proof (rule run_read_dones_invariant [where P = "conn_typed n fd la pa ev", OF ran w1])
      fix d m u u'
      assume "conn_typed n fd la pa ev u" "run d m u = Some (Inr u')"
      with run have "conn_typed n fd la pa ev u'" unfolding run_typed_def by blast
      then show "conn_typed n fd la pa ev (with_conn (tc_read_dones_update (smap_erase (m_msg_id m))) u')"
        by (rule typed_members)
    qed
  qed
qed

lemma onRead_keeps [keeps]:
  assumes "onRead sr run services w = Some (Inr w')" and w: "conn_typed n fd la pa ev w"
    and run: "run_typed n fd la pa ev run"
  shows "conn_typed n fd la pa ev w'"
proof (cases "tc_state (cw_conn w) = Connected")
  case True
  with assms(1) obtain all close b k where
    k: "read_loop sr (tc_in_buffer (cw_conn w)) (cw_sock w) = Some (Inr (all, close, b, k))"
    and w': "(if close then Some (Inr (TcpConnection_clear ((with_conn (tc_in_buffer_update (\<lambda>_. b)) w)\<lparr>cw_sock := k\<rparr>)))
       else excute run services ((with_conn (tc_in_buffer_update (\<lambda>_. b)) w)\<lparr>cw_sock := k\<rparr>)) = Some (Inr w')"
    by (auto simp: onRead_def bind_ro_eq Let_def)
  have "buf_of n b" using read_loop_keeps [OF k typed_members(8) [OF w]] .
  then have u: "conn_typed n fd la pa ev ((with_conn (tc_in_buffer_update (\<lambda>_. b)) w)\<lparr>cw_sock := k\<rparr>)"
    by (intro typed_members w)
  show ?thesis
    using w' simple_keeps(3) [OF u] excute_keeps [OF _ u run] by (cases close) auto
qed (use assms in \<open>simp add: onRead_def\<close>)

lemma onWrite_keeps [keeps]:
  assumes "onWrite sw run w = Some (Inr w')" and w: "conn_typed n fd la pa ev w"
    and run: "run_typed n fd la pa ev run"
  shows "conn_typed n fd la pa ev w'"
proof (cases "tc_state (cw_conn w) = Connected")
  case True
  define queued where "queued = (if by_client w
    then Some (bind_res (TinyPBCoder_encode (map fst (tc_write_dones (cw_conn w))) (tc_out_buffer (cw_conn w)))
      (\<lambda>(msgs, b). Inr (with_conn (\<lambda>c. c\<lparr>tc_out_buffer := b,
         tc_write_dones := zip msgs (map snd (tc_write_dones c))\<rparr>) w)))
    else Some (Inr w))"
  from True assms(1) obtain v where v: "queued = Some (Inr v)" and rest:
    "bind_ro (write_loop sw (tc_out_buffer (cw_conn v)) (cw_sock v)) (\<lambda>(all, sock).
       let v = v\<lparr>cw_sock := sock\<rparr>;
           v = (if all then update_epoll (v\<lparr>cw_fd_event := fd_cancle OUT_EVENT (cw_fd_event v)\<rparr>) else v)
       in if by_client v
          then bind_ro (run_write_dones run 0 v) (\<lambda>w. Some (Inr (with_conn (tc_write_dones_update (\<lambda>_. [])) w)))
          else Some (Inr v)) = Some (Inr w')"
    unfolding onWrite_def queued_def by (auto simp: bind_ro_eq)
  have v1: "conn_typed n fd la pa ev v"
    using v w encode_keeps [OF _ typed_members(9) [OF w]]
    by (auto simp: queued_def bind_res_eq_Inr conn_typed_def split: if_splits)
  from rest obtain all k where
    "(let u = v\<lparr>cw_sock := k\<rparr>;
          u = (if all then update_epoll (u\<lparr>cw_fd_event := fd_cancle OUT_EVENT (cw_fd_event u)\<rparr>) else u)
      in if by_client u
         then bind_ro (run_write_dones run 0 u) (\<lambda>w. Some (Inr (with_conn (tc_write_dones_update (\<lambda>_. [])) w)))
         else Some (Inr u)) = Some (Inr w')"
    by (auto simp: bind_ro_eq)
  moreover define u where "u = (if all
    then update_epoll (v\<lparr>cw_sock := k, cw_fd_event := fd_cancle OUT_EVENT (cw_fd_event v)\<rparr>) else v\<lparr>cw_sock := k\<rparr>)"
  moreover have u1: "conn_typed n fd la pa ev u"
    using typed_members(5) [OF v1, of k] typed_members(7) [OF typed_members(5) [OF v1, of k], of OUT_EVENT]
    by (simp add: u_def)
  ultimately consider "w' = u" | x where "run_write_dones run 0 u = Some (Inr x)"
      "w' = with_conn (tc_write_dones_update (\<lambda>_. [])) x"
    by (auto simp: bind_ro_eq Let_def split: if_splits)
  then show ?thesis
  proof cases
    case (2 x)
    have "conn_typed n fd la pa ev x"
      by (rule run_write_dones_invariant [OF 2(1)]) (use u1 run in \<open>auto simp: run_typed_def\<close>)
    then show ?thesis unfolding 2(2) by (rule typed_members)
  qed (use u1 in simp)
qed (use assms in \<open>simp add: onWrite_def\<close>)

section \<open>Reachable connections\<close>

lemma step_keeps:
  assumes "conn_step sr sw sd run services w w'" and "conn_typed n fd la pa ev w"
    and "run_typed n fd la pa ev run"
  shows "conn_typed n fd la pa ev w'"
  using assms(1)
proof cases
  case (step_elsewhere tid l rt k)
  with assms(2) show ?thesis by (simp add: conn_typed_def)
qed (use assms(2,3) in \<open>auto intro: keeps\<close>)

lemma new_typed:
  assumes "TcpConnection_new l fd n pa la type ev tid rt k = Inr w" and "n \<le> INT_MAX" and "event_typed fd ev ev"
  shows "conn_typed n fd la pa ev w"
proof -
  from assms(1) obtain b where b: "tcp_buffer_init n = Inr b"
    by (auto simp: TcpConnection_new_def bind_res_eq_Inr)
  have "buf_of n b" by (rule init_keeps [OF b assms(2)])
  with assms(1,3) b show ?thesis
    by (auto simp: TcpConnection_new_def Let_def conn_typed_def listenRead_def update_epoll_def split: if_splits)
qed

section \<open>The client of an rpc call\<close>

text \<open>The lambdas of \<open>CallMethod\<close> act on the connection only through \<open>writeMessage\<close> and \<open>readMessage\<close>.\<close>

lemma call_back_typed:
  "call_back ext w = Inr w' \<Longrightarrow> conn_typed n fd la pa ev w \<Longrightarrow> conn_typed n fd la pa ev w'"
  "fail_call ext code info c w = Inr w' \<Longrightarrow> conn_typed n fd la pa ev w \<Longrightarrow> conn_typed n fd la pa ev w'"
  by (auto simp: fail_call_def call_back_def bind_res_eq_Inr conn_typed_def)

lemma with_rest_typed: "conn_typed n fd la pa ev (with_rest f w) = conn_typed n fd la pa ev w"
  by (simp add: conn_typed_def)

lemma run_rpc_done_typed: "run_typed n fd la pa ev (run_rpc_done ext)"
  unfolding run_typed_def
proof (intro allI impI)
  fix d m and w w' :: "'a rpc_world"
  assume run: "run_rpc_done ext d m w = Some (Inr w')" and w: "conn_typed n fd la pa ev w"
  show "conn_typed n fd la pa ev w'"
  proof (cases d)
    case (Send_Done c)
    with run have "w' = listenRead (pushReadMessage (m_msg_id m) (Recv_Done c) w)"
      by (auto simp: bind_res_eq_Inr readMessage_def dest!: log_addrs_Inr)
    then show ?thesis using w by (simp add: simple_keeps)
  next
    case (Recv_Done c)
    let ?u = "with_rest (re_response_update (\<lambda>_. Some (m_pb_data m))) w"
    from Recv_Done run have "call_back ext ?u = Inr w' \<or> (\<exists>code info. fail_call ext code info c ?u = Inr w')"
      by (auto simp: bind_res_eq_Inr Let_def dest!: log_addrs_Inr split: if_splits)
    moreover have "conn_typed n fd la pa ev ?u" using w by (simp add: with_rest_typed)
    ultimately show ?thesis by (auto dest: call_back_typed)
  qed
qed

lemma connect_done_typed:
  assumes "connect_done ext req w = Some (Inr w')" and "conn_typed n fd la pa ev w"
  shows "conn_typed n fd la pa ev w'"
proof -
  from assms(1) consider (fail) code info c where "fail_call ext code info c w = Inr w'"
    | (send) d where "w' = listenWrite (pushSendMessage req d w)"
    by (auto simp: connect_done_def bind_res_eq_Inr Let_def writeMessage_def dest!: log_addrs_Inr split: if_splits)
  then show ?thesis
  proof cases
    case fail
    then show ?thesis using assms(2) by (rule call_back_typed)
  qed (use assms(2) in \<open>simp add: simple_keeps\<close>)
qed

lemma initLocalAddr_typed: "conn_typed n fd la pa ev (initLocalAddr sys w) = conn_typed n fd la pa ev w"
  by (simp add: conn_typed_def)

lemma call_connect_typed:
  "call_connect sys w = (rt, u) \<Longrightarrow> conn_typed n fd la pa ev u = conn_typed n fd la pa ev w"
  by (auto simp: call_connect_def conn_typed_def split: prod.splits)

lemma connect_outcome_typed:
  assumes "conn_typed n fd la pa ev w"
  shows "conn_typed n fd la pa ev (connect_outcome sys w)"
proof -
  obtain rt u where u: "call_connect sys w = (rt, u)" by fastforce
  then have u1: "conn_typed n fd la pa ev u" using assms call_connect_typed by blast
  have loop: "conn_typed n fd la pa ev (v\<lparr>cw_loop := l\<rparr>) = conn_typed n fd la pa ev v" for v :: "('a, 'b) client_world" and l
    by (simp add: conn_typed_def)
  have "conn_typed n fd la pa ev (with_client g v) = conn_typed n fd la pa ev v"
    "conn_typed n fd la pa ev (set_connect_error code info v) = conn_typed n fd la pa ev v"
    for v :: "('a, 'b) client_world" and g code info
    by (simp_all add: conn_typed_def set_connect_error_def)
  note same = this with_rest_typed initLocalAddr_typed
  show ?thesis
    by (cases rt) (simp_all add: connect_outcome_def u Let_def loop same u1 simple_keeps split: prod.split)
qed

lemma on_timeout_typed:
  assumes "on_timeout ext c w = Inr w'" and "conn_typed n fd la pa ev w"
  shows "conn_typed n fd la pa ev w'"
proof (cases "Finished (re_controllers (rest_of w) c)")
  case False
  define u where "u = with_rest (\<lambda>_. with_controller StartCancel c (rest_of w)) w"
  have "conn_typed n fd la pa ev u" unfolding u_def with_rest_typed by (rule assms(2))
  moreover from False assms(1) obtain info where "fail_call ext ERROR_RPC_CALL_TIMEOUT info (Some c) u = Inr w'"
    by (simp add: on_timeout_def Let_def u_def)
  ultimately show ?thesis by (rule call_back_typed(2) [rotated])
qed (use assms in \<open>simp add: on_timeout_def\<close>)

lemma rpc_handle_typed:
  assumes "rpc_handle ext sys sr sw req e w = Some (Inr w')" and w: "conn_typed n fd la pa ev w"
  shows "conn_typed n fd la pa ev w'"
proof (cases e)
  case Ev_Writable
  have ready: ?thesis if "connect_ready (lift_sys sys) (Some (connect_done ext req)) w = Some (Inr w')"
    using that connect_done_typed [OF _ connect_outcome_typed [OF w]] by (simp add: connect_ready_def Let_def)
  have ?thesis if "onWrite (lift_write sw) (run_rpc_done ext) w = Some (Inr w')"
    using that w run_rpc_done_typed by (rule onWrite_keeps)
  with assms Ev_Writable ready show ?thesis by (simp split: if_splits option.splits callback.splits)
next
  case Ev_Readable
  have ?thesis if "onRead (lift_read sr) (run_rpc_done ext) ([] :: (unit, unit) service_map) w = Some (Inr w')"
    using that w run_rpc_done_typed by (rule onRead_keeps)
  with assms Ev_Readable show ?thesis by (simp split: if_splits option.splits callback.splits)
qed (use assms on_timeout_typed in simp)

lemma rpc_events_typed:
  "rpc_events ext sys sr sw req evs w = Some (Inr w') \<Longrightarrow> conn_typed n fd la pa ev w \<Longrightarrow> conn_typed n fd la pa ev w'"
proof (induction evs arbitrary: w)
  case (Cons e evs)
  then obtain u where u: "rpc_handle ext sys sr sw req e w = Some (Inr u)" "rpc_events ext sys sr sw req evs u = Some (Inr w')"
    by (auto simp: bind_ro_eq simp del: rpc_handle.simps)
  show ?case by (rule Cons.IH [OF u(2)]) (rule rpc_handle_typed [OF u(1) Cons.prems(2)])
qed simp

lemma connect_typed:
  assumes "TcpClient_connect sys loop (Some (connect_done ext req)) w = Some (Inr w')"
    and "conn_typed n fd la pa ev w"
    and loop: "\<And>u u'. loop u = Some (Inr u') \<Longrightarrow> conn_typed n fd la pa ev u \<Longrightarrow> conn_typed n fd la pa ev u'"
  shows "conn_typed n fd la pa ev w'"
proof -
  obtain rt u where u: "call_connect sys w = (rt, u)" by fastforce
  have u1: "conn_typed n fd la pa ev u" using assms(2) call_connect_typed [OF u] by simp
  let ?v = "update_epoll (u\<lparr>cw_fd_event :=
    fd_listen OUT_EVENT (Some (TcpClient_onConnect (tc_fd (cw_conn u)))) None (cw_fd_event u)\<rparr>)"
  show ?thesis
  proof (cases rt)
    case Connect_Ok
    then have "connect_done ext req (initLocalAddr sys (setState Connected u)) = Some (Inr w')"
      using assms(1) by (simp add: TcpClient_connect_def u)
    then show ?thesis by (rule connect_done_typed) (simp add: initLocalAddr_typed simple_keeps u1)
  next
    case (Connect_Errno errno)
    let ?x = "set_connect_error ERROR_FAILED_CONNECT (''connect error, sys error = '' @ sys_strerror sys errno) u"
    show ?thesis
    proof (cases "errno = EINPROGRESS")
      case True
      with assms(1) Connect_Errno have "(if el_is_looping (cw_loop ?v) then Some (Inr ?v) else loop ?v) = Some (Inr w')"
        unfolding TcpClient_connect_def u by (simp add: Let_def)
      with simple_keeps(9) [OF u1] loop [of ?v w'] show ?thesis by (simp split: if_splits)
    next
      case False
      with assms(1) Connect_Errno have "connect_done ext req ?x = Some (Inr w')"
        by (simp add: TcpClient_connect_def u)
      then show ?thesis by (rule connect_done_typed) (use u1 in \<open>simp add: conn_typed_def set_connect_error_def\<close>)
    qed
  qed
qed

lemma connect_retries_typed:
  assumes "\<And>u u'. loop u = Some (Inr u') \<Longrightarrow> conn_typed n fd la pa ev u \<Longrightarrow> conn_typed n fd la pa ev u'"
  shows "connect_retries sys loop (connect_done ext req) r w = Some (Inr w') \<Longrightarrow>
    conn_typed n fd la pa ev w \<Longrightarrow> conn_typed n fd la pa ev w'"
proof (induction r arbitrary: w)
  case (Suc r)
  then consider "w' = w" | u where "TcpClient_connect sys loop (Some (connect_done ext req)) w = Some (Inr u)"
      "connect_retries sys loop (connect_done ext req) r u = Some (Inr w')"
    by (auto simp: bind_ro_eq split: if_splits)
  then show ?case
  proof cases
    case (2 u)
    show ?thesis by (rule Suc.IH [OF 2(2)]) (rule connect_typed [OF 2(1) Suc.prems(2) assms])
  qed (use Suc.prems in simp)
qed simp

lemma client_new_typed:
  assumes "TcpClient_new peer fd ev l tid rt e = Inr (Some u)" and "event_typed fd ev ev"
  shows "conn_typed 128 fd None (Some peer) ev u"
proof -
  from assms(1) obtain k and v :: "('a, 'b) client_world" where v: "u = setConnectionType TcpConnectionByClient v"
    "TcpConnection_new l fd 128 (Some peer) None TcpConnectionByClient ev tid rt k = Inr v"
    by (auto simp: TcpClient_new_def bind_res_eq_Inr split: if_splits)
  show ?thesis unfolding v(1) by (rule simple_keeps, rule new_typed [OF v(2) _ assms(2)]) simp
qed

lemma issued_typed:
  assumes "CallMethod ext call th = Some (Inr (Issued w ids))"
    and "event_typed (ca_fd call) (ca_fd_event call) (ca_fd_event call)"
    and loop: "ca_loop call = (\<lambda>req. rpc_events ext (ca_sys call) sr sw req evs)"
  shows "conn_typed 128 (ca_fd call) None (ch_peer_addr (re_channel (th_env th))) (ca_fd_event call) w"
proof -
  obtain peer l tid rt e u el req r where u: "TcpClient_new peer (ca_fd call) (ca_fd_event call) l tid rt e = Inr (Some u)"
    "ch_peer_addr (re_channel (th_env th)) = Some peer"
    and w: "connect_retries (lift_sys (ca_sys call)) (ca_loop call req) (connect_done ext req) r
      (u\<lparr>cw_loop := el\<rparr>) = Some (Inr w)"
    using assms(1) by (rule CallMethod_Issued)
  have "conn_typed 128 (ca_fd call) None (Some peer) (ca_fd_event call) (u\<lparr>cw_loop := el\<rparr>)"
    using client_new_typed [OF u(1) assms(2)] by (simp add: conn_typed_def)
  with w show ?thesis unfolding u(2) loop
    by (rule connect_retries_typed [rotated]) (rule rpc_events_typed)
qed

text \<open>C11. Whatever its peer sends and its socket answers, and in whatever order its member functions
  are called, as long as the calls return, a connection made for buffers of \<open>n\<close> bytes whose callbacks
  keep this type stays well-typed: in both buffers the read index is at most the write index and that
  at most the capacity; its descriptor and addresses are those it was made with; its table of awaited
  responses is ordered; and for each event it asks \<open>epoll\<close> for, there is a callback to run.  A server's
  connection runs no callbacks, and those of \<open>RpcChannel::CallMethod\<close> keep the type: so the connection
  of every call that was issued is well-typed, during the call and after any handlers of the loop.\<close>

theorem connection_well_typed:
  assumes "TcpConnection_new l fd n pa la type ev tid rt k = Inr w" and "n \<le> INT_MAX"
    and "event_typed fd ev ev" and "run_typed n fd la pa ev run"
    and "(conn_step sr sw sd run services)\<^sup>*\<^sup>* w w'"
  shows "conn_typed n fd la pa ev w' \<and> run_typed n fd la pa ev (run_rpc_done ext) \<and>
    (CallMethod ext call th = Some (Inr (Issued u ids)) \<longrightarrow>
     event_typed (ca_fd call) (ca_fd_event call) (ca_fd_event call) \<longrightarrow>
     ca_loop call = (\<lambda>req. rpc_events ext (ca_sys call) sr' sw' req evs) \<longrightarrow>
     rpc_events ext (ca_sys call) sr' sw' req evs' u = Some (Inr u') \<longrightarrow>
     conn_typed 128 (ca_fd call) None (ch_peer_addr (re_channel (th_env th))) (ca_fd_event call) u')"
proof (intro conjI impI)
  show "conn_typed n fd la pa ev w'"
    using assms(5)
  proof (induction rule: rtranclp_induct)
    case base
    show ?case by (rule new_typed [OF assms(1-3)])
  next
    case (step u v)
    show ?case by (rule step_keeps [OF step.hyps(2) step.IH assms(4)])
  qed
qed (rule run_rpc_done_typed, erule rpc_events_typed, erule (2) issued_typed)

theorem connection_well_typed_witness:
  "(\<exists>w u. TcpConnection_new (the (EventLoop_new None 1 3 4 5)) 7 256 None None TcpConnectionByServer
       (fd_event_new 7) 1 None ([], []) = Inr w \<and>
     onWrite list_write list_run (listenWrite (pushReadMessage ''1'' 5 (setState Closed w))) = Some (Inr u) \<and>
     conn_typed 256 7 None None (fd_event_new 7) u) \<and>
   (\<exists>w w'. CallMethod sample_ext accepted_call stub_thread = Some (Inr (Issued w (th_msg_ids stub_thread))) \<and>
     rpc_events sample_ext (pair_sys Connect_Ok) pair_read pair_write sample_req [Ev_Writable] w = Some (Inr w') \<and>
     conn_typed 128 5 None (Some (sample_addr 80)) (fd_event_new 5) w')"
proof -
  let ?l = "the (EventLoop_new None 1 3 4 5)" and ?ev = "fd_event_new 7"
  obtain b where b: "tcp_buffer_init 256 = Inr b" "buf_shape b [] [] (replicate (nat 256) NUL)"
    using init_shape [of 256] by auto
  then obtain w :: "(nat, list_socket) conn_world" where
    w: "TcpConnection_new ?l 7 256 None None TcpConnectionByServer ?ev 1 None ([], []) = Inr w"
      "tc_out_buffer (cw_conn w) = b" "tc_connection_type (cw_conn w) = TcpConnectionByServer"
    by (simp add: TcpConnection_new_def Let_def listenRead_def update_epoll_def)
  let ?v = "listenWrite (pushReadMessage ''1'' 5 (setState Closed w))"
  have "readAble b = 0" using shape_readAble [OF b(2)] by simp
  then obtain u where u: "onWrite list_write list_run ?v = Some (Inr u)"
    using w(2,3) by (simp add: onWrite_def pushReadMessage_def setState_def write_loop.simps update_epoll_def Let_def)
  have "conn_step list_read list_write id list_run echo_map w (setState Closed w)"
    "conn_step list_read list_write id list_run echo_map (setState Closed w) (pushReadMessage ''1'' 5 (setState Closed w))"
    "conn_step list_read list_write id list_run echo_map (pushReadMessage ''1'' 5 (setState Closed w)) ?v"
    "conn_step list_read list_write id list_run echo_map ?v u"
    by (rule conn_step.intros u)+
  then have steps: "(conn_step list_read list_write id list_run echo_map)\<^sup>*\<^sup>* w u"
    by (meson rtranclp.rtrancl_into_rtrancl rtranclp.rtrancl_refl)
  have ev: "event_typed 7 ?ev ?ev" by (simp add: event_typed_def)
  have "run_typed 256 7 None None ?ev list_run"
    by (auto simp: run_typed_def list_run_def conn_typed_def)
  note typed = connection_well_typed [OF w(1) _ ev this steps]
  have "conn_typed 256 7 None None ?ev u" by (rule typed [THEN conjunct1]) simp
  moreover obtain x x' where
    x: "CallMethod sample_ext accepted_call stub_thread = Some (Inr (Issued x (th_msg_ids stub_thread)))"
    "rpc_handle sample_ext (pair_sys Connect_Ok) pair_read pair_write sample_req Ev_Writable x = Some (Inr x')"
    by (rule sample_issued)
  have run: "rpc_events sample_ext (ca_sys accepted_call) pair_read pair_write sample_req [Ev_Writable] x = Some (Inr x')"
    using x(2) by (simp del: rpc_handle.simps)
  have "ca_fd accepted_call = 5" "ca_fd_event accepted_call = fd_event_new 5"
    "ca_loop accepted_call = (\<lambda>req. rpc_events sample_ext (ca_sys accepted_call) pair_read pair_write req [])"
    "ch_peer_addr (re_channel (th_env stub_thread)) = Some (sample_addr 80)"
    "event_typed 5 (fd_event_new 5) (fd_event_new 5)"
    by (simp_all add: sample_call_def event_typed_def RpcChannel_Init_def RpcChannel_of_addr_def)
  with typed [THEN conjunct2, THEN conjunct2, rule_format, OF _ x(1) _ _ run]
  have "conn_typed 128 5 None (Some (sample_addr 80)) (fd_event_new 5) x'" by simp
  ultimately show ?thesis using w(1) u x(1) run unfolding sample_call_simps by blast
qed

end
