(* ===== verification/Spec2Isabelle.thy ===== *)
theory Spec2Isabelle
  imports TinyPB_Coder String_Coder Net_Addr Std_Map Rpc_Dispatcher Timer Event_Loop Tcp_Connection Msg_Id
    Consistent_Hash Load_Balance Config Tcp_Client Rpc_Call
    Logger Io_Thread Tcp_Server Zk_Client Conn_Types
begin

text \<open>
  A model of netrpc, a C++ library for remote procedure calls over TCP (\<open>src/netrpc\<close>), with one theory
  per component.  Names of definitions are those of the functions and members they model, with the
  class in front where two classes use the same name.

  \<^bold>\<open>The program.\<close>  A server (\<open>net/tcp/tcp_server.cc\<close>) accepts connections in a main event loop and
  hands each to the event loop of an IO thread.  An event loop (\<open>net/eventloop.cc\<close>) runs queued tasks,
  then waits in \<open>epoll_wait\<close> and queues the handlers of the ready descriptors; timers and tasks of other
  threads reach it through descriptors of their own.  A connection (\<open>net/tcp/tcp_connection.cc\<close>) reads
  into a byte buffer, decodes packets of the TinyPB format, dispatches each request to a protobuf
  service (\<open>net/rpc/rpc_dispatcher.cc\<close>) and encodes the responses into the output buffer.  A client
  calls through \<open>RpcChannel::CallMethod\<close> (\<open>net/rpc/rpc_channel.cc\<close>), which connects, sends the request,
  waits for the response with the same id or for a timeout, and runs the closure of the call.

  \<^bold>\<open>How the model is built.\<close>  A class is a record, a member function a function on it that returns the new
  object.  What can go wrong in C++ is a value (\<open>Netrpc_Prelude\<close>): \<open>'a res\<close> has \<open>Inl\<close> for an access out
  of range, an overflow of a signed integer, a null pointer, an impossible length; \<open>exit\<close> is a
  constructor of \<open>start\<close> (\<open>Config\<close>).  Integers of the code are \<open>int\<close> with the range checks and
  conversions of \<open>int32_t\<close> and \<open>size_t\<close> written out, or words where the code works on bits.  A loop that
  need not end is a \<open>partial_function (option)\<close>, so \<open>None\<close> is a call that never returns, and that a
  call returns is proved.  Shared pointers that are aliased live in a store by number (timer events,
  controllers).  A \<open>std::function\<close> is a constructor that names the member function it is bound to
  (\<open>callback\<close>) or the lambda (\<open>rpc_done\<close>).  Where threads interleave, their atomic steps are a step
  relation or a list of events in any order.  System calls, the clock, protobuf, TinyXML, the
  ZooKeeper library, \<open>rand\<close>, \<open>std::hash\<close> and the rounding of doubles are arguments, and what is relied on is a hypothesis.

  \<^bold>\<open>Shared theories.\<close>  \<open>Std_String\<close>, \<open>Std_Map\<close> and \<open>Net_Bytes\<close> model what is used of the standard
  library and of byte order; \<open>Std_Map\<close> has the locales \<open>std_map\<close> and \<open>ordered_map\<close> with their
  interpretation on the association lists that stand for \<open>std::map\<close>.

  \<^bold>\<open>Bytes and messages.\<close>  \<open>Tcp_Buffer\<close>: the buffer refines a queue of bytes (locale \<open>byte_fifo\<close>).
  \<open>TinyPB_Coder\<close>: encoder and decoder, their round trip, what the decoder does on any bytes, where it
  leaves its arrays and where it never returns (a full buffer, a packet split inside its length).  \<open>String_Coder\<close>, \<open>Net_Addr\<close>: the plain coder, addresses.

  \<^bold>\<open>Reactor.\<close>  \<open>Fd_Event\<close> (with the locale \<open>fd_table\<close> for the process-wide table), \<open>Timer\<close>,
  \<open>Event_Loop\<close>: what a tick runs and how the timer stays armed; the registrations agree with the loop's
  set; tasks run in order, exactly once, under every interleaving, and a wake-up can be lost.
  \<open>Io_Thread\<close>: the two threads of an \<open>IOThread\<close> and their semaphores, the group and how the CPU
  utilisation that \<open>Sys_Util\<close> reads sizes it.  \<open>Tcp_Server\<close>: accepting.

  \<^bold>\<open>Connections and calls.\<close>  \<open>Tcp_Connection\<close>: reading, serving, answering, the client's callbacks, states.
  \<open>Conn_Types\<close>: every sequence of calls keeps a connection well-typed, whatever arrives.
  The dispatcher's use of a connection is the locale \<open>reply_channel\<close> of \<open>Rpc_Dispatcher\<close>, which
  \<open>Tcp_Connection\<close> interprets.  \<open>Rpc_Controller\<close>, \<open>Rpc_Dispatcher\<close>: verdicts of a controller, error
  branches of a dispatch, registration.  \<open>Tcp_Client\<close>, \<open>Rpc_Channel\<close>, \<open>Rpc_Call\<close>: a call with its
  retries, its timeout and its refusals; what the callbacks keep is the locale \<open>client_invariant\<close>.
  The section below joins both ends.

  \<^bold>\<open>Choosing a server.\<close>  \<open>Load_Balance\<close>, \<open>Consistent_Hash\<close>, \<open>Murmur_Hash\<close>, \<open>Md5\<close> (with a digest computed
  in \<open>Md5_Example\<close>): the strategies, the ring, the hashes; MD5 is compared with the published algorithm.
  \<open>Zk_Client\<close>: the registry.

  \<^bold>\<open>Rest.\<close>  \<open>Msg_Id\<close>: ids of messages.  \<open>Config\<close>: the configuration file.  \<open>Logger\<close>: messages reach the log
  files in order; the end of the writing threads; the size of the files.

  \<^bold>\<open>Bounds.\<close>  A buffer of \<open>n\<close> bytes grows to \<open>1.5 * n\<close> in an \<open>int\<close>, so a queue is refined up to
  \<open>WRITE_LIMIT\<close>, 1431655765 bytes, the largest \<open>n\<close> for which that fits; the same number bounds the
  descriptors the table can grow to.  The bit length of an MD5 message is an \<open>int\<close>, hence the
  268435392 bytes.  A client reads a response that fits in the 128 bytes of its fresh buffer; a longer
  one is lost (\<open>read_keeps_remainder\<close>).  \<open>EventLoop_loop\<close> and \<open>async_turns\<close> run as many turns as
  results of \<open>epoll_wait\<close>, or turns, are given: the loops they model end only when told to.  The
  comparisons with 0.8 and 0.2 in \<open>group_size\<close> use the exact values of these doubles.

  \<^bold>\<open>Not modelled.\<close>  The life time of objects (destructors that only free, dangling pointers other than the
  semaphore of \<open>Zk_Client\<close>); mutexes, whose blocks are single steps;
  \<open>common/exception.h\<close>, which nothing throws; the abstract classes of coder and protocol; a \<open>done\<close> closure run after
  \<open>CallMethod\<close> of a service has returned; the signal handler after its joins; \<open>testcases\<close>.
\<close>

section \<open>A call across the network\<close>

text \<open>What a server connection with nothing under way does with one request it answers with \<open>n\<close> replies of
  the method and one response, all the same: the client is sent \<open>n + 1\<close> copies.\<close>

lemma served_copies:
  assumes "stream_socket sr stream" and "accepting_socket sw sent_bytes" and "tc_state (cw_conn s) = Connected"
    and "tc_connection_type (cw_conn s) = TcpConnectionByServer" and "out_ok s" and "out_bytes s = []"
    and "buf_inv (tc_in_buffer (cw_conn s))" and "contents (tc_in_buffer (cw_conn s)) = []"
    and "stream (cw_sock s) = packet req" and "wf_msg req" and "m_msg_id req \<noteq> []"
    and "packet_length req < writeAble (tc_in_buffer (cw_conn s))"
    and "outcomes s services (received req) = (replicate n r, r)" and "int (Suc n) * packet_length r \<le> out_room s"
  shows "\<exists>s1 s2. onRead sr run services s = Some (Inr s1) \<and> onWrite sw run s1 = Some (Inr s2) \<and>
    sent_bytes (cw_sock s2) = sent_bytes (cw_sock s1) @ concat (replicate (Suc n) (packet r))"
proof -
  have req: "with_msg_id req = req" using assms(11) by (simp add: with_msg_id_def)
  have "m_msg_id r = m_msg_id (received req)"
    using outcomes_ids(1) [of r s services "received req"] assms(13) by simp
  then have r: "with_msg_id r = r" using assms(11) req by (simp add: with_msg_id_def received_def sent_def)
  have "int (length (m_buffer (tc_in_buffer (cw_conn s)))) \<le> INT_MAX" using assms(7) by (simp add: buf_inv_def)
  then have arr: "arrives sr stream s [req] []"
    using assms(1,3,7-10,12) by (simp add: arrives_def length_packet req incomplete_def announced_def)
  have all: "served s services (map received [req]) = replicate (Suc n) r"
    by (simp add: served_def assms(13) replicate_append_same)
  have cost: "cost (replicate m r) = int m * packet_length r" for m by (simp add: sum_list_replicate r)
  have pkts: "concat (map (\<lambda>m. packet (with_msg_id m)) (replicate m r)) = concat (replicate m (packet r))" for m
    by (simp add: map_replicate r)
  obtain s1 where s1: "onRead sr run services s = Some (Inr s1)" "out_ok s1"
    "out_bytes s1 = concat (replicate (Suc n) (packet r))" "tc_state (cw_conn s1) = Connected"
    "tc_connection_type (cw_conn s1) = TcpConnectionByServer"
    using onRead_serves [OF arr assms(4,5), of services run, unfolded all cost pkts] assms(6,14) by auto
  from onWrite_server [OF assms(2) s1(2,4,5), of run] s1 show ?thesis by auto
qed

text \<open>C1. One call across the network, from \<open>CallMethod\<close> to the closure.  The client connects, its writable
  socket carries the request; a server connection with nothing under way reads these bytes, serves
  them and writes; the client reads what the server wrote, in fewer than 128 bytes.  Then the closure
  of the call has run exactly once: on the response of the method when it answers once, or on a
  controller with the error \<open>ERROR_SERVICE_NOT_FOUND\<close> when the server has no such service.  (An answer
  travels twice, but the client drops the second copy.)\<close>

theorem rpc_end_to_end:
  assumes client: "re_channel (th_env th) = RpcChannel_Init (Some c) True (RpcChannel_of_addr (Some a))"
      "ca_controller call = Some c" "\<not> ca_request_null call" "\<not> ca_response_null call"
      "ca_serialized call = Some data" "0 \<le> ca_fd call" "ctl = re_controllers (th_env th) c"
      "\<not> Finished ctl" "GetMsgId ctl = i" "i \<noteq> []" "0 < GetMaxRetry ctl"
      "sys_connect (ca_sys call) (ca_fd call) (getSockAddr a) (re_sock (th_env th)) = (Connect_Ok, k)"
      "sys_getsockname (ca_sys call) (ca_fd call) k = Some l"
      "accepting_socket sw sent_bytes" "stream_socket sr stream"
    and request: "req = tinypb_new\<lparr>m_msg_id := i, m_method_name := ca_full_name call, m_pb_data := data\<rparr>"
      "packet_length req \<le> WRITE_LIMIT" "wf_msg req" "ca_full_name call = sn @ ''.'' @ mn" "CHR ''.'' \<notin> set sn"
    and server: "accepting_socket sw' sent_bytes'" "stream_socket sr' stream'" "tc_state (cw_conn s) = Connected"
      "tc_connection_type (cw_conn s) = TcpConnectionByServer" "out_ok s" "out_bytes s = []"
      "buf_inv (tc_in_buffer (cw_conn s))" "contents (tc_in_buffer (cw_conn s)) = []"
      "packet_length req < writeAble (tc_in_buffer (cw_conn s))"
    and answer: "rsp = tinypb_new\<lparr>m_msg_id := i, m_method_name := ca_full_name call\<rparr>"
      "smap_find services sn = Some si \<and> mn \<in> set (sv_methods (m_service si)) \<and>
         sv_parse (m_service si) mn data = Some q \<and> (\<forall>ctl. sv_call (m_service si) mn ctl q = [v]) \<and>
         r = closure_response (m_service si) v rsp \<or>
       smap_find services sn = None \<and> r = setTinyPBError ERROR_SERVICE_NOT_FOUND ''service not found'' rsp"
      "wf_msg r" "2 * packet_length r \<le> out_room s" "2 * packet_length r < 128"
  shows "\<exists>w w'. CallMethod ext call th = Some (Inr (Issued w (th_msg_ids th))) \<and>
    rpc_handle ext (ca_sys call) sr sw req Ev_Writable w = Some (Inr w') \<and>
    sent_bytes (re_sock (rest_of w')) = sent_bytes k @ packet req \<and>
    (stream' (cw_sock s) = packet req \<longrightarrow>
      (\<exists>s1 s2. onRead sr' run services s = Some (Inr s1) \<and> onWrite sw' run s1 = Some (Inr s2) \<and>
        (\<forall>k'. sent_bytes' (cw_sock s2) = sent_bytes' (cw_sock s1) @ stream k' \<longrightarrow>
          (\<exists>w'' end. rpc_handle ext (ca_sys call) sr sw req Ev_Readable (with_rest (re_sock_update (\<lambda>_. k')) w') =
               Some (Inr w'') \<and>
             re_response (rest_of w'') = Some (m_pb_data r) \<and> re_runs (rest_of w'') = re_runs (th_env th) @ [end] \<and>
             re_controllers (rest_of w'') c = SetFinished True end \<and>
             end = (if \<not> ex_parse ext (m_pb_data r) then SetError ERROR_FAILED_SERIALIZE ''serialize error'' ctl
                    else if m_err_code r \<noteq> 0 then SetError (m_err_code r) (m_err_info r) ctl else ctl)))))"
proof -
  define ends where "ends w' r k' \<longleftrightarrow>
      (\<exists>w'' end. rpc_handle ext (ca_sys call) sr sw req Ev_Readable (with_rest (re_sock_update (\<lambda>_. k')) w') =
           Some (Inr w'') \<and>
         re_response (rest_of w'') = Some (m_pb_data r) \<and> re_runs (rest_of w'') = re_runs (th_env th) @ [end] \<and>
         re_controllers (rest_of w'') c = SetFinished True end \<and>
         end = (if \<not> ex_parse ext (m_pb_data r) then SetError ERROR_FAILED_SERIALIZE ''serialize error'' ctl
                else if m_err_code r \<noteq> 0 then SetError (m_err_code r) (m_err_info r) ctl else ctl))" for w' and r :: tinypb and k'
  obtain w w' where w: "CallMethod ext call th = Some (Inr (Issued w (th_msg_ids th)))"
    "rpc_handle ext (ca_sys call) sr sw req Ev_Writable w = Some (Inr w')"
    "sent_bytes (re_sock (rest_of w')) = sent_bytes k @ packet req"
    and read: "\<forall>k' r n. stream k' = concat (replicate (Suc n) (packet r)) \<and> m_msg_id r = i \<and> wf_msg r \<and>
        int (Suc n) * packet_length r < 128 \<longrightarrow> ends w' r k'"
    using rpc_completes [OF client request(1,2), of ext, folded ends_def] by blast
  have id: "m_msg_id req = i" "m_msg_id req \<noteq> []" using request(1) client(10) by simp_all
  then have rec: "m_msg_id (received req) = i" "m_method_name (received req) = ca_full_name call"
    "m_pb_data (received req) = data"
    using request(1) by (simp_all add: received_def sent_def with_msg_id_def)
  have "parseServiceFullName (ca_full_name call) = Some (sn, mn)"
    using request(4,5) by (simp add: parseServiceFullName_Some)
  then obtain n where n: "outcomes s services (received req) = (replicate n r, r)" "n \<le> 1"
    using answer(1,2) rec by (auto simp: outcomes_def dispatch_outcome_def FindMethodByName_def Let_def intro: that [of 1] that [of 0])
  have "m_msg_id r = i" using outcomes_ids(1) [of r s services "received req"] n(1) rec(1) by simp
  have short: "int (Suc n) * packet_length r \<le> 2 * packet_length r"
    using n(2) packet_length_nonneg [of r] by (intro mult_right_mono) simp_all
  have "\<exists>s1 s2. onRead sr' run services s = Some (Inr s1) \<and> onWrite sw' run s1 = Some (Inr s2) \<and>
      sent_bytes' (cw_sock s2) = sent_bytes' (cw_sock s1) @ concat (replicate (Suc n) (packet r))"
    if "stream' (cw_sock s) = packet req"
    by (rule served_copies [OF server(2,1,3-8) that request(3) id(2) server(9) n(1)]) (use short answer(4) in linarith)
  moreover have "ends w' r k'" if "stream k' = concat (replicate (Suc n) (packet r))" for k'
    using read that \<open>m_msg_id r = i\<close> answer(3) le_less_trans [OF short answer(5)] by blast
  ultimately show ?thesis
    unfolding ends_def [symmetric] using w
    by (intro exI [of _ w] exI [of _ w']) (auto simp del: replicate_Suc rpc_handle.simps)
qed

theorem rpc_end_to_end_witness:
  "\<exists>w w' s1 s2 w''. CallMethod sample_ext accepted_call stub_thread = Some (Inr (Issued w (th_msg_ids stub_thread))) \<and>
     rpc_handle sample_ext (pair_sys Connect_Ok) pair_read pair_write sample_req Ev_Writable w = Some (Inr w') \<and>
     onRead list_read list_run echo_map (sample_world TcpConnectionByServer [] (packet sample_req)) = Some (Inr s1) \<and>
     onWrite list_write list_run s1 = Some (Inr s2) \<and>
     rpc_handle sample_ext (pair_sys Connect_Ok) pair_read pair_write sample_req Ev_Readable
       (with_rest (re_sock_update (\<lambda>_. (fst (cw_sock s2), []))) w') = Some (Inr w'') \<and>
     re_response (rest_of w'') = Some ''x'' \<and> re_runs (rest_of w'') = [SetMsgId ''1'' rpc_controller_new]"
proof -
  let ?s = "sample_world TcpConnectionByServer [] (packet sample_req)"
  have err: "ex_parse sample_ext b" "m_err_code sample_req = 0" "m_pb_data sample_req = ''x''" for b
    by (simp_all add: sample_ext_def tinypb_new_def)
  have r: "smap_find echo_map ''S'' = Some (service_info_of echo_service) \<and>
      ''m'' \<in> set (sv_methods (m_service (service_info_of echo_service))) \<and>
      sv_parse (m_service (service_info_of echo_service)) ''m'' ''x'' = Some ''x'' \<and>
      (\<forall>ctl. sv_call (m_service (service_info_of echo_service)) ''m'' ctl ''x'' = [''x'']) \<and>
      sample_req = closure_response (m_service (service_info_of echo_service)) ''x''
        (tinypb_new\<lparr>m_msg_id := ''1'', m_method_name := ca_full_name accepted_call\<rparr>)"
    by (simp add: echo_map_def service_info_of_def) (simp add: echo_service_def closure_response_def tinypb_new_def)
  have name: "ca_full_name accepted_call = ''S'' @ ''.'' @ ''m''" "CHR ''.'' \<notin> set ''S''" by simp_all
  have s: "packet_length sample_req < writeAble (tc_in_buffer (cw_conn ?s))" "2 * packet_length sample_req \<le> out_room ?s"
    "2 * packet_length sample_req < 128"
    using sample_req by simp_all
  define ends where "ends w' k' \<longleftrightarrow> (\<exists>w'' end. rpc_handle sample_ext (ca_sys accepted_call) pair_read pair_write
         sample_req Ev_Readable (with_rest (re_sock_update (\<lambda>_. k')) w') = Some (Inr w'') \<and>
       re_response (rest_of w'') = Some (m_pb_data sample_req) \<and>
       re_runs (rest_of w'') = re_runs (th_env stub_thread) @ [end] \<and>
       re_controllers (rest_of w'') 0 = SetFinished True end \<and>
       end = (if \<not> ex_parse sample_ext (m_pb_data sample_req)
              then SetError ERROR_FAILED_SERIALIZE ''serialize error'' (SetMsgId ''1'' rpc_controller_new)
              else if m_err_code sample_req \<noteq> 0
              then SetError (m_err_code sample_req) (m_err_info sample_req) (SetMsgId ''1'' rpc_controller_new)
              else SetMsgId ''1'' rpc_controller_new))" for w' and k' :: "char list \<times> char list"
  have "\<exists>w w'. CallMethod sample_ext accepted_call stub_thread = Some (Inr (Issued w (th_msg_ids stub_thread))) \<and>
     rpc_handle sample_ext (ca_sys accepted_call) pair_read pair_write sample_req Ev_Writable w = Some (Inr w') \<and>
     snd (re_sock (rest_of w')) = snd ([] :: char list, [] :: char list) @ packet sample_req \<and>
     (fst (cw_sock ?s) = packet sample_req \<longrightarrow>
      (\<exists>s1 s2. onRead list_read list_run echo_map ?s = Some (Inr s1) \<and> onWrite list_write list_run s1 = Some (Inr s2) \<and>
        (\<forall>k'. fst (cw_sock s2) = fst (cw_sock s1) @ fst k' \<longrightarrow> ends w' k')))"
    unfolding ends_def
    by (rule rpc_end_to_end [OF sample_prems(1-13) pair_laws(2,1) sample_prems(14,15) sample_req(2) name
        list_socket_laws(2,1) _ _ _ _ _ _ s(1) refl disjI1 [OF r] sample_req(2) s(2,3)]) simp_all
  moreover have "fst (cw_sock ?s) = packet sample_req" by simp
  ultimately obtain w w' s1 s2 where w: "CallMethod sample_ext accepted_call stub_thread = Some (Inr (Issued w (th_msg_ids stub_thread)))"
     "rpc_handle sample_ext (ca_sys accepted_call) pair_read pair_write sample_req Ev_Writable w = Some (Inr w')"
     "onRead list_read list_run echo_map ?s = Some (Inr s1)" "onWrite list_write list_run s1 = Some (Inr s2)"
     and read: "\<And>k'. fst (cw_sock s2) = fst (cw_sock s1) @ fst k' \<Longrightarrow> ends w' k'" by blast
  have "cost (served ?s echo_map (map received [sample_request])) \<le> out_room ?s"
    by (simp add: served_def sample_outcome flip: sample_request_def)
  with w(3) have "fst (cw_sock s1) = []"
    using onRead_serves [OF sample_arrives [of TcpConnectionByServer "[]"], of echo_map list_run]
    by (auto simp: sample_request_def)
  then have "ends w' (fst (cw_sock s2), [])" by (intro read) simp
  then obtain w'' where "rpc_handle sample_ext (pair_sys Connect_Ok) pair_read pair_write sample_req Ev_Readable
       (with_rest (re_sock_update (\<lambda>_. (fst (cw_sock s2), []))) w') = Some (Inr w'')"
     "re_response (rest_of w'') = Some ''x''" "re_runs (rest_of w'') = [SetMsgId ''1'' rpc_controller_new]"
    unfolding ends_def by (auto simp: err simp del: rpc_handle.simps)
  with w show ?thesis unfolding sample_call_simps by blast
qed

end
